(* ===== verification/Prelude.thy ===== *)
theory Prelude
  imports Main "HOL-Library.Word" "HOL-Library.Product_Lexorder"
begin

text \<open>
  What every component of the development shares: the machine integers of the program
  (Rust's u8, u16, u32 and u64 as words, usize as \<open>nat\<close>), results (\<open>Inl\<close> an
  error, \<open>Inr\<close> a value) and their composition, byte buffers with the two operations
  the code performs on them (a slice and \<open>copy_from_slice\<close>), and little-endian
  integers.  The fixed-width encodings the file format is made of are one interface,
  the locale \<open>fixed_codec\<close>, interpreted for each integer width.
\<close>

unbundle bit_operations_syntax

section \<open>Machine integers\<close>

type_synonym u8 = "8 word"
type_synonym u16 = "16 word"
type_synonym u32 = "32 word"
type_synonym u64 = "64 word"
type_synonym bytes = "u8 list"

text \<open>Facts that compute on buffers, and facts that invert a successful result.\<close>

named_theorems buf_simps
named_theorems res_simps

lemma unat_u8_lt [simp]: "unat (b :: u8) < 256"
  using unsigned_less [of b, where ?'a = nat] by simp

lemma unat_u16_lt [simp]: "unat (x :: u16) < 65536"
  using unsigned_less [of x, where ?'a = nat] by simp

lemma unat_u32_lt [simp]: "unat (x :: u32) < 4294967296"
  using unsigned_less [of x, where ?'a = nat] by simp

lemma unat_u64_lt [simp]: "unat (x :: u64) < 18446744073709551616"
  using unsigned_less [of x, where ?'a = nat] by simp

text \<open>Sums and products of words that do not wrap around read as sums and products.\<close>

lemma unat_add_u64:
  assumes "unat (x :: u64) + unat y < 18446744073709551616"
  shows "unat (x + y) = unat x + unat y"
  using assms by (simp add: unat_word_ariths)

lemma unat_mult_u64:
  assumes "unat (x :: u64) * unat y < 18446744073709551616"
  shows "unat (x * y) = unat x * unat y"
  using assms by (simp add: unat_word_ariths)

lemma unat_sub_u64:
  assumes "unat (y :: u64) \<le> unat x"
  shows "unat (x - y) = unat x - unat y"
  using assms by (simp add: unat_sub word_le_nat_alt)

lemma unat_ucast_u32_u64 [simp]: "unat (ucast (x :: u32) :: u64) = unat x"
  by (simp add: unsigned_ucast_eq take_bit_nat_eq_self_iff order.strict_trans [OF unat_u32_lt])

lemma unat_of_nat_u64: "n < 18446744073709551616 \<Longrightarrow> unat (word_of_nat n :: u64) = n"
  by (simp add: unat_of_nat)

lemma unat_of_nat_u32: "n < 4294967296 \<Longrightarrow> unat (word_of_nat n :: u32) = n"
  by (simp add: unat_of_nat)

lemma unat_of_nat_u16: "n < 65536 \<Longrightarrow> unat (word_of_nat n :: u16) = n"
  by (simp add: unat_of_nat)

section \<open>Results\<close>

text \<open>
  \<open>bindR r k\<close> is Rust's \<open>let x = r?; k x\<close>: the first error is the result.
  \<open>ok_or o e\<close> is \<open>Option::ok_or\<close>.
\<close>

definition bindR :: "'e + 'a \<Rightarrow> ('a \<Rightarrow> 'e + 'b) \<Rightarrow> 'e + 'b" where
  "bindR r k = (case r of Inl e \<Rightarrow> Inl e | Inr a \<Rightarrow> k a)"

definition ok_or :: "'a option \<Rightarrow> 'e \<Rightarrow> 'e + 'a" where
  "ok_or x e = (case x of None \<Rightarrow> Inl e | Some a \<Rightarrow> Inr a)"

lemma bindR_simps [simp]: "bindR (Inl e) k = Inl e" "bindR (Inr a) k = k a"
  by (simp_all add: bindR_def)

lemma ok_or_simps [simp]: "ok_or None e = Inl e" "ok_or (Some a) e = Inr a"
  by (simp_all add: ok_or_def)

lemma bindR_eq_Inr [res_simps]: "bindR r k = Inr b \<longleftrightarrow> (\<exists>a. r = Inr a \<and> k a = Inr b)"
  by (cases r) simp_all

lemma bindR_eq_Inl [res_simps]:
  "bindR r k = Inl e \<longleftrightarrow> r = Inl e \<or> (\<exists>a. r = Inr a \<and> k a = Inl e)"
  by (cases r) simp_all

lemma ok_or_eq_Inr [res_simps]: "ok_or x e = Inr a \<longleftrightarrow> x = Some a"
  by (cases x) simp_all

lemma ok_or_eq_Inl [res_simps]: "ok_or x e = Inl e' \<longleftrightarrow> x = None \<and> e = e'"
  by (cases x) auto

lemma bindR_cong [fundef_cong]:
  "r = r' \<Longrightarrow> (\<And>a. r' = Inr a \<Longrightarrow> k a = k' a) \<Longrightarrow> bindR r k = bindR r' k'"
  by (cases r') simp_all

section \<open>Buffers\<close>

text \<open>
  \<open>bslice buf lo hi\<close> is \<open>&buf[lo..hi]\<close> and \<open>bput off src buf\<close> is
  \<open>buf[off..off + src.len()].copy_from_slice(src)\<close>, both for ranges inside the buffer;
  the callers check the range, or carry a panic for the case that it is outside.
\<close>

definition bslice :: "'a list \<Rightarrow> nat \<Rightarrow> nat \<Rightarrow> 'a list" where
  "bslice buf lo hi = take (hi - lo) (drop lo buf)"

definition bput :: "nat \<Rightarrow> 'a list \<Rightarrow> 'a list \<Rightarrow> 'a list" where
  "bput off src buf = take off buf @ src @ drop (off + length src) buf"

lemma length_slice [buf_simps]: "hi \<le> length buf \<Longrightarrow> length (bslice buf lo hi) = hi - lo"
  by (simp add: bslice_def)

lemma length_put [buf_simps]:
  "off + length src \<le> length buf \<Longrightarrow> length (bput off src buf) = length buf"
  by (simp add: bput_def)

lemma nth_slice: "hi \<le> length buf \<Longrightarrow> i < hi - lo \<Longrightarrow> bslice buf lo hi ! i = buf ! (lo + i)"
  by (simp add: bslice_def)

lemma nth_put:
  assumes "off + length src \<le> length buf" and "i < length buf"
  shows "bput off src buf ! i =
    (if off \<le> i \<and> i < off + length src then src ! (i - off) else buf ! i)"
proof (cases "i < off")
  case True
  with assms show ?thesis by (simp add: bput_def nth_append)
next
  case False
  show ?thesis
  proof (cases "i < off + length src")
    case True
    with False assms show ?thesis by (auto simp: bput_def nth_append)
  next
    case False
    with \<open>\<not> i < off\<close> have "off + length src \<le> i" by simp
    then obtain k where "i = off + length src + k" by (blast dest: le_Suc_ex)
    with assms show ?thesis by (simp add: bput_def nth_append min_absorb2)
  qed
qed

lemma slice_put_same [buf_simps]:
  assumes "off + length src \<le> length buf" and "hi = off + length src"
  shows "bslice (bput off src buf) off hi = src"
  using assms by (simp add: bslice_def bput_def)

lemma slice_put_before [buf_simps]:
  assumes "off + length src \<le> length buf" and "hi \<le> off"
  shows "bslice (bput off src buf) lo hi = bslice buf lo hi"
proof -
  have "take hi (bput off src buf) = take hi buf"
    using assms by (simp add: bput_def min_absorb1)
  then show ?thesis
    by (cases "lo \<le> hi") (simp_all add: bslice_def take_drop)
qed

lemma slice_put_after [buf_simps]:
  assumes "off + length src \<le> length buf" and "off + length src \<le> lo"
  shows "bslice (bput off src buf) lo hi = bslice buf lo hi"
  using assms by (simp add: bslice_def bput_def)

lemma put_put_same [buf_simps]:
  assumes "off + length src \<le> length buf" and "length src' = length src"
  shows "bput off src' (bput off src buf) = bput off src' buf"
  using assms by (simp add: bput_def)

lemma take_put_inside [buf_simps]:
  assumes "off + length src \<le> n" and "n \<le> length buf"
  shows "take n (bput off src buf) = bput off src (take n buf)"
  using assms by (simp add: bput_def drop_take)

lemma put_append:
  "length p = off \<Longrightarrow> bput off src (p @ rest) = p @ src @ drop (length src) rest"
  by (simp add: bput_def)

lemma put_slice_id: "off + n \<le> length buf \<Longrightarrow> bput off (bslice buf off (off + n)) buf = buf"
  by (simp add: bput_def bslice_def)
     (metis append_take_drop_id drop_drop add.commute)

lemma slice_zeros [buf_simps]:
  "hi \<le> n \<Longrightarrow> bslice (replicate n z) lo hi = replicate (hi - lo) z"
  by (simp add: bslice_def)

lemma slice_drop: "bslice (drop k buf) lo hi = bslice buf (k + lo) (k + hi)"
  by (simp add: bslice_def add.commute)

lemma slice_slice:
  assumes "b \<le> hi - lo"
  shows "bslice (bslice buf lo hi) a b = bslice buf (lo + a) (lo + b)"
proof -
  have "min (b - a) (hi - lo - a) = b - a" using assms by simp
  then show ?thesis
    by (simp add: bslice_def drop_take add.commute)
qed

lemma slice_append_left:
  "hi \<le> length xs \<Longrightarrow> bslice (xs @ ys) lo hi = bslice xs lo hi"
  by (cases "lo \<le> hi") (simp_all add: bslice_def)

lemma slice_append_right:
  "length xs \<le> lo \<Longrightarrow> bslice (xs @ ys) lo hi = bslice ys (lo - length xs) (hi - length xs)"
  by (cases "lo \<le> hi") (simp_all add: bslice_def)

lemma slice_full [simp]: "bslice buf 0 (length buf) = buf"
  by (simp add: bslice_def)

section \<open>Little-endian integers\<close>

text \<open>
  \<open>le_bytes n x\<close> are the \<open>n\<close> low-order bytes of \<open>x\<close>, least significant first;
  \<open>le_val\<close> reads them back.  They are the byte order that \<open>u16::from_le_bytes\<close> and
  its siblings (and the code's \<open>LittleEndian::read_u16\<close>, \<dots>) name.
\<close>

fun le_bytes :: "nat \<Rightarrow> nat \<Rightarrow> bytes" where
  "le_bytes 0 x = []"
| "le_bytes (Suc n) x = word_of_nat (x mod 256) # le_bytes n (x div 256)"

fun le_val :: "bytes \<Rightarrow> nat" where
  "le_val [] = 0"
| "le_val (b # bs) = unat b + 256 * le_val bs"

definition read_u16 :: "bytes \<Rightarrow> u16" where "read_u16 bs = word_of_nat (le_val bs)"
definition read_u32 :: "bytes \<Rightarrow> u32" where "read_u32 bs = word_of_nat (le_val bs)"
definition read_u64 :: "bytes \<Rightarrow> u64" where "read_u64 bs = word_of_nat (le_val bs)"

definition write_u16 :: "u16 \<Rightarrow> bytes" where "write_u16 x = le_bytes 2 (unat x)"
definition write_u32 :: "u32 \<Rightarrow> bytes" where "write_u32 x = le_bytes 4 (unat x)"
definition write_u64 :: "u64 \<Rightarrow> bytes" where "write_u64 x = le_bytes 8 (unat x)"

lemma length_le_bytes [simp]: "length (le_bytes n x) = n"
  by (induction n x rule: le_bytes.induct) simp_all

lemma le_bytes_numeral:
  "le_bytes (numeral k) x = word_of_nat (x mod 256) # le_bytes (pred_numeral k) (x div 256)"
  by (simp only: numeral_eq_Suc [of k] le_bytes.simps)

lemma le_val_le_bytes: "le_val (le_bytes n x) = x mod 256 ^ n"
proof (induction n x rule: le_bytes.induct)
  case (1 x)
  then show ?case by simp
next
  case (2 n x)
  have "unat (word_of_nat (x mod 256) :: u8) = x mod 256"
    by (simp add: unat_of_nat)
  with 2 show ?case
    by (simp add: mod_mult2_eq)
qed

lemma le_val_bound: "le_val bs < 256 ^ length bs"
proof (induction bs)
  case Nil
  then show ?case by simp
next
  case (Cons b bs)
  have "unat b < 256" by simp
  with Cons show ?case by (simp only: le_val.simps length_Cons power_Suc)
qed

lemma le_bytes_le_val: "length bs = n \<Longrightarrow> le_bytes n (le_val bs) = bs"
proof (induction bs arbitrary: n)
  case Nil
  then show ?case by simp
next
  case (Cons b bs)
  have "unat b < 256" by simp
  with Cons show ?case by (auto simp del: unat_u8_lt)
qed

section \<open>Digits\<close>

text \<open>The \<open>k\<close> low-order digits of a number, most significant first, and their value.\<close>

fun digits :: "nat \<Rightarrow> nat \<Rightarrow> nat \<Rightarrow> nat list" where
  "digits b 0 n = []"
| "digits b (Suc k) n = digits b k (n div b) @ [n mod b]"

definition digits_val :: "nat \<Rightarrow> nat list \<Rightarrow> nat" where
  "digits_val b ds = foldl (\<lambda>a d. a * b + d) 0 ds"

lemma length_digits [simp]: "length (digits b k n) = k"
  by (induction b k n rule: digits.induct) simp_all

lemma digits_bound: "0 < b \<Longrightarrow> d \<in> set (digits b k n) \<Longrightarrow> d < b"
  by (induction b k n rule: digits.induct) auto

lemma digits_numeral:
  "digits b (numeral k) n = digits b (pred_numeral k) (n div b) @ [n mod b]"
  by (simp only: numeral_eq_Suc [of k] digits.simps)

lemma digits_val_digits: "digits_val b (digits b k n) = n mod b ^ k"
proof (induction b k n rule: digits.induct)
  case (1 b n)
  then show ?case by (simp add: digits_val_def)
next
  case (2 b k n)
  then have "digits_val b (digits b (Suc k) n) = (n div b) mod b ^ k * b + n mod b"
    by (simp add: digits_val_def)
  then show ?case by (simp add: mod_mult2_eq mult.commute)
qed

section \<open>Fixed-width encodings\<close>

text \<open>
  The interface between the components and the byte layout: an encoding of constant
  width with its decoder.  A component reads back what it wrote at an offset
  (\<open>read_back\<close>), and a table of encoded entries is read entry by entry
  (\<open>table_entry\<close>, \<open>table_entries\<close>).
\<close>

locale fixed_codec =
  fixes enc :: "'a \<Rightarrow> bytes"
    and dec :: "bytes \<Rightarrow> 'a"
    and width :: nat
  assumes enc_width: "length (enc x) = width"
    and dec_enc: "dec (enc x) = x"
begin

lemma read_back:
  assumes "off + width \<le> length buf" and "hi = off + width"
  shows "dec (bslice (bput off (enc x) buf) off hi) = x"
  using assms by (simp add: slice_put_same enc_width dec_enc)

lemma enc_inj: "enc x = enc y \<Longrightarrow> x = y"
  by (metis dec_enc)

lemma table_length: "length (concat (map enc xs)) = length xs * width"
  by (induction xs) (simp_all add: enc_width)

lemma table_entry:
  assumes "i < length xs"
  shows "bslice (concat (map enc xs) @ rest) (i * width) (i * width + width) = enc (xs ! i)"
proof -
  have "concat (map enc xs) =
      concat (map enc (take i xs)) @ enc (xs ! i) @ concat (map enc (drop (Suc i) xs))"
    using assms by (subst id_take_nth_drop [of i xs]) simp_all
  moreover have "length (concat (map enc (take i xs))) = i * width"
    using assms table_length [of "take i xs"] by simp
  ultimately show ?thesis by (simp add: bslice_def enc_width)
qed

lemma table_entries:
  assumes "n \<le> length xs"
  shows "map (\<lambda>i. dec (bslice (concat (map enc xs) @ rest) (i * width) (i * width + width))) [0..<n]
    = take n xs"
  using assms by (intro nth_equalityI) (simp_all add: table_entry dec_enc)

end

lemma unat_mod_u16: "unat (x :: u16) mod 256 ^ 2 = unat x"
  using unsigned_less [of x, where ?'a = nat] by simp

lemma unat_mod_u32: "unat (x :: u32) mod 256 ^ 4 = unat x"
  using unsigned_less [of x, where ?'a = nat] by simp

lemma unat_mod_u64: "unat (x :: u64) mod 256 ^ 8 = unat x"
  using unsigned_less [of x, where ?'a = nat] by simp

interpretation u16_codec: fixed_codec write_u16 read_u16 2
  by unfold_locales (simp_all only: write_u16_def read_u16_def length_le_bytes le_val_le_bytes
      unat_mod_u16 of_nat_unat id_apply ucast_id)

interpretation u32_codec: fixed_codec write_u32 read_u32 4
  by unfold_locales (simp_all only: write_u32_def read_u32_def length_le_bytes le_val_le_bytes
      unat_mod_u32 of_nat_unat id_apply ucast_id)

interpretation u64_codec: fixed_codec write_u64 read_u64 8
  by unfold_locales (simp_all only: write_u64_def read_u64_def length_le_bytes le_val_le_bytes
      unat_mod_u64 of_nat_unat id_apply ucast_id)

lemmas codec_simps [simp] =
  u16_codec.enc_width u16_codec.dec_enc
  u32_codec.enc_width u32_codec.dec_enc
  u64_codec.enc_width u64_codec.dec_enc

end
