(* ===== verification/Vhdx_Format.thy ===== *)
theory Vhdx_Format
  imports Prelude
begin

text \<open>
  The vocabulary of the crate: its error values (\<open>error.rs\<close>), the on-disk constants
  (\<open>format.rs\<close>), the GUID helpers (\<open>guid.rs\<close>) and the checksum helpers
  (\<open>crc32c.rs\<close>).

  The third-party crates \<open>crc32c\<close> and \<open>uuid\<close> are parameters of the model: the record
  \<open>externs\<close> carries the functions of theirs the code calls, and every definition
  that reaches one takes the record as its first argument.  What the code relies on is
  the predicate \<open>uuid_laws\<close>, the documented behaviour of \<open>Uuid::to_bytes_le\<close> and
  \<open>Uuid::from_bytes_le\<close> (16 bytes, and the second undoes the first).  Nothing is assumed
  of the checksum beyond its being a function.  \<open>ref_externs\<close> instantiates the record
  with the byte layout documented in \<open>guid.rs\<close> and the bitwise CRC-32C, for the
  witnesses.
\<close>

section \<open>Errors\<close>

text \<open>
  \<open>error.rs\<close>: one constructor per variant; the interpolated parts of a message are left
  out.  \<open>Panic\<close> is no variant of the source: it is the outcome of a run that panics (an
  index or slice out of range, a division by zero), so that a panic is a branch of the
  model.
\<close>

datatype io_error = UnexpectedEof | InvalidSeek | NoSpace | NotFound

type_synonym uuid = "128 word"
type_synonym path = string

datatype error =
    Io io_error
  | BadSignature bytes
  | NoValidHeader
  | NoValidRegionTable
  | MissingRegion string
  | MissingMetadata string
  | InvalidStructure string
  | LogReplay string
  | DirtyLog
  | Unsupported string
  | ParentNotFound path string
  | ParentGuidMismatch path uuid uuid
  | VirtOffsetOutOfRange u64
  | UnmappedBlock u64
  | Integrity string
  | Panic string

type_synonym 'a res = "error + 'a"

section \<open>Foreign functions\<close>

text \<open>Rust strings are sequences of Unicode scalar values.\<close>

type_synonym rstring = "nat list"

record externs =
  crc32c :: "bytes \<Rightarrow> u32"
  uuid_from_bytes_le :: "bytes \<Rightarrow> uuid"
  uuid_to_bytes_le :: "uuid \<Rightarrow> bytes"
  uuid_parse_str :: "rstring \<Rightarrow> uuid option"
  uuid_to_string :: "uuid \<Rightarrow> rstring"

definition uuid_laws :: "externs \<Rightarrow> bool" where
  "uuid_laws E \<longleftrightarrow>
    (\<forall>u. length (uuid_to_bytes_le E u) = 16 \<and> uuid_from_bytes_le E (uuid_to_bytes_le E u) = u)"

lemma uuid_lawsD:
  assumes "uuid_laws E"
  shows "length (uuid_to_bytes_le E u) = 16" and "uuid_from_bytes_le E (uuid_to_bytes_le E u) = u"
  using assms by (simp_all add: uuid_laws_def)

text \<open>
  The text form of a UUID: parsing undoes displaying, which gives 36 ASCII characters,
  none of them a brace (code points 123 and 125).
\<close>

definition uuid_text_laws :: "externs \<Rightarrow> bool" where
  "uuid_text_laws E \<longleftrightarrow>
    (\<forall>u. uuid_parse_str E (uuid_to_string E u) = Some u \<and> length (uuid_to_string E u) = 36 \<and>
      (\<forall>c\<in>set (uuid_to_string E u). c < 128 \<and> c \<noteq> 123 \<and> c \<noteq> 125))"

lemma uuid_text_lawsD:
  assumes "uuid_text_laws E"
  shows "uuid_parse_str E (uuid_to_string E u) = Some u" and "length (uuid_to_string E u) = 36"
    and "c \<in> set (uuid_to_string E u) \<Longrightarrow> c < 128"
    and "123 \<notin> set (uuid_to_string E u)" and "125 \<notin> set (uuid_to_string E u)"
  using assms by (auto simp: uuid_text_laws_def)

definition nil_uuid :: uuid where "nil_uuid = 0"

section \<open>Constants\<close>

definition ascii :: "string \<Rightarrow> bytes" where
  "ascii s = map (\<lambda>c. word_of_nat (of_char c)) s"

lemma length_ascii [simp]: "length (ascii s) = length s"
  by (simp add: ascii_def)

definition KIB :: u64 where "KIB = 1024"
definition MIB :: u64 where "MIB = 1024 * KIB"

definition FILE_TYPE_IDENTIFIER_OFFSET :: u64 where "FILE_TYPE_IDENTIFIER_OFFSET = 0"
definition FILE_TYPE_IDENTIFIER_SIZE :: u64 where "FILE_TYPE_IDENTIFIER_SIZE = 64 * KIB"
definition HEADER_1_OFFSET :: u64 where "HEADER_1_OFFSET = 64 * KIB"
definition HEADER_2_OFFSET :: u64 where "HEADER_2_OFFSET = 128 * KIB"
definition HEADER_SIZE :: u64 where "HEADER_SIZE = 64 * KIB"
definition REGION_TABLE_1_OFFSET :: u64 where "REGION_TABLE_1_OFFSET = 192 * KIB"
definition REGION_TABLE_2_OFFSET :: u64 where "REGION_TABLE_2_OFFSET = 256 * KIB"
definition REGION_TABLE_SIZE :: u64 where "REGION_TABLE_SIZE = 64 * KIB"

definition FILE_TYPE_SIGNATURE :: bytes where "FILE_TYPE_SIGNATURE = ascii ''vhdxfile''"
definition HEADER_SIGNATURE :: bytes where "HEADER_SIGNATURE = ascii ''head''"
definition REGION_SIGNATURE :: bytes where "REGION_SIGNATURE = ascii ''regi''"
definition METADATA_SIGNATURE :: bytes where "METADATA_SIGNATURE = ascii ''metadata''"
definition LOG_ENTRY_SIGNATURE :: bytes where "LOG_ENTRY_SIGNATURE = ascii ''loge''"
definition ZERO_DESCRIPTOR_SIGNATURE :: bytes where "ZERO_DESCRIPTOR_SIGNATURE = ascii ''zero''"
definition DATA_DESCRIPTOR_SIGNATURE :: bytes where "DATA_DESCRIPTOR_SIGNATURE = ascii ''desc''"
definition DATA_SECTOR_SIGNATURE :: bytes where "DATA_SECTOR_SIGNATURE = ascii ''data''"

definition LOG_SECTOR_SIZE :: nat where "LOG_SECTOR_SIZE = 4 * 1024"
definition REGION_TABLE_HEADER_SIZE :: nat where "REGION_TABLE_HEADER_SIZE = 16"
definition REGION_TABLE_ENTRY_SIZE :: nat where "REGION_TABLE_ENTRY_SIZE = 32"
definition REGION_TABLE_MAX_ENTRIES :: nat where "REGION_TABLE_MAX_ENTRIES = 2047"
definition HEADER_FIXED_SIZE :: nat where "HEADER_FIXED_SIZE = 4096"
definition METADATA_HEADER_SIZE :: nat where "METADATA_HEADER_SIZE = 32"
definition METADATA_ENTRY_SIZE :: nat where "METADATA_ENTRY_SIZE = 32"

definition PAYLOAD_BLOCK_NOT_PRESENT :: u8 where "PAYLOAD_BLOCK_NOT_PRESENT = 0"
definition PAYLOAD_BLOCK_UNDEFINED :: u8 where "PAYLOAD_BLOCK_UNDEFINED = 1"
definition PAYLOAD_BLOCK_ZERO :: u8 where "PAYLOAD_BLOCK_ZERO = 2"
definition PAYLOAD_BLOCK_UNMAPPED :: u8 where "PAYLOAD_BLOCK_UNMAPPED = 3"
definition PAYLOAD_BLOCK_FULLY_PRESENT :: u8 where "PAYLOAD_BLOCK_FULLY_PRESENT = 6"
definition PAYLOAD_BLOCK_PARTIALLY_PRESENT :: u8 where "PAYLOAD_BLOCK_PARTIALLY_PRESENT = 7"
definition SB_BLOCK_NOT_PRESENT :: u8 where "SB_BLOCK_NOT_PRESENT = 0"
definition SB_BLOCK_PRESENT :: u8 where "SB_BLOCK_PRESENT = 6"

definition REGION_GUID_BAT :: uuid where
  "REGION_GUID_BAT = 0x2DC27766F62342009D64115E9BFD4A08"
definition REGION_GUID_METADATA :: uuid where
  "REGION_GUID_METADATA = 0x8B7CA20647904B9AB8FE575F050F886E"
definition METADATA_GUID_FILE_PARAMETERS :: uuid where
  "METADATA_GUID_FILE_PARAMETERS = 0xCAA16737FA364D43B3B633F0AA44E76B"
definition METADATA_GUID_VIRTUAL_DISK_SIZE :: uuid where
  "METADATA_GUID_VIRTUAL_DISK_SIZE = 0x2FA54224CD1B4876B2115DBED83BF4B8"
definition METADATA_GUID_PAGE_83_DATA :: uuid where
  "METADATA_GUID_PAGE_83_DATA = 0xBECA12ABB2E6452393EFC309E000C746"
definition METADATA_GUID_LOGICAL_SECTOR_SIZE :: uuid where
  "METADATA_GUID_LOGICAL_SECTOR_SIZE = 0x8141BF1DA96F4709BA47F233A8FAAB5F"
definition METADATA_GUID_PHYSICAL_SECTOR_SIZE :: uuid where
  "METADATA_GUID_PHYSICAL_SECTOR_SIZE = 0xCDA348C7445D44719CC9E9885251C556"
definition METADATA_GUID_PARENT_LOCATOR :: uuid where
  "METADATA_GUID_PARENT_LOCATOR = 0xA8D35F2DB30B454DABF7D3D84834AB0C"
definition PARENT_LOCATOR_TYPE_VHDX :: uuid where
  "PARENT_LOCATOR_TYPE_VHDX = 0xB04AEFB7D19E4A81B78925B8E9445913"

definition FILE_PARAMETERS_FLAG_LEAVE_BLOCKS_ALLOCATED :: u32 where
  "FILE_PARAMETERS_FLAG_LEAVE_BLOCKS_ALLOCATED = 1"
definition FILE_PARAMETERS_FLAG_HAS_PARENT :: u32 where "FILE_PARAMETERS_FLAG_HAS_PARENT = 2"
definition REGION_FLAG_REQUIRED :: u32 where "REGION_FLAG_REQUIRED = 1"
definition METADATA_FLAG_IS_USER :: u32 where "METADATA_FLAG_IS_USER = 1"
definition METADATA_FLAG_IS_VIRTUAL_DISK :: u32 where "METADATA_FLAG_IS_VIRTUAL_DISK = 2"
definition METADATA_FLAG_IS_REQUIRED :: u32 where "METADATA_FLAG_IS_REQUIRED = 4"

definition header_offset :: "nat \<Rightarrow> u64" where
  "header_offset index = (if index = 0 then HEADER_1_OFFSET else HEADER_2_OFFSET)"

definition region_table_offset :: "nat \<Rightarrow> u64" where
  "region_table_offset index = (if index = 0 then REGION_TABLE_1_OFFSET else REGION_TABLE_2_OFFSET)"

text \<open>The keys of a parent locator.\<close>

definition str :: "string \<Rightarrow> rstring" where "str s = map of_char s"

definition KEY_PARENT_LINKAGE :: rstring where "KEY_PARENT_LINKAGE = str ''parent_linkage''"
definition KEY_PARENT_LINKAGE2 :: rstring where "KEY_PARENT_LINKAGE2 = str ''parent_linkage2''"
definition KEY_RELATIVE_PATH :: rstring where "KEY_RELATIVE_PATH = str ''relative_path''"
definition KEY_VOLUME_PATH :: rstring where "KEY_VOLUME_PATH = str ''volume_path''"
definition KEY_ABSOLUTE_WIN32_PATH :: rstring where
  "KEY_ABSOLUTE_WIN32_PATH = str ''absolute_win32_path''"

lemmas key_defs = str_def KEY_PARENT_LINKAGE_def KEY_PARENT_LINKAGE2_def KEY_RELATIVE_PATH_def
  KEY_VOLUME_PATH_def KEY_ABSOLUTE_WIN32_PATH_def

lemmas offset_defs = KIB_def MIB_def FILE_TYPE_IDENTIFIER_OFFSET_def FILE_TYPE_IDENTIFIER_SIZE_def
  HEADER_1_OFFSET_def HEADER_2_OFFSET_def HEADER_SIZE_def REGION_TABLE_1_OFFSET_def
  REGION_TABLE_2_OFFSET_def REGION_TABLE_SIZE_def header_offset_def region_table_offset_def

lemmas size_defs = LOG_SECTOR_SIZE_def REGION_TABLE_HEADER_SIZE_def REGION_TABLE_ENTRY_SIZE_def
  REGION_TABLE_MAX_ENTRIES_def HEADER_FIXED_SIZE_def METADATA_HEADER_SIZE_def
  METADATA_ENTRY_SIZE_def

lemmas signature_defs = FILE_TYPE_SIGNATURE_def HEADER_SIGNATURE_def REGION_SIGNATURE_def
  METADATA_SIGNATURE_def LOG_ENTRY_SIGNATURE_def ZERO_DESCRIPTOR_SIGNATURE_def
  DATA_DESCRIPTOR_SIGNATURE_def DATA_SECTOR_SIGNATURE_def

lemmas block_state_defs = PAYLOAD_BLOCK_NOT_PRESENT_def PAYLOAD_BLOCK_UNDEFINED_def
  PAYLOAD_BLOCK_ZERO_def PAYLOAD_BLOCK_UNMAPPED_def PAYLOAD_BLOCK_FULLY_PRESENT_def
  PAYLOAD_BLOCK_PARTIALLY_PRESENT_def SB_BLOCK_NOT_PRESENT_def SB_BLOCK_PRESENT_def

lemma length_signatures [simp]:
  "length FILE_TYPE_SIGNATURE = 8" "length HEADER_SIGNATURE = 4" "length REGION_SIGNATURE = 4"
  "length METADATA_SIGNATURE = 8" "length LOG_ENTRY_SIGNATURE = 4"
  "length ZERO_DESCRIPTOR_SIGNATURE = 4" "length DATA_DESCRIPTOR_SIGNATURE = 4"
  "length DATA_SECTOR_SIGNATURE = 4"
  by (simp_all add: signature_defs)

section \<open>GUIDs\<close>

definition read_guid :: "externs \<Rightarrow> bytes \<Rightarrow> uuid" where
  "read_guid E bs = uuid_from_bytes_le E bs"

definition write_guid :: "externs \<Rightarrow> uuid \<Rightarrow> bytes" where
  "write_guid E u = uuid_to_bytes_le E u"

definition read_guid_at :: "externs \<Rightarrow> bytes \<Rightarrow> nat \<Rightarrow> uuid" where
  "read_guid_at E buf off = read_guid E (bslice buf off (off + 16))"

definition write_guid_at :: "externs \<Rightarrow> nat \<Rightarrow> uuid \<Rightarrow> bytes \<Rightarrow> bytes" where
  "write_guid_at E off u buf = bput off (write_guid E u) buf"

lemma write_guid_simps:
  assumes "uuid_laws E"
  shows "length (write_guid E u) = 16" and "read_guid E (write_guid E u) = u"
  using assms by (simp_all add: write_guid_def read_guid_def uuid_lawsD)

section \<open>Checksums\<close>

definition crc32c_with_zeroed_field :: "externs \<Rightarrow> bytes \<Rightarrow> nat \<Rightarrow> u32" where
  "crc32c_with_zeroed_field E buf field_offset =
    (let tmp = (if field_offset + 4 \<le> length buf then bput field_offset (replicate 4 0) buf else buf)
     in crc32c E tmp)"

text \<open>The field the checksum is stored in does not influence it.\<close>

lemma crc32c_zeroed_put [buf_simps]:
  assumes "off + 4 \<le> length buf" and "length cs = 4"
  shows "crc32c_with_zeroed_field E (bput off cs buf) off = crc32c_with_zeroed_field E buf off"
  using assms by (simp add: crc32c_with_zeroed_field_def buf_simps)

lemma crc32c_zeroed_zero:
  assumes "off + 4 \<le> length buf" and "bslice buf off (off + 4) = replicate 4 0"
  shows "crc32c_with_zeroed_field E buf off = crc32c E buf"
proof -
  have "bput off (replicate 4 0) buf = buf"
    using put_slice_id [OF assms(1)] by (simp only: assms(2))
  then show ?thesis by (simp add: crc32c_with_zeroed_field_def)
qed

section \<open>A concrete instance of the foreign functions\<close>

fun crc32c_bits :: "nat \<Rightarrow> u32 \<Rightarrow> u32" where
  "crc32c_bits 0 c = c"
| "crc32c_bits (Suc n) c =
     crc32c_bits n (if bit c 0 then drop_bit 1 c XOR 0x82F63B78 else drop_bit 1 c)"

fun crc32c_loop :: "u32 \<Rightarrow> bytes \<Rightarrow> u32" where
  "crc32c_loop c [] = c"
| "crc32c_loop c (b # bs) = crc32c_loop (crc32c_bits 8 (c XOR ucast b)) bs"

definition ref_crc32c :: "bytes \<Rightarrow> u32" where
  "ref_crc32c bs = NOT (crc32c_loop (NOT 0) bs)"

definition ref_to_bytes_le :: "uuid \<Rightarrow> bytes" where
  "ref_to_bytes_le u = (let n = unat u in
     le_bytes 4 (n div 2 ^ 96) @ le_bytes 2 (n div 2 ^ 80) @ le_bytes 2 (n div 2 ^ 64)
       @ rev (le_bytes 8 n))"

definition ref_from_bytes_le :: "bytes \<Rightarrow> uuid" where
  "ref_from_bytes_le bs = word_of_nat
     (le_val (bslice bs 0 4) * 2 ^ 96 + le_val (bslice bs 4 6) * 2 ^ 80
       + le_val (bslice bs 6 8) * 2 ^ 64 + le_val (rev (bslice bs 8 16)))"

text \<open>The hyphenated form: 32 lower-case hexadecimal digits in groups of 8, 4, 4, 4 and 12.\<close>

definition hex_char :: "nat \<Rightarrow> nat" where
  "hex_char d = (if d < 10 then 48 + d else 87 + d)"

definition hex_digit :: "nat \<Rightarrow> nat" where
  "hex_digit c = (if c < 87 then c - 48 else c - 87)"

definition ref_uuid_to_string :: "uuid \<Rightarrow> rstring" where
  "ref_uuid_to_string u = (let ds = map hex_char (digits 16 32 (unat u)) in
     take 8 ds @ 45 # take 4 (drop 8 ds) @ 45 # take 4 (drop 12 ds) @ 45 # take 4 (drop 16 ds)
       @ 45 # drop 20 ds)"

definition ref_uuid_parse_str :: "rstring \<Rightarrow> uuid option" where
  "ref_uuid_parse_str s = (let ds = filter (\<lambda>c. c \<noteq> 45) s in
     if length ds = 32 \<and> list_all (\<lambda>c. 48 \<le> c \<and> c < 58 \<or> 97 \<le> c \<and> c < 103) ds
     then Some (word_of_nat (digits_val 16 (map hex_digit ds))) else None)"

definition ref_externs :: externs where
  "ref_externs = \<lparr>crc32c = ref_crc32c, uuid_from_bytes_le = ref_from_bytes_le,
     uuid_to_bytes_le = ref_to_bytes_le, uuid_parse_str = ref_uuid_parse_str,
     uuid_to_string = ref_uuid_to_string\<rparr>"

lemma hex_char_props:
  assumes "d < 16"
  shows "hex_digit (hex_char d) = d" and "hex_char d \<noteq> 45" and "hex_char d < 103"
    and "48 \<le> hex_char d \<and> hex_char d < 58 \<or> 97 \<le> hex_char d \<and> hex_char d < 103"
  using assms by (auto simp: hex_char_def hex_digit_def)

lemma split_groups:
  "(ds :: 'a list) = take 8 ds @ take 4 (drop 8 ds) @ take 4 (drop 12 ds) @ take 4 (drop 16 ds) @ drop 20 ds"
  using append_take_drop_id [of 8 ds] append_take_drop_id [of 4 "drop 8 ds"]
    append_take_drop_id [of 4 "drop 12 ds"] append_take_drop_id [of 4 "drop 16 ds"]
  by simp

lemma filter_hyphens:
  assumes "\<And>c. c \<in> set ds \<Longrightarrow> c \<noteq> 45"
  shows "filter (\<lambda>c. c \<noteq> (45 :: nat)) (take 8 ds @ 45 # take 4 (drop 8 ds) @ 45 # take 4 (drop 12 ds)
    @ 45 # take 4 (drop 16 ds) @ 45 # drop 20 ds) = ds"
proof -
  have "filter (\<lambda>c. c \<noteq> 45) (take i (drop j ds)) = take i (drop j ds)" for i j
    using assms by (intro filter_True) (blast dest: in_set_takeD in_set_dropD)
  moreover have "filter (\<lambda>c. c \<noteq> 45) (drop j ds) = drop j ds" for j
    using assms by (intro filter_True) (blast dest: in_set_dropD)
  moreover have "filter (\<lambda>c. c \<noteq> 45) (take i ds) = take i ds" for i
    using assms by (intro filter_True) (blast dest: in_set_takeD)
  ultimately show ?thesis
    by (simp only: filter_append filter.simps) (simp flip: split_groups)
qed

lemma ref_uuid_text_laws: "uuid_text_laws ref_externs"
proof -
  have dig: "d < 16" if "d \<in> set (digits 16 32 n)" for d n
    using digits_bound [OF _ that] by simp
  have filt: "filter (\<lambda>c. c \<noteq> 45) (ref_uuid_to_string u) = map hex_char (digits 16 32 (unat u))" for u
    unfolding ref_uuid_to_string_def Let_def
    by (rule filter_hyphens) (use dig hex_char_props(2) in auto)
  have "uuid_parse_str ref_externs (uuid_to_string ref_externs u) = Some u" for u
  proof -
    let ?ds = "digits 16 32 (unat u)"
    have "map hex_digit (map hex_char ?ds) = ?ds"
      using dig hex_char_props(1) by (simp add: map_idI)
    moreover have "list_all (\<lambda>c. 48 \<le> c \<and> c < 58 \<or> 97 \<le> c \<and> c < 103) (map hex_char ?ds)"
      using dig hex_char_props(4) by (auto simp: list_all_iff)
    moreover have "unat u mod 16 ^ 32 = unat u"
      using unsigned_less [of u, where ?'a = nat] by simp
    ultimately show ?thesis
      by (simp add: ref_externs_def ref_uuid_parse_str_def Let_def filt digits_val_digits
          del: map_map power_numeral)
  qed
  moreover have "length (uuid_to_string ref_externs u) = 36" for u
    by (simp add: ref_externs_def ref_uuid_to_string_def Let_def)
  moreover have "c < 103" if "c \<in> set (uuid_to_string ref_externs u)" for c u
  proof (cases "c = 45")
    case False
    with that have "c \<in> set (filter (\<lambda>c. c \<noteq> 45) (ref_uuid_to_string u))"
      by (simp add: ref_externs_def)
    then show ?thesis unfolding filt using dig hex_char_props(3) by auto
  qed simp
  ultimately show ?thesis by (fastforce simp: uuid_text_laws_def)
qed

lemma mixed_radix:
  "(n div (a * b * c)) mod d * (a * b * c) + (n div (a * b)) mod c * (a * b)
     + (n div a) mod b * a + n mod a = n mod (a * b * c * (d :: nat))"
  by (simp only: mod_mult2_eq [of n "a * b * c" d] mod_mult2_eq [of n "a * b" c]
      mod_mult2_eq [of n a b]) (simp only: mult.commute add.assoc)

lemma ref_uuid_laws: "uuid_laws ref_externs"
proof -
  have "uuid_from_bytes_le ref_externs (uuid_to_bytes_le ref_externs u) = u" for u
  proof -
    have powers: "2 ^ 64 * 256 ^ 2 = (2 :: nat) ^ 80" "2 ^ 80 * 256 ^ 2 = (2 :: nat) ^ 96"
      "256 ^ 8 = (2 :: nat) ^ 64" "2 ^ 96 * 256 ^ 4 = (2 :: nat) ^ 128"
      by simp_all
    have "unat u mod 2 ^ 128 = unat u"
      using unsigned_less [of u, where ?'a = nat] by simp
    then have "word_of_nat ((unat u div 2 ^ 96) mod 256 ^ 4 * 2 ^ 96
        + (unat u div 2 ^ 80) mod 256 ^ 2 * 2 ^ 80
        + (unat u div 2 ^ 64) mod 256 ^ 2 * 2 ^ 64 + unat u mod 256 ^ 8) = u"
      using mixed_radix [of "unat u" "256 ^ 8" "256 ^ 2" "256 ^ 2" "256 ^ 4"]
      by (simp only: powers of_nat_unat ucast_id)
    moreover have "bslice (ref_to_bytes_le u) 0 4 = le_bytes 4 (unat u div 2 ^ 96)"
      "bslice (ref_to_bytes_le u) 4 6 = le_bytes 2 (unat u div 2 ^ 80)"
      "bslice (ref_to_bytes_le u) 6 8 = le_bytes 2 (unat u div 2 ^ 64)"
      "rev (bslice (ref_to_bytes_le u) 8 16) = le_bytes 8 (unat u)"
      by (simp_all only: ref_to_bytes_le_def Let_def bslice_def)
         (simp_all add: take_append drop_append del: power_numeral)
    ultimately show ?thesis
      by (simp only: ref_externs_def externs.simps ref_from_bytes_le_def le_val_le_bytes)
  qed
  moreover have "length (uuid_to_bytes_le ref_externs u) = 16" for u
    by (simp add: ref_externs_def ref_to_bytes_le_def Let_def)
  ultimately show ?thesis by (simp add: uuid_laws_def)
qed

text \<open>A CRC-32C test vector, and the one of \<open>guid.rs\<close>.\<close>

lemma crc32c_bits_numeral: "crc32c_bits (numeral k) c = crc32c_bits (pred_numeral k)
    (if bit c 0 then drop_bit 1 c XOR 0x82F63B78 else drop_bit 1 c)"
  by (simp only: numeral_eq_Suc [of k] crc32c_bits.simps)

lemma ref_crc32c_known_vector: "ref_crc32c (ascii ''1'') = 0x90F599E3"
  by (simp add: ref_crc32c_def ascii_def crc32c_bits_numeral)

lemma ref_guid_known_layout:
  "write_guid ref_externs 0x00112233445566778899AABBCCDDEEFF =
    [0x33, 0x22, 0x11, 0x00, 0x55, 0x44, 0x77, 0x66, 0x88, 0x99, 0xAA, 0xBB, 0xCC, 0xDD, 0xEE, 0xFF]"
  by (simp add: write_guid_def ref_externs_def ref_to_bytes_le_def Let_def le_bytes_numeral)

end
