(* ===== verification/Vhdx_IO.thy ===== *)
theory Vhdx_IO
  imports Vhdx_Format
begin

text \<open>
  \<open>io_util.rs\<close>: positional I/O on a file.  A file is its length and its bytes, with a
  bound \<open>f_max\<close> on the size the operating system lets it grow to, so that a write can
  fail as \<open>write_all\<close> and \<open>set_len\<close> do on a full volume.  Offsets are u64; a seek
  to 2^63 or beyond is an error, as the signed file offset of the system calls makes
  it.  The handle's cursor is not part of the state: every access of the code seeks
  first.

  The locale \<open>byte_store\<close> is the interface the components use a file by; it is
  interpreted on \<open>read_exact_at\<close> and \<open>write_all_at\<close>.
\<close>

section \<open>Files\<close>

record dfile =
  f_data :: "nat \<Rightarrow> u8"
  f_len :: nat
  f_max :: nat

text \<open>The longest file the model lets a handle address: seeks are below 2^63.\<close>

definition seek :: "u64 \<Rightarrow> nat res" where
  "seek off = (if unat off < 2 ^ 63 then Inr (unat off) else Inl (Io InvalidSeek))"

definition file_bytes :: "dfile \<Rightarrow> nat \<Rightarrow> nat \<Rightarrow> bytes" where
  "file_bytes f off n = map (f_data f) [off..<off + n]"

definition read_exact_at :: "dfile \<Rightarrow> u64 \<Rightarrow> nat \<Rightarrow> bytes res" where
  "read_exact_at f off n = bindR (seek off) (\<lambda>o'.
     if n = 0 \<or> o' + n \<le> f_len f then Inr (file_bytes f o' n) else Inl (Io UnexpectedEof))"

definition fbyte :: "dfile \<Rightarrow> nat \<Rightarrow> u8" where
  "fbyte f i = (if i < f_len f then f_data f i else 0)"

definition patch :: "dfile \<Rightarrow> nat \<Rightarrow> bytes \<Rightarrow> dfile" where
  "patch f off buf = f\<lparr>
     f_data := (\<lambda>i. if off \<le> i \<and> i < off + length buf then buf ! (i - off)
                    else if i < f_len f then f_data f i else 0),
     f_len := max (f_len f) (if buf = [] then 0 else off + length buf)\<rparr>"

definition write_all_at :: "dfile \<Rightarrow> u64 \<Rightarrow> bytes \<Rightarrow> dfile res" where
  "write_all_at f off buf = bindR (seek off) (\<lambda>o'.
     if buf = [] \<or> o' + length buf \<le> max (f_len f) (f_max f) then Inr (patch f o' buf)
     else Inl (Io NoSpace))"

text \<open>
  \<open>read_at\<close> fills as much of a zeroed buffer of \<open>n\<close> bytes as the file has; the code's
  only caller ignores the count, so the result is the buffer.
\<close>

definition read_at :: "dfile \<Rightarrow> u64 \<Rightarrow> nat \<Rightarrow> bytes res" where
  "read_at f off n = bindR (seek off) (\<lambda>o'.
     let total = min n (f_len f - o')
     in Inr (file_bytes f o' total @ replicate (n - total) 0))"

definition set_len :: "dfile \<Rightarrow> u64 \<Rightarrow> dfile res" where
  "set_len f n = bindR (seek n) (\<lambda>n'.
     if n' \<le> max (f_len f) (f_max f)
     then Inr (f\<lparr>f_data := (\<lambda>i. if i < min n' (f_len f) then f_data f i else 0), f_len := n'\<rparr>)
     else Inl (Io NoSpace))"

section \<open>Helpers\<close>

definition align_up :: "u64 \<Rightarrow> u64 \<Rightarrow> u64" where
  "align_up n align = (let r = n mod align in if r = 0 then n else n + (align - r))"

definition is_all_zero :: "bytes \<Rightarrow> bool" where
  "is_all_zero buf = list_all (\<lambda>b. b = 0) buf"

text \<open>\<open>zero_range\<close>: the loop over chunks of 64 KiB.\<close>

function zero_range_loop :: "dfile \<Rightarrow> u64 \<Rightarrow> nat \<Rightarrow> dfile res" where
  "zero_range_loop f cursor remaining =
    (if remaining = 0 then Inr f
     else let n = min remaining 65536 in
       bindR (write_all_at f cursor (replicate n 0)) (\<lambda>f'.
         zero_range_loop f' (cursor + word_of_nat n) (remaining - n)))"
  by pat_completeness auto
termination
  by (relation "measure (\<lambda>(f, cursor, remaining). remaining)") auto

declare zero_range_loop.simps [simp del]

lemma zero_range_loop_0 [simp]: "zero_range_loop f cursor 0 = Inr f"
  by (simp add: zero_range_loop.simps)

definition zero_range :: "dfile \<Rightarrow> u64 \<Rightarrow> u64 \<Rightarrow> dfile res" where
  "zero_range f off len = zero_range_loop f off (unat len)"

section \<open>The file as a byte store\<close>

lemma length_file_bytes [simp]: "length (file_bytes f off n) = n"
  by (simp add: file_bytes_def)

lemma file_bytes_0 [simp]: "file_bytes f off 0 = []"
  by (simp add: file_bytes_def)

lemma nth_file_bytes: "i < n \<Longrightarrow> file_bytes f off n ! i = f_data f (off + i)"
  by (simp add: file_bytes_def)

lemma file_bytes_eqI:
  "(\<And>i. off \<le> i \<Longrightarrow> i < off + n \<Longrightarrow> f_data f i = f_data g i) \<Longrightarrow>
    file_bytes f off n = file_bytes g off n"
  by (simp add: file_bytes_def)

lemma file_bytes_slice:
  "bslice (file_bytes f off n) lo (lo + k) = file_bytes f (off + lo) (min k (n - lo))"
  by (rule nth_equalityI) (auto simp: bslice_def nth_file_bytes add.assoc)

lemma seek_ok [res_simps]: "seek off = Inr o' \<longleftrightarrow> unat off < 2 ^ 63 \<and> o' = unat off"
  by (auto simp: seek_def)

lemma f_len_patch [simp]:
  "f_len (patch f off buf) = max (f_len f) (if buf = [] then 0 else off + length buf)"
  by (simp add: patch_def)

lemma f_max_patch [simp]: "f_max (patch f off buf) = f_max f"
  by (simp add: patch_def)

lemma f_data_patch:
  "f_data (patch f off buf) i =
    (if off \<le> i \<and> i < off + length buf then buf ! (i - off)
     else if i < f_len f then f_data f i else 0)"
  by (simp add: patch_def)

lemma file_bytes_patch_same:
  "n = length buf \<Longrightarrow> file_bytes (patch f off buf) off n = buf"
  by (rule nth_equalityI) (auto simp: nth_file_bytes f_data_patch)

lemma file_bytes_patch_other:
  assumes "off + length buf \<le> o2 \<or> o2 + n \<le> off" and "o2 + n \<le> f_len f"
  shows "file_bytes (patch f off buf) o2 n = file_bytes f o2 n"
  using assms by (intro file_bytes_eqI) (auto simp: f_data_patch)

lemma read_exact_at_ok [res_simps]:
  "read_exact_at f off n = Inr bs \<longleftrightarrow>
     unat off < 2 ^ 63 \<and> (n = 0 \<or> unat off + n \<le> f_len f) \<and> bs = file_bytes f (unat off) n"
  by (auto simp: read_exact_at_def res_simps)

lemma read_at_length: "read_at f off n = Inr bs \<Longrightarrow> length bs = n"
  by (auto simp: read_at_def res_simps Let_def)

lemma write_all_at_ok [res_simps]:
  "write_all_at f off buf = Inr f' \<longleftrightarrow>
     unat off < 2 ^ 63 \<and> (buf = [] \<or> unat off + length buf \<le> max (f_len f) (f_max f)) \<and>
     f' = patch f (unat off) buf"
  by (auto simp: write_all_at_def res_simps)

text \<open>
  What a client may rely on: a successful write is read back, leaves every disjoint
  range of the old file as it was, and never shortens the file.
\<close>

locale byte_store =
  fixes rd :: "'f \<Rightarrow> u64 \<Rightarrow> nat \<Rightarrow> bytes res"
    and wr :: "'f \<Rightarrow> u64 \<Rightarrow> bytes \<Rightarrow> 'f res"
  assumes rd_length: "rd f off n = Inr bs \<Longrightarrow> length bs = n"
    and rd_wr_same: "wr f off buf = Inr f' \<Longrightarrow> rd f' off (length buf) = Inr buf"
    and rd_wr_other: "wr f off buf = Inr f' \<Longrightarrow> rd f o2 n = Inr bs \<Longrightarrow>
      unat off + length buf \<le> unat o2 \<or> unat o2 + n \<le> unat off \<Longrightarrow> rd f' o2 n = Inr bs"
begin

lemma rd_two_writes:
  assumes "wr f o1 b1 = Inr f1" and "wr f1 o2 b2 = Inr f2"
    and "unat o2 + length b2 \<le> unat o1 \<or> unat o1 + length b1 \<le> unat o2"
  shows "rd f2 o1 (length b1) = Inr b1 \<and> rd f2 o2 (length b2) = Inr b2"
  using rd_wr_same [OF assms(1)] rd_wr_same [OF assms(2)] rd_wr_other [OF assms(2)] assms(3)
  by blast

end

interpretation file_store: byte_store read_exact_at write_all_at
proof unfold_locales
  fix f f' :: dfile and off o2 :: u64 and n :: nat and buf bs :: bytes
  show "length bs = n" if "read_exact_at f off n = Inr bs"
    using that by (simp add: res_simps)
  show "read_exact_at f' off (length buf) = Inr buf" if "write_all_at f off buf = Inr f'"
    using that by (auto simp: res_simps file_bytes_patch_same)
  show "read_exact_at f' o2 n = Inr bs"
    if "write_all_at f off buf = Inr f'" "read_exact_at f o2 n = Inr bs"
      "unat off + length buf \<le> unat o2 \<or> unat o2 + n \<le> unat off"
    using that file_bytes_patch_other [of "unat off" buf "unat o2" n f]
    by (cases "n = 0") (auto simp: res_simps file_bytes_def le_max_iff_disj)
qed

section \<open>Alignment and zeroed ranges\<close>

lemma patch_patch_adjacent:
  assumes "b1 \<noteq> []" and "b2 \<noteq> []"
  shows "patch (patch f off b1) (off + length b1) b2 = patch f off (b1 @ b2)"
proof -
  have "f_data (patch (patch f off b1) (off + length b1) b2) i = f_data (patch f off (b1 @ b2)) i" for i
    using assms by (auto simp: f_data_patch nth_append diff_diff_left)
  then show ?thesis
    using assms by (intro dfile.equality) (auto simp: fun_eq_iff)
qed

lemma zero_range_loop_eq:
  assumes "remaining \<noteq> 0" and "unat cursor + remaining < 2 ^ 63"
    and "unat cursor + remaining \<le> max (f_len f) (f_max f)"
  shows "zero_range_loop f cursor remaining = Inr (patch f (unat cursor) (replicate remaining 0))"
  using assms
proof (induction f cursor remaining rule: zero_range_loop.induct)
  case (1 f cursor remaining)
  define n where "n = min remaining 65536"
  have n: "n \<noteq> 0" "n \<le> remaining" using "1.prems" by (simp_all add: n_def)
  let ?f = "patch f (unat cursor) (replicate n 0)"
  have wr: "write_all_at f cursor (replicate n 0) = Inr ?f"
    using "1.prems" n by (auto simp: res_simps)
  have cur: "unat (cursor + word_of_nat n) = unat cursor + n"
    using "1.prems" n by (simp add: unat_add_u64 unat_of_nat_u64)
  show ?case
  proof (cases "n = remaining")
    case True
    with n wr show ?thesis
      by (simp add: zero_range_loop.simps [of f] Let_def n_def [symmetric])
  next
    case False
    then have "zero_range_loop ?f (cursor + word_of_nat n) (remaining - n) =
        Inr (patch ?f (unat (cursor + word_of_nat n)) (replicate (remaining - n) 0))"
      using "1.prems" n wr cur by (intro "1.IH") (auto simp: n_def [symmetric])
    moreover have "patch ?f (unat cursor + n) (replicate (remaining - n) 0) =
        patch f (unat cursor) (replicate remaining 0)"
      using patch_patch_adjacent [of "replicate n 0" "replicate (remaining - n) 0" f "unat cursor"] n False
      by (simp flip: replicate_add)
    ultimately show ?thesis
      using n wr cur by (simp add: zero_range_loop.simps [of f] Let_def n_def [symmetric])
  qed
qed

text \<open>
  Zero_range: zeroing a range in chunks of 64 KiB, as the loop of \<open>zero_range\<close> does,
  has exactly the effect of one write of that many zeros, and succeeds whenever the
  range lies within the addressable part of the file and the space the volume has.
\<close>

lemma zero_range_is_one_write:
  assumes "unat len \<noteq> 0" and "unat off + unat len < 2 ^ 63"
    and "unat off + unat len \<le> max (f_len f) (f_max f)"
  shows "zero_range f off len = write_all_at f off (replicate (unat len) 0) \<and>
    (\<exists>f'. zero_range f off len = Inr f' \<and>
      file_bytes f' (unat off) (unat len) = replicate (unat len) 0)"
proof -
  have "zero_range f off len = Inr (patch f (unat off) (replicate (unat len) 0))"
    using assms by (simp add: zero_range_def zero_range_loop_eq)
  moreover have "write_all_at f off (replicate (unat len) 0) =
      Inr (patch f (unat off) (replicate (unat len) 0))"
    using assms by (simp add: res_simps)
  ultimately show ?thesis
    by (simp add: file_bytes_patch_same)
qed

theorem zero_range_is_one_write_witness:
  "\<exists>f'. zero_range \<lparr>f_data = (\<lambda>_. 7), f_len = 200000, f_max = 200000\<rparr> 4096 131072 = Inr f' \<and>
    file_bytes f' 4096 131072 = replicate 131072 0"
  using conjunct2 [OF zero_range_is_one_write
      [of 131072 4096 "\<lparr>f_data = (\<lambda>_. 7), f_len = 200000, f_max = 200000\<rparr>"]]
  by simp

end
