(* ===== verification/Vhdx_Header.thy ===== *)
theory Vhdx_Header
  imports Vhdx_IO
begin

text \<open>
  \<open>header.rs\<close>: the file type identifier and the two copies of the header.  A header is
  parsed from and encoded into a 64 KiB slot whose first 4 KiB carry a checksum; the
  copy with the larger sequence number is active, and \<open>HeaderPair_write_new\<close> overwrites
  the other one.
\<close>

section \<open>The file type identifier\<close>

definition verify_file_type :: "dfile \<Rightarrow> unit res" where
  "verify_file_type f = bindR (read_exact_at f FILE_TYPE_IDENTIFIER_OFFSET 8) (\<lambda>sig.
     if sig \<noteq> FILE_TYPE_SIGNATURE then Inl (BadSignature sig) else Inr ())"

section \<open>Headers\<close>

record header =
  signature_ok :: bool
  checksum_ok :: bool
  checksum :: u32
  sequence_number :: u64
  file_write_guid :: uuid
  data_write_guid :: uuid
  log_guid :: uuid
  log_version :: u16
  version :: u16
  log_length :: u32
  log_offset :: u64

definition blank_header :: header where
  "blank_header = \<lparr>signature_ok = False, checksum_ok = False, checksum = 0, sequence_number = 0,
     file_write_guid = nil_uuid, data_write_guid = nil_uuid, log_guid = nil_uuid,
     log_version = 0, version = 0, log_length = 0, log_offset = 0\<rparr>"

definition Header_parse :: "externs \<Rightarrow> bytes \<Rightarrow> header" where
  "Header_parse E buf =
    (if length buf < HEADER_FIXED_SIZE then blank_header
     else if bslice buf 0 4 \<noteq> HEADER_SIGNATURE then blank_header
     else
       let h = \<lparr>signature_ok = True, checksum_ok = False,
         checksum = read_u32 (bslice buf 4 8),
         sequence_number = read_u64 (bslice buf 8 16),
         file_write_guid = read_guid_at E buf 16,
         data_write_guid = read_guid_at E buf 32,
         log_guid = read_guid_at E buf 48,
         log_version = read_u16 (bslice buf 64 66),
         version = read_u16 (bslice buf 66 68),
         log_length = read_u32 (bslice buf 68 72),
         log_offset = read_u64 (bslice buf 72 80)\<rparr>;
       calc = crc32c_with_zeroed_field E (bslice buf 0 HEADER_FIXED_SIZE) 4
       in h\<lparr>checksum_ok := (calc = checksum h)\<rparr>)"

definition is_valid :: "header \<Rightarrow> bool" where
  "is_valid h \<longleftrightarrow> signature_ok h \<and> checksum_ok h \<and> version h = 1 \<and> log_version h = 0"

text \<open>The header body before its checksum is stored, in the order the code writes it.\<close>

definition Header_body :: "externs \<Rightarrow> header \<Rightarrow> bytes" where
  "Header_body E h =
    (let buf = replicate (unat HEADER_SIZE) 0;
         buf = bput 0 HEADER_SIGNATURE buf;
         buf = bput 8 (write_u64 (sequence_number h)) buf;
         buf = write_guid_at E 16 (file_write_guid h) buf;
         buf = write_guid_at E 32 (data_write_guid h) buf;
         buf = write_guid_at E 48 (log_guid h) buf;
         buf = bput 64 (write_u16 (log_version h)) buf;
         buf = bput 66 (write_u16 (version h)) buf;
         buf = bput 68 (write_u32 (log_length h)) buf
     in bput 72 (write_u64 (log_offset h)) buf)"

definition Header_encode :: "externs \<Rightarrow> header \<Rightarrow> bytes" where
  "Header_encode E h =
    (let buf = Header_body E h;
         cs = crc32c E (bslice buf 0 HEADER_FIXED_SIZE)
     in bput 4 (write_u32 cs) buf)"

text \<open>What a reader of the encoded slot gets: the header, with its flags and checksum set.\<close>

definition stamped :: "externs \<Rightarrow> header \<Rightarrow> header" where
  "stamped E h = h\<lparr>signature_ok := True, checksum_ok := True,
     checksum := crc32c E (bslice (Header_body E h) 0 HEADER_FIXED_SIZE)\<rparr>"

lemma unat_HEADER_SIZE [simp]: "unat HEADER_SIZE = 65536"
  by (simp add: offset_defs)

lemma length_Header_body [simp]: "uuid_laws E \<Longrightarrow> length (Header_body E h) = 65536"
  by (simp add: Header_body_def Let_def write_guid_at_def write_guid_simps buf_simps)

lemma length_Header_encode [simp]: "uuid_laws E \<Longrightarrow> length (Header_encode E h) = 65536"
  by (simp add: Header_encode_def Let_def buf_simps)

lemma Header_body_slices:
  assumes "uuid_laws E"
  shows "bslice (Header_body E h) 0 4 = HEADER_SIGNATURE"
    and "bslice (Header_body E h) 4 8 = replicate 4 0"
    and "bslice (Header_body E h) 8 16 = write_u64 (sequence_number h)"
    and "bslice (Header_body E h) 16 32 = write_guid E (file_write_guid h)"
    and "bslice (Header_body E h) 32 48 = write_guid E (data_write_guid h)"
    and "bslice (Header_body E h) 48 64 = write_guid E (log_guid h)"
    and "bslice (Header_body E h) 64 66 = write_u16 (log_version h)"
    and "bslice (Header_body E h) 66 68 = write_u16 (version h)"
    and "bslice (Header_body E h) 68 72 = write_u32 (log_length h)"
    and "bslice (Header_body E h) 72 80 = write_u64 (log_offset h)"
  using assms
  by (simp_all add: Header_body_def Let_def write_guid_at_def write_guid_simps buf_simps)

lemma header_roundtrip_parse:
  assumes "uuid_laws E"
  shows "Header_parse E (Header_encode E h) = stamped E h"
proof -
  let ?b = "Header_body E h" and ?s = "bslice (Header_body E h) 0 HEADER_FIXED_SIZE"
  let ?e = "Header_encode E h"
  have e: "?e = bput 4 (write_u32 (crc32c E ?s)) ?b"
    by (simp add: Header_encode_def Let_def)
  have len: "length ?s = 4096"
    using assms by (simp add: size_defs buf_simps)
  have "bslice ?s 4 8 = replicate 4 0"
    using Header_body_slices(2) [OF assms, of h] by (simp add: bslice_def size_defs take_drop)
  then have "crc32c_with_zeroed_field E (bput 4 (write_u32 (crc32c E ?s)) ?s) 4 = crc32c E ?s"
    using len by (simp add: buf_simps crc32c_zeroed_zero)
  moreover have "bslice ?e 0 HEADER_FIXED_SIZE = bput 4 (write_u32 (crc32c E ?s)) ?s"
    using assms by (simp add: e bslice_def size_defs buf_simps)
  ultimately have "crc32c_with_zeroed_field E (bslice ?e 0 HEADER_FIXED_SIZE) 4 = crc32c E ?s"
    by simp
  moreover have "bslice ?e 4 8 = write_u32 (crc32c E ?s)"
    using assms by (simp add: e buf_simps)
  moreover have "bslice ?e lo hi = bslice ?b lo hi" if "hi \<le> 4 \<or> 8 \<le> lo" for lo hi
    using assms that by (auto simp: e buf_simps)
  ultimately show ?thesis
    using assms Header_body_slices [OF assms, of h]
    by (simp add: Header_parse_def Let_def read_guid_at_def stamped_def write_guid_simps size_defs)
qed

text \<open>
  Header round trip: parsing an encoded header gives back every field, with the
  signature and the checksum found correct.
\<close>

lemma header_roundtrip:
  assumes "uuid_laws E"
  shows "Header_parse E (Header_encode E h) = stamped E h"
  using assms by (rule header_roundtrip_parse)

section \<open>The pair of headers\<close>

record header_pair =
  headers :: "header \<times> header"
  raw :: "bytes \<times> bytes"
  active_index :: nat

definition HeaderPair_read :: "externs \<Rightarrow> dfile \<Rightarrow> header_pair res" where
  "HeaderPair_read E f =
    bindR (read_exact_at f (header_offset 0) (unat HEADER_SIZE)) (\<lambda>raw0.
    bindR (read_exact_at f (header_offset 1) (unat HEADER_SIZE)) (\<lambda>raw1.
      let h0 = Header_parse E raw0; h1 = Header_parse E raw1 in
      bindR (case (is_valid h0, is_valid h1) of
          (True, True) \<Rightarrow> Inr (if sequence_number h1 \<le> sequence_number h0 then 0 else 1)
        | (True, False) \<Rightarrow> Inr 0
        | (False, True) \<Rightarrow> Inr 1
        | (False, False) \<Rightarrow> Inl NoValidHeader) (\<lambda>pick.
      Inr \<lparr>headers = (h0, h1), raw = (raw0, raw1), active_index = pick\<rparr>)))"

definition HeaderPair_active :: "header_pair \<Rightarrow> header" where
  "HeaderPair_active p = (if active_index p = 0 then fst (headers p) else snd (headers p))"

definition target_slot :: "header_pair option \<Rightarrow> nat" where
  "target_slot pair = (case pair of
     Some p \<Rightarrow>
       (case (is_valid (fst (headers p)), is_valid (snd (headers p))) of
          (True, True) \<Rightarrow>
            if sequence_number (fst (headers p)) \<le> sequence_number (snd (headers p)) then 0 else 1
        | (True, False) \<Rightarrow> 1
        | (False, True) \<Rightarrow> 0
        | (False, False) \<Rightarrow> 0)
   | None \<Rightarrow> 0)"

definition HeaderPair_write_new ::
  "externs \<Rightarrow> dfile \<Rightarrow> header \<Rightarrow> (header \<Rightarrow> header) \<Rightarrow> (dfile \<times> u64) res" where
  "HeaderPair_write_new E f current mutate =
    (let new_h = (mutate current)\<lparr>sequence_number := sequence_number current + 1\<rparr>;
         raw = Header_encode E new_h;
         pair = (case HeaderPair_read E f of Inl e \<Rightarrow> None | Inr p \<Rightarrow> Some p);
         target_idx = target_slot pair
     in bindR (write_all_at f (header_offset target_idx) raw) (\<lambda>f'.
          Inr (f', sequence_number new_h)))"

text \<open>The header found in slot \<open>i\<close> of a file.\<close>

definition slot :: "externs \<Rightarrow> dfile \<Rightarrow> nat \<Rightarrow> header" where
  "slot E f i = Header_parse E (file_bytes f (unat (header_offset i)) 65536)"

definition has_slots :: "dfile \<Rightarrow> bool" where
  "has_slots f \<longleftrightarrow> 196608 \<le> f_len f"

lemma unat_header_offset [simp]:
  "unat (header_offset 0) = 65536" "unat (header_offset (Suc 0)) = 131072"
  by (simp_all add: offset_defs)

lemma HeaderPair_read_has_slots: "HeaderPair_read E f = Inr p \<Longrightarrow> has_slots f"
  by (auto simp: HeaderPair_read_def Let_def res_simps has_slots_def)

lemma HeaderPair_read_slots:
  assumes "has_slots f"
  shows "HeaderPair_read E f =
    (if is_valid (slot E f 0) \<or> is_valid (slot E f 1)
     then Inr \<lparr>headers = (slot E f 0, slot E f 1),
       raw = (file_bytes f 65536 65536, file_bytes f 131072 65536),
       active_index = (if is_valid (slot E f 0) \<and>
           (is_valid (slot E f 1) \<longrightarrow> sequence_number (slot E f 1) \<le> sequence_number (slot E f 0))
         then 0 else 1)\<rparr>
     else Inl NoValidHeader)"
proof -
  have r0: "read_exact_at f (header_offset 0) 65536 = Inr (file_bytes f 65536 65536)"
    and r1: "read_exact_at f (header_offset (Suc 0)) 65536 = Inr (file_bytes f 131072 65536)"
    using assms by (simp_all add: res_simps has_slots_def)
  show ?thesis
    by (simp add: HeaderPair_read_def r0 r1 slot_def Let_def split: bool.split)
qed

text \<open>
  One slot is rewritten at a time.  The other slot is read back as it was, whatever the
  bytes that went into the first one, which is what makes an update safe against a torn
  write.
\<close>

lemma slot_patch:
  assumes "has_slots f" and "t < 2" and "length junk \<le> 65536"
  shows "slot E (patch f (unat (header_offset t)) junk) (1 - t) = slot E f (1 - t)"
    and "length junk = 65536 \<Longrightarrow>
      slot E (patch f (unat (header_offset t)) junk) t = Header_parse E junk"
    and "has_slots (patch f (unat (header_offset t)) junk)"
proof -
  have t: "t = 0 \<or> t = 1" using assms(2) by auto
  show "slot E (patch f (unat (header_offset t)) junk) (1 - t) = slot E f (1 - t)"
    using t assms(1,3) by (auto simp: slot_def has_slots_def file_bytes_patch_other)
  show "slot E (patch f (unat (header_offset t)) junk) t = Header_parse E junk"
    if "length junk = 65536"
    using that by (simp add: slot_def file_bytes_patch_same)
  show "has_slots (patch f (unat (header_offset t)) junk)"
    using assms(1) by (simp add: has_slots_def le_max_iff_disj)
qed

lemma write_slot:
  assumes "has_slots f" and "t < 2" and "length buf = 65536"
  shows "write_all_at f (header_offset t) buf = Inr (patch f (unat (header_offset t)) buf)"
proof -
  have "t = 0 \<or> t = 1" using assms(2) by auto
  with assms(1,3) show ?thesis by (auto simp: res_simps has_slots_def)
qed

text \<open>
  The facts of a successful read that the updates rely on: the pair holds what the slots
  hold, and slot \<open>1 - target_slot\<close> survives an update, is valid, and carries the active
  sequence number.
\<close>

lemma target_slot_Some:
  "target_slot (Some p) =
    (if is_valid (fst (headers p)) \<and> (is_valid (snd (headers p)) \<longrightarrow>
         sequence_number (snd (headers p)) < sequence_number (fst (headers p)))
     then 1 else 0)"
  by (auto simp: target_slot_def split: bool.split)

lemma HeaderPair_readD:
  assumes "HeaderPair_read E f = Inr p"
  shows "has_slots f" and "headers p = (slot E f 0, slot E f 1)"
    and "is_valid (HeaderPair_active p)"
    and "is_valid (slot E f 0) \<Longrightarrow> sequence_number (slot E f 0) \<le> sequence_number (HeaderPair_active p)"
    and "is_valid (slot E f 1) \<Longrightarrow> sequence_number (slot E f 1) \<le> sequence_number (HeaderPair_active p)"
    and "target_slot (Some p) < 2"
    and "is_valid (slot E f (1 - target_slot (Some p)))"
    and "sequence_number (slot E f (1 - target_slot (Some p))) = sequence_number (HeaderPair_active p)"
proof -
  show s: "has_slots f" using assms by (rule HeaderPair_read_has_slots)
  note r = assms [unfolded HeaderPair_read_slots [OF s]]
  show "headers p = (slot E f 0, slot E f 1)" "is_valid (HeaderPair_active p)"
    "is_valid (slot E f 0) \<Longrightarrow> sequence_number (slot E f 0) \<le> sequence_number (HeaderPair_active p)"
    "is_valid (slot E f 1) \<Longrightarrow> sequence_number (slot E f 1) \<le> sequence_number (HeaderPair_active p)"
    "target_slot (Some p) < 2"
    "is_valid (slot E f (1 - target_slot (Some p)))"
    "sequence_number (slot E f (1 - target_slot (Some p))) = sequence_number (HeaderPair_active p)"
    using r by (auto simp: HeaderPair_active_def target_slot_Some split: if_splits)
qed

text \<open>
  C13 (header arbitration): a successful read makes active a valid header of one of the two
  slots whose sequence number no valid slot exceeds; with both slots inside the file the
  read fails exactly when neither copy is valid, and the error is NoValidHeader.
\<close>

theorem header_arbitration:
  assumes "has_slots f"
  shows "(HeaderPair_read E f = Inl NoValidHeader \<longleftrightarrow> \<not> is_valid (slot E f 0) \<and> \<not> is_valid (slot E f 1)) \<and>
    (\<forall>p. HeaderPair_read E f = Inr p \<longrightarrow>
       HeaderPair_active p \<in> {slot E f 0, slot E f 1} \<and> is_valid (HeaderPair_active p) \<and>
       (\<forall>i \<in> {0, 1}. is_valid (slot E f i) \<longrightarrow>
          sequence_number (slot E f i) \<le> sequence_number (HeaderPair_active p)))"
proof -
  have "HeaderPair_read E f = Inl NoValidHeader \<longleftrightarrow> \<not> is_valid (slot E f 0) \<and> \<not> is_valid (slot E f 1)"
    by (simp add: HeaderPair_read_slots [OF assms])
  moreover have "HeaderPair_active p \<in> {slot E f 0, slot E f 1}" if "HeaderPair_read E f = Inr p" for p
    using HeaderPair_readD(2) [OF that] by (simp add: HeaderPair_active_def)
  ultimately show ?thesis
    using HeaderPair_readD(3,4,5) by fastforce
qed

section \<open>Updating the headers\<close>

lemma seq_less_Suc: "s + 1 \<noteq> 0 \<Longrightarrow> x \<le> s \<Longrightarrow> x < s + 1" for s :: u64
  using unatSuc [of s] by (simp add: word_less_nat_alt word_le_nat_alt add.commute)

definition successor :: "externs \<Rightarrow> header \<Rightarrow> (header \<Rightarrow> header) \<Rightarrow> header" where
  "successor E h mutate = stamped E ((mutate h)\<lparr>sequence_number := sequence_number h + 1\<rparr>)"

lemma successor_valid:
  assumes "version (mutate h) = 1" and "log_version (mutate h) = 0"
  shows "is_valid (successor E h mutate)"
    and "sequence_number (successor E h mutate) = sequence_number h + 1"
  using assms by (simp_all add: successor_def stamped_def is_valid_def)

lemma write_new_effect:
  assumes E: "uuid_laws E" and r: "HeaderPair_read E f = Inr p"
  defines "t \<equiv> target_slot (Some p)"
  obtains f' where "HeaderPair_write_new E f h mutate = Inr (f', sequence_number h + 1)"
    and "slot E f' t = successor E h mutate" and "slot E f' (1 - t) = slot E f (1 - t)"
    and "has_slots f'"
proof -
  let ?new = "(mutate h)\<lparr>sequence_number := sequence_number h + 1\<rparr>"
  let ?f = "patch f (unat (header_offset t)) (Header_encode E ?new)"
  note s = HeaderPair_readD(1) [OF r] and t = HeaderPair_readD(6) [OF r, folded t_def]
  have "HeaderPair_write_new E f h mutate = Inr (?f, sequence_number h + 1)"
    using E by (simp add: HeaderPair_write_new_def Let_def r write_slot [OF s t] flip: t_def)
  moreover have "slot E ?f t = successor E h mutate"
    using slot_patch(2) [OF s t] E by (simp add: header_roundtrip_parse successor_def)
  ultimately show ?thesis
    using slot_patch(1,3) [OF s t] E that by simp
qed

lemma write_new_active:
  assumes "uuid_laws E" and "HeaderPair_read E f = Inr p"
    and "version (mutate (HeaderPair_active p)) = 1" and "log_version (mutate (HeaderPair_active p)) = 0"
    and "sequence_number (HeaderPair_active p) + 1 \<noteq> 0"
  shows "\<exists>f' p'. HeaderPair_write_new E f (HeaderPair_active p) mutate =
      Inr (f', sequence_number (HeaderPair_active p) + 1) \<and>
    HeaderPair_read E f' = Inr p' \<and>
    HeaderPair_active p' = successor E (HeaderPair_active p) mutate \<and>
    slot E f' (1 - target_slot (Some p)) = slot E f (1 - target_slot (Some p))"
proof -
  let ?h = "HeaderPair_active p" and ?t = "target_slot (Some p)"
  obtain f' where w: "HeaderPair_write_new E f ?h mutate = Inr (f', sequence_number ?h + 1)"
    and new: "slot E f' ?t = successor E ?h mutate"
    and old: "slot E f' (1 - ?t) = slot E f (1 - ?t)" and s: "has_slots f'"
    using write_new_effect [OF assms(1,2)] by metis
  note valid = successor_valid [of mutate ?h E, OF assms(3,4)]
  have newer: "sequence_number (slot E f' (1 - ?t)) < sequence_number (slot E f' ?t)"
    using old new valid(2) HeaderPair_readD(8) [OF assms(2)] seq_less_Suc [OF assms(5) order_refl] by simp
  have "?t = 0 \<or> ?t = 1" using HeaderPair_readD(6) [OF assms(2)] by auto
  then have "\<exists>p'. HeaderPair_read E f' = Inr p' \<and> HeaderPair_active p' = successor E ?h mutate"
    using newer new valid(1) by (auto simp: HeaderPair_read_slots [OF s] HeaderPair_active_def)
  with w old show ?thesis by blast
qed

text \<open>
  C14 (header update): as long as the sequence number does not wrap around, writing a new
  header succeeds, reading the file back makes exactly the written header active, with
  the sequence number one above the old one, and the copy in the other slot is untouched.
\<close>

theorem write_new_becomes_active:
  assumes "uuid_laws E" and "HeaderPair_read E f = Inr p"
    and "version (mutate (HeaderPair_active p)) = 1" and "log_version (mutate (HeaderPair_active p)) = 0"
    and "sequence_number (HeaderPair_active p) + 1 \<noteq> 0"
  shows "\<exists>f' p'. HeaderPair_write_new E f (HeaderPair_active p) mutate =
      Inr (f', sequence_number (HeaderPair_active p) + 1) \<and>
    HeaderPair_read E f' = Inr p' \<and>
    HeaderPair_active p' = successor E (HeaderPair_active p) mutate \<and>
    slot E f' (1 - target_slot (Some p)) = slot E f (1 - target_slot (Some p))"
  using assms by (rule write_new_active)

text \<open>
  A torn update: whatever bytes a crash leaves in the slot that an update targets, the headers
  can still be read, and the active header found then is a valid one that carries at least
  the sequence number that was active before.
\<close>

lemma torn_header_write_is_safe:
  assumes "HeaderPair_read E f = Inr p" and "length junk \<le> 65536"
  shows "\<exists>p'. HeaderPair_read E (patch f (unat (header_offset (target_slot (Some p)))) junk) = Inr p' \<and>
    is_valid (HeaderPair_active p') \<and>
    sequence_number (HeaderPair_active p) \<le> sequence_number (HeaderPair_active p')"
proof -
  let ?t = "target_slot (Some p)"
  let ?f = "patch f (unat (header_offset ?t)) junk"
  note D = HeaderPair_readD [OF assms(1)]
  note P = slot_patch(1) [OF D(1,6) assms(2), of E] slot_patch(3) [OF D(1,6) assms(2)]
  have "?t = 0 \<or> ?t = 1" using D(6) by auto
  then have "is_valid (slot E ?f 0) \<or> is_valid (slot E ?f 1)" using P(1) D(7) by fastforce
  then obtain p' where p': "HeaderPair_read E ?f = Inr p'"
    using HeaderPair_read_slots [OF P(2), of E] by auto
  note D' = HeaderPair_readD(3,4,5) [OF p']
  have "sequence_number (slot E ?f (1 - ?t)) \<le> sequence_number (HeaderPair_active p')"
    using \<open>?t = 0 \<or> ?t = 1\<close> P(1) D(7) D' by auto
  with p' D'(1) P(1) D(8) show ?thesis by auto
qed

lemma write_new_twice:
  assumes "uuid_laws E" and "HeaderPair_read E f = Inr p"
    and "version (mutate (HeaderPair_active p)) = 1" and "log_version (mutate (HeaderPair_active p)) = 0"
    and "sequence_number (HeaderPair_active p) + 1 \<noteq> 0"
  shows "\<exists>f1 f2 n. HeaderPair_write_new E f (HeaderPair_active p) mutate = Inr (f1, n) \<and>
    HeaderPair_write_new E f1 (HeaderPair_active p) mutate = Inr (f2, n) \<and>
    slot E f2 0 = successor E (HeaderPair_active p) mutate \<and>
    slot E f2 1 = successor E (HeaderPair_active p) mutate"
proof -
  let ?h = "HeaderPair_active p" and ?t = "target_slot (Some p)"
  obtain f1 where w1: "HeaderPair_write_new E f ?h mutate = Inr (f1, sequence_number ?h + 1)"
    and new: "slot E f1 ?t = successor E ?h mutate"
    and old: "slot E f1 (1 - ?t) = slot E f (1 - ?t)" and s: "has_slots f1"
    using write_new_effect [OF assms(1,2)] by metis
  note valid = successor_valid [of mutate ?h E, OF assms(3,4)]
  note D = HeaderPair_readD [OF assms(2)]
  have t: "?t = 0 \<or> ?t = 1" using D(6) by auto
  have newer: "sequence_number (slot E f1 (1 - ?t)) < sequence_number (slot E f1 ?t)"
    using old new valid(2) D(8) seq_less_Suc [OF assms(5) order_refl] by simp
  obtain p1 where r1: "HeaderPair_read E f1 = Inr p1"
    using t new valid(1) by (auto simp: HeaderPair_read_slots [OF s])
  then have "headers p1 = (slot E f1 0, slot E f1 1)" by (rule HeaderPair_readD)
  then have t1: "target_slot (Some p1) = 1 - ?t"
    using t newer new old valid(1) D(7) by (auto simp: target_slot_Some)
  have twice: "1 - (1 - ?t) = ?t" using t by auto
  obtain f2 where "HeaderPair_write_new E f1 ?h mutate = Inr (f2, sequence_number ?h + 1)"
    and "slot E f2 (1 - ?t) = successor E ?h mutate" and "slot E f2 ?t = slot E f1 ?t"
    using write_new_effect [OF assms(1) r1, of ?h mutate] unfolding t1 twice by blast
  with w1 new t show ?thesis by (elim disjE) auto
qed

section \<open>Histories of updates and crashes\<close>

text \<open>
  What happens to the headers of a file over its life: an update from the active header, the
  repetition of an update from the same header, which is how the callers bring the second
  copy up to date, an update that a crash tears, leaving any bytes in the slot it targets,
  and writes to the rest of the file.  The callers leave the versions of a header as they
  are; a sequence number does not wrap around.
\<close>

inductive header_step :: "externs \<Rightarrow> dfile \<Rightarrow> dfile \<Rightarrow> bool" for E where
  update: "header_step E f f'"
    if "HeaderPair_read E f = Inr p" and "h = HeaderPair_active p"
    and "version (mutate h) = 1" and "log_version (mutate h) = 0" and "sequence_number h + 1 \<noteq> 0"
    and "HeaderPair_write_new E f h mutate = Inr (f', n)"
| repeat: "header_step E f f'"
    if "HeaderPair_read E f = Inr p" and "HeaderPair_active p = successor E h mutate"
    and "HeaderPair_write_new E f h mutate = Inr (f', n)"
| torn: "header_step E f (patch f (unat (header_offset (target_slot (Some p)))) junk)"
    if "HeaderPair_read E f = Inr p" and "length junk \<le> 65536"
| elsewhere: "header_step E f f'"
    if "has_slots f'" and "\<And>i. i < 2 \<Longrightarrow> slot E f' i = slot E f i"

text \<open>What a file promises: its headers can be read, with at least the sequence number \<open>s\<close>.\<close>

definition at_least :: "externs \<Rightarrow> u64 \<Rightarrow> dfile \<Rightarrow> bool" where
  "at_least E s f \<longleftrightarrow> (\<exists>p. HeaderPair_read E f = Inr p \<and> s \<le> sequence_number (HeaderPair_active p))"

lemma at_least_slots:
  "at_least E s f \<longleftrightarrow> has_slots f \<and>
    (\<exists>i \<in> {0, 1}. is_valid (slot E f i) \<and> s \<le> sequence_number (slot E f i))"
proof (cases "has_slots f")
  case True
  then show ?thesis
    by (auto simp: at_least_def HeaderPair_read_slots HeaderPair_active_def)
next
  case False
  then show ?thesis using HeaderPair_read_has_slots by (auto simp: at_least_def)
qed

lemma at_least_other_slot:
  assumes "HeaderPair_read E f = Inr p" and "has_slots f'"
    and "slot E f' (1 - target_slot (Some p)) = slot E f (1 - target_slot (Some p))"
    and "s \<le> sequence_number (HeaderPair_active p)"
  shows "at_least E s f'"
proof -
  note D = HeaderPair_readD(7,8) [OF assms(1)]
  have "1 - target_slot (Some p) \<in> {0, 1}" by auto
  then show ?thesis using assms(2-4) D unfolding at_least_slots by metis
qed

lemma header_step_at_least:
  assumes "uuid_laws E" and "header_step E f f'" and "at_least E s f"
  shows "at_least E s f'"
proof -
  obtain p where p: "HeaderPair_read E f = Inr p" "s \<le> sequence_number (HeaderPair_active p)"
    using assms(3) by (auto simp: at_least_def)
  have written: "at_least E s f'" if "HeaderPair_write_new E f h mutate = Inr (f', n)" for h mutate n
    by (rule write_new_effect [OF assms(1) p(1), of h mutate])
      (use that in \<open>auto intro: at_least_other_slot [OF p(1) _ _ p(2)]\<close>)
  from assms(2) show ?thesis
  proof cases
    case (torn q junk)
    then show ?thesis
      using slot_patch(1,3) [OF HeaderPair_readD(1,6) [OF p(1)], where junk = junk] p(1)
      by (auto intro: at_least_other_slot [OF p(1) _ _ p(2)])
  next
    case elsewhere
    then show ?thesis using assms(3) by (auto simp: at_least_slots)
  qed (use written in blast)+
qed

text \<open>
  C15 (header history): after any history of updates, repeated updates, torn updates and other
  writes the headers can be read, the active one is valid, and its sequence number is at
  least the one at the beginning; and the next update, as long as its number does not wrap
  around, succeeds and becomes active.
\<close>

theorem headers_survive_history:
  assumes "uuid_laws E" and "(header_step E)\<^sup>*\<^sup>* f f'" and "HeaderPair_read E f = Inr p"
  shows "\<exists>p'. HeaderPair_read E f' = Inr p' \<and> is_valid (HeaderPair_active p') \<and>
    sequence_number (HeaderPair_active p) \<le> sequence_number (HeaderPair_active p') \<and>
    (sequence_number (HeaderPair_active p') + 1 \<noteq> 0 \<longrightarrow>
      (\<exists>f'' p''. HeaderPair_write_new E f' (HeaderPair_active p') id =
          Inr (f'', sequence_number (HeaderPair_active p') + 1) \<and>
        HeaderPair_read E f'' = Inr p'' \<and> HeaderPair_active p'' = successor E (HeaderPair_active p') id))"
proof -
  from assms(2) have "at_least E (sequence_number (HeaderPair_active p)) f'"
  proof induction
    case base
    then show ?case using assms(3) by (auto simp: at_least_def)
  qed (rule header_step_at_least [OF assms(1)])
  then obtain p' where p': "HeaderPair_read E f' = Inr p'"
      "sequence_number (HeaderPair_active p) \<le> sequence_number (HeaderPair_active p')"
    by (auto simp: at_least_def)
  note v = HeaderPair_readD(3) [OF p'(1)]
  then have "version (id (HeaderPair_active p')) = 1" "log_version (id (HeaderPair_active p')) = 0"
    by (simp_all add: is_valid_def)
  note upd = write_new_active [where mutate = id, OF assms(1) p'(1) this]
  show ?thesis using p' v upd by blast
qed

text \<open>
  Sequence wrap-around: at the largest sequence number the update stores 0, so the
  header just written is not the active one; the old header, which sits in the other
  slot, stays active.
\<close>

lemma write_new_wraps_to_stale_header:
  assumes "uuid_laws E" and "HeaderPair_read E f = Inr p"
    and "sequence_number (HeaderPair_active p) = 0xFFFFFFFFFFFFFFFF"
    and "slot E f (1 - target_slot (Some p)) = HeaderPair_active p"
  shows "\<exists>f' p'. HeaderPair_write_new E f (HeaderPair_active p) mutate = Inr (f', 0) \<and>
    HeaderPair_read E f' = Inr p' \<and> HeaderPair_active p' = HeaderPair_active p"
proof -
  define h where "h = HeaderPair_active p"
  define t where "t = target_slot (Some p)"
  have wrap: "sequence_number h + 1 = 0" using assms(3) by (simp add: h_def)
  obtain f' where w: "HeaderPair_write_new E f h mutate = Inr (f', sequence_number h + 1)"
    and new: "slot E f' t = successor E h mutate"
    and old: "slot E f' (1 - t) = slot E f (1 - t)" and s: "has_slots f'"
    using write_new_effect [OF assms(1,2), of h mutate] unfolding t_def by blast
  have "sequence_number (slot E f' t) = 0"
    using new wrap by (simp add: successor_def stamped_def)
  moreover have "slot E f' (1 - t) = h" "is_valid h"
    using old assms(4) HeaderPair_readD(3) [OF assms(2)] by (simp_all add: h_def t_def)
  moreover have "sequence_number h = 0xFFFFFFFFFFFFFFFF" using assms(3) by (simp add: h_def)
  moreover have "t = 0 \<or> t = 1" using HeaderPair_readD(6) [OF assms(2)] by (auto simp: t_def)
  ultimately have "\<exists>p'. HeaderPair_read E f' = Inr p' \<and> HeaderPair_active p' = h"
    by (auto simp: HeaderPair_read_slots [OF s] HeaderPair_active_def)
  with w wrap show ?thesis unfolding h_def by auto
qed

section \<open>Concrete instances\<close>

definition blank_file :: "nat \<Rightarrow> dfile" where
  "blank_file n = \<lparr>f_data = (\<lambda>_. 0), f_len = n, f_max = n\<rparr>"

definition sample_header :: "u64 \<Rightarrow> header" where
  "sample_header s = blank_header\<lparr>sequence_number := s, version := 1, log_length := 1048576,
     log_offset := 1048576\<rparr>"

definition header_file :: "externs \<Rightarrow> header \<Rightarrow> header \<Rightarrow> dfile" where
  "header_file E h0 h1 =
     patch (patch (blank_file 1048576) 65536 (Header_encode E h0)) 131072 (Header_encode E h1)"

lemma header_file_slots:
  assumes "uuid_laws E"
  shows "slot E (header_file E h0 h1) 0 = stamped E h0"
    and "slot E (header_file E h0 h1) (Suc 0) = stamped E h1"
    and "has_slots (header_file E h0 h1)"
  using assms
  by (simp_all add: slot_def header_file_def file_bytes_patch_same file_bytes_patch_other
      has_slots_def blank_file_def header_roundtrip_parse)

lemma sample_header_valid [simp]: "is_valid (stamped E (sample_header s))"
  by (simp add: stamped_def sample_header_def blank_header_def is_valid_def)

lemma sample_header_fields [simp]:
  "sequence_number (stamped E (sample_header s)) = s"
  "version (stamped E (sample_header s)) = 1" "log_version (stamped E (sample_header s)) = 0"
  by (simp_all add: stamped_def sample_header_def blank_header_def)

lemma header_file_read:
  "\<exists>p. HeaderPair_read ref_externs (header_file ref_externs (sample_header a) (sample_header b)) = Inr p
    \<and> HeaderPair_active p = stamped ref_externs (sample_header (max a b))
    \<and> target_slot (Some p) = (if a \<le> b then 0 else 1)"
  by (simp add: HeaderPair_read_slots header_file_slots ref_uuid_laws HeaderPair_active_def
      target_slot_Some max_def not_le)

theorem header_roundtrip_witness:
  "Header_parse ref_externs (Header_encode ref_externs (sample_header 7)) =
    stamped ref_externs (sample_header 7)"
  by (rule header_roundtrip [OF ref_uuid_laws])

theorem header_arbitration_witness:
  "\<exists>p. HeaderPair_read ref_externs
      (header_file ref_externs (sample_header 5) (sample_header 9)) = Inr p \<and>
    sequence_number (HeaderPair_active p) = 9 \<and> is_valid (HeaderPair_active p)"
proof -
  let ?f = "header_file ref_externs (sample_header 5) (sample_header 9)"
  obtain p where p: "HeaderPair_read ref_externs ?f = Inr p" 
    "HeaderPair_active p = stamped ref_externs (sample_header 9)"
    using header_file_read [of 5 9] by auto
  have "is_valid (HeaderPair_active p)"
    using header_arbitration [OF header_file_slots(3) [OF ref_uuid_laws]] p(1) by blast
  with p show ?thesis by simp
qed

theorem write_new_becomes_active_witness:
  "\<exists>f p f' p'. HeaderPair_read ref_externs f = Inr p \<and> sequence_number (HeaderPair_active p) = 9 \<and>
    HeaderPair_write_new ref_externs f (HeaderPair_active p) (\<lambda>h. h) = Inr (f', 10) \<and>
    HeaderPair_read ref_externs f' = Inr p' \<and> sequence_number (HeaderPair_active p') = 10"
proof -
  let ?f = "header_file ref_externs (sample_header 5) (sample_header 9)"
  obtain p where p: "HeaderPair_read ref_externs ?f = Inr p"
    "HeaderPair_active p = stamped ref_externs (sample_header 9)"
    using header_file_read [of 5 9] by auto
  then have seq: "sequence_number (HeaderPair_active p) = 9" by simp
  obtain f' p' where "HeaderPair_write_new ref_externs ?f (HeaderPair_active p) (\<lambda>h. h) = Inr (f', 10)"
    and "HeaderPair_read ref_externs f' = Inr p'" and "sequence_number (HeaderPair_active p') = 10"
    using write_new_becomes_active [OF ref_uuid_laws p(1), of "\<lambda>h. h"] p(2)
    by (auto simp: successor_valid)
  with p(1) seq show ?thesis by blast
qed

text \<open>A history: an update, and a second one that a crash tears after three bytes.\<close>

theorem headers_survive_history_witness:
  "\<exists>f f1 p1 f2 p2. (header_step ref_externs)\<^sup>*\<^sup>* f f2 \<and>
    HeaderPair_write_new ref_externs f (stamped ref_externs (sample_header 9)) id = Inr (f1, 10) \<and>
    HeaderPair_read ref_externs f1 = Inr p1 \<and>
    f2 = patch f1 (unat (header_offset (target_slot (Some p1)))) [1, 2, 3] \<and>
    HeaderPair_read ref_externs f2 = Inr p2 \<and> 9 \<le> sequence_number (HeaderPair_active p2)"
proof -
  let ?f = "header_file ref_externs (sample_header 9) (sample_header 5)"
  obtain p where p: "HeaderPair_read ref_externs ?f = Inr p"
      "HeaderPair_active p = stamped ref_externs (sample_header 9)"
    using header_file_read [of 9 5] by auto
  obtain f1 p1 where f1: "HeaderPair_write_new ref_externs ?f (stamped ref_externs (sample_header 9)) id = Inr (f1, 10)"
      "HeaderPair_read ref_externs f1 = Inr p1"
    using write_new_active [OF ref_uuid_laws p(1), of id] p(2) by auto
  let ?f2 = "patch f1 (unat (header_offset (target_slot (Some p1)))) [1, 2, 3]"
  have "header_step ref_externs ?f f1"
    by (rule header_step.update [OF p(1) p(2) [symmetric], of id f1 10]) (use f1(1) in simp_all)
  moreover have "header_step ref_externs f1 ?f2" using header_step.torn [OF f1(2)] by simp
  ultimately have steps: "(header_step ref_externs)\<^sup>*\<^sup>* ?f ?f2" by simp
  obtain p2 where "HeaderPair_read ref_externs ?f2 = Inr p2" "9 \<le> sequence_number (HeaderPair_active p2)"
    using headers_survive_history [OF ref_uuid_laws steps p(1)] p(2) by auto
  with steps f1 show ?thesis by blast
qed

theorem write_new_wraps_to_stale_header_witness:
  "\<exists>f p f' p'. HeaderPair_read ref_externs f = Inr p \<and>
    HeaderPair_write_new ref_externs f (HeaderPair_active p) (\<lambda>h. h) = Inr (f', 0) \<and>
    HeaderPair_read ref_externs f' = Inr p' \<and> HeaderPair_active p' = HeaderPair_active p"
proof -
  let ?f = "header_file ref_externs (sample_header 5) (sample_header 0xFFFFFFFFFFFFFFFF)"
  obtain p where p: "HeaderPair_read ref_externs ?f = Inr p"
    "HeaderPair_active p = stamped ref_externs (sample_header 0xFFFFFFFFFFFFFFFF)"
    "target_slot (Some p) = 0"
    using header_file_read [of 5 "0xFFFFFFFFFFFFFFFF"] by (auto simp: max_def)
  then obtain f' p' where "HeaderPair_write_new ref_externs ?f (HeaderPair_active p) (\<lambda>h. h) = Inr (f', 0)"
    and "HeaderPair_read ref_externs f' = Inr p'" and "HeaderPair_active p' = HeaderPair_active p"
    using write_new_wraps_to_stale_header [OF ref_uuid_laws p(1), of "\<lambda>h. h"]
    by (auto simp: header_file_slots ref_uuid_laws)
  with p(1) show ?thesis by blast
qed

end
