(* ===== verification/Vhdx_Region.thy ===== *)
theory Vhdx_Region
  imports Vhdx_IO "HOL-Library.Multiset"
begin

text \<open>
  \<open>region.rs\<close>: the region table, its two copies, and the layout check that every open
  runs.  Offsets and lengths are added as u64, wrapping around as in a release build.
\<close>

section \<open>The table\<close>

record region_entry =
  re_guid :: uuid
  re_file_offset :: u64
  re_length :: u32
  re_required :: bool

record region_table =
  rt_checksum_ok :: bool
  rt_entries :: "region_entry list"

definition parse_region_entry :: "externs \<Rightarrow> bytes \<Rightarrow> region_entry" where
  "parse_region_entry E e =
    \<lparr>re_guid = read_guid_at E e 0,
     re_file_offset = read_u64 (bslice e 16 24),
     re_length = read_u32 (bslice e 24 28),
     re_required = (read_u32 (bslice e 28 32) AND REGION_FLAG_REQUIRED \<noteq> 0)\<rparr>"

definition RegionTable_parse :: "externs \<Rightarrow> bytes \<Rightarrow> region_table" where
  "RegionTable_parse E buf =
    (let rt = \<lparr>rt_checksum_ok = False, rt_entries = []\<rparr> in
     if length buf < REGION_TABLE_HEADER_SIZE then rt
     else if bslice buf 0 4 \<noteq> REGION_SIGNATURE then rt
     else
       let checksum = read_u32 (bslice buf 4 8); entry_count = unat (read_u32 (bslice buf 8 12)) in
       if entry_count > REGION_TABLE_MAX_ENTRIES then rt
       else
         let need = REGION_TABLE_HEADER_SIZE + entry_count * REGION_TABLE_ENTRY_SIZE in
         if length buf < need then rt
         else
           let calc = crc32c_with_zeroed_field E buf 4 in
           \<lparr>rt_checksum_ok = (calc = checksum),
            rt_entries = map (\<lambda>i.
              let off = REGION_TABLE_HEADER_SIZE + i * REGION_TABLE_ENTRY_SIZE
              in parse_region_entry E (bslice buf off (off + REGION_TABLE_ENTRY_SIZE))) [0..<entry_count]\<rparr>)"

definition RegionTable_find :: "region_table \<Rightarrow> uuid \<Rightarrow> region_entry option" where
  "RegionTable_find rt guid = List.find (\<lambda>e. re_guid e = guid) (rt_entries rt)"

definition RegionTable_bat :: "region_table \<Rightarrow> region_entry option" where
  "RegionTable_bat rt = RegionTable_find rt REGION_GUID_BAT"

definition RegionTable_metadata :: "region_table \<Rightarrow> region_entry option" where
  "RegionTable_metadata rt = RegionTable_find rt REGION_GUID_METADATA"

fun windows_ok :: "(u64 \<times> u64) list \<Rightarrow> bool" where
  "windows_ok (a # b # ws) = (if fst b < snd a then False else windows_ok (b # ws))"
| "windows_ok ws = True"

fun check_alignment :: "region_entry list \<Rightarrow> unit res" where
  "check_alignment [] = Inr ()"
| "check_alignment (e # es) =
    (if re_file_offset e mod (1024 * 1024) \<noteq> 0
     then Inl (InvalidStructure ''region offset not 1 MiB aligned'')
     else if (ucast (re_length e) :: u64) mod (1024 * 1024) \<noteq> 0
     then Inl (InvalidStructure ''region length not 1 MiB aligned'')
     else check_alignment es)"

definition validate_layout :: "region_table \<Rightarrow> unit res" where
  "validate_layout rt =
    (let intervals = sort (map (\<lambda>e. (re_file_offset e, re_file_offset e + ucast (re_length e))) (rt_entries rt)) in
     if \<not> windows_ok intervals then Inl (InvalidStructure ''regions overlap'')
     else check_alignment (rt_entries rt))"

definition encode_region_entry :: "externs \<Rightarrow> region_entry \<Rightarrow> bytes" where
  "encode_region_entry E e =
    write_guid E (re_guid e) @ write_u64 (re_file_offset e) @ write_u32 (re_length e)
      @ write_u32 (if re_required e then REGION_FLAG_REQUIRED else 0)"

text \<open>
  The 32 bytes of entry \<open>i\<close> are written at offset \<open>16 + 32 * i\<close>, contiguously; an entry
  that does not fit the 64 KiB slot is an out-of-range slice.
\<close>

definition RegionTable_encode :: "externs \<Rightarrow> region_table \<Rightarrow> bytes res" where
  "RegionTable_encode E rt =
    (let buf = replicate (unat REGION_TABLE_SIZE) 0;
         buf = bput 0 REGION_SIGNATURE buf;
         buf = bput 8 (write_u32 (word_of_nat (length (rt_entries rt)))) buf;
         table = concat (map (encode_region_entry E) (rt_entries rt)) in
     if REGION_TABLE_HEADER_SIZE + length (rt_entries rt) * REGION_TABLE_ENTRY_SIZE > length buf
     then Inl (Panic ''range end index out of range'')
     else
       let buf = bput REGION_TABLE_HEADER_SIZE table buf;
           cs = crc32c E buf
       in Inr (bput 4 (write_u32 cs) buf))"

section \<open>The pair of tables\<close>

record region_table_pair =
  rp_tables :: "region_table option \<times> region_table option"
  rp_active_index :: nat

definition RegionTablePair_read :: "externs \<Rightarrow> dfile \<Rightarrow> region_table_pair res" where
  "RegionTablePair_read E f =
    bindR (read_exact_at f (region_table_offset 0) (unat REGION_TABLE_SIZE)) (\<lambda>buf0.
    bindR (read_exact_at f (region_table_offset 1) (unat REGION_TABLE_SIZE)) (\<lambda>buf1.
      let r0 = RegionTable_parse E buf0; r1 = RegionTable_parse E buf1;
          r0v = rt_checksum_ok r0; r1v = rt_checksum_ok r1 in
      bindR (if r0v then Inr 0 else if r1v then Inr 1 else Inl NoValidRegionTable) (\<lambda>active.
      Inr \<lparr>rp_tables = (if r0v then Some r0 else None, if r1v then Some r1 else None),
           rp_active_index = active\<rparr>)))"

definition RegionTablePair_active :: "region_table_pair \<Rightarrow> region_table res" where
  "RegionTablePair_active p =
    ok_or (if rp_active_index p = 0 then fst (rp_tables p) else snd (rp_tables p))
      (Panic ''active region table must be Some'')"

definition RegionTablePair_write_both :: "externs \<Rightarrow> dfile \<Rightarrow> region_table \<Rightarrow> dfile res" where
  "RegionTablePair_write_both E f table =
    bindR (RegionTable_encode E table) (\<lambda>raw.
    bindR (write_all_at f (region_table_offset 0) raw) (\<lambda>f1.
    write_all_at f1 (region_table_offset 1) raw))"

section \<open>Round trip\<close>

lemma length_encode_region_entry [simp]:
  "uuid_laws E \<Longrightarrow> length (encode_region_entry E e) = 32"
  by (simp add: encode_region_entry_def write_guid_simps)

lemma parse_encode_region_entry:
  assumes "uuid_laws E"
  shows "parse_region_entry E (encode_region_entry E e) = e"
  using assms
  by (simp add: parse_region_entry_def encode_region_entry_def read_guid_at_def bslice_def
      write_guid_simps REGION_FLAG_REQUIRED_def)

text \<open>With the laws of the uuid crate, the entry encoding is a fixed-width codec.\<close>

lemma region_entry_codec:
  "uuid_laws E \<Longrightarrow> fixed_codec (encode_region_entry E) (parse_region_entry E) 32"
  by unfold_locales (simp_all add: parse_encode_region_entry)

lemma bput_split:
  assumes "off + length src \<le> length buf"
  shows "drop off (bput off src buf) = src @ drop (off + length src) buf"
  using assms by (simp add: bput_def)

lemma region_table_roundtrip_parse:
  assumes "uuid_laws E" and "length (rt_entries rt) \<le> 2047"
  shows "\<exists>buf. RegionTable_encode E rt = Inr buf \<and> length buf = 65536 \<and>
    RegionTable_parse E buf = rt\<lparr>rt_checksum_ok := True\<rparr>"
proof -
  let ?es = "rt_entries rt" and ?n = "length (rt_entries rt)"
  define table where "table = concat (map (encode_region_entry E) ?es)"
  define b0 where "b0 = bput 8 (write_u32 (word_of_nat ?n)) (bput 0 REGION_SIGNATURE (replicate 65536 0))"
  define b1 where "b1 = bput 16 table b0"
  define buf where "buf = bput 4 (write_u32 (crc32c E b1)) b1"
  note codec = region_entry_codec [OF assms(1)]
  have table: "length table = ?n * 32"
    unfolding table_def by (rule fixed_codec.table_length [OF codec])
  have fits: "16 + ?n * 32 \<le> 65536" using assms(2) by simp
  have b0: "length b0 = 65536" by (simp add: b0_def buf_simps)
  have b1: "length b1 = 65536" using fits table b0 by (simp add: b1_def buf_simps)
  have buf: "length buf = 65536" using b1 by (simp add: buf_def buf_simps)
  have "bslice buf 0 4 = REGION_SIGNATURE" "bslice buf 4 8 = write_u32 (crc32c E b1)"
    "bslice buf 8 12 = write_u32 (word_of_nat ?n)" "bslice b1 4 8 = replicate 4 0"
    using fits table b0 b1 by (simp_all add: buf_def b1_def b0_def buf_simps)
  moreover have "crc32c_with_zeroed_field E buf 4 = crc32c E b1"
    using b1 calculation(4) by (simp add: buf_def buf_simps crc32c_zeroed_zero)
  moreover have "unat (word_of_nat ?n :: u32) = ?n" using assms(2) by (simp add: unat_of_nat)
  moreover have "drop 16 buf = table @ drop (16 + length table) b0"
    using b0 b1 fits table by (simp add: buf_def b1_def bput_def)
  then have slice: "bslice buf (16 + i * 32) (16 + i * 32 + 32) =
      bslice (table @ drop (16 + length table) b0) (i * 32) (i * 32 + 32)" for i
    by (simp add: slice_drop add.assoc flip: \<open>drop 16 buf = table @ drop (16 + length table) b0\<close>)
  have "map (\<lambda>i. parse_region_entry E (bslice buf (16 + i * 32) (16 + i * 32 + 32))) [0..<?n] = ?es"
    unfolding slice table_def using fixed_codec.table_entries [OF codec, of ?n ?es] by simp
  ultimately have "RegionTable_parse E buf = rt\<lparr>rt_checksum_ok := True\<rparr>"
    using buf fits assms(2) by (simp add: RegionTable_parse_def Let_def size_defs)
  moreover have "RegionTable_encode E rt = Inr buf"
    using fits b0 by (simp add: RegionTable_encode_def Let_def size_defs buf_def b1_def b0_def table_def
        offset_defs)
  ultimately show ?thesis using buf by blast
qed

text \<open>
  Region table round trip: a table of at most 2047 entries is encoded without a
  panic, and parsing the slot gives back its entries with the checksum found correct.
\<close>

lemma region_table_roundtrip:
  assumes "uuid_laws E" and "length (rt_entries rt) \<le> 2047"
  shows "\<exists>buf. RegionTable_encode E rt = Inr buf \<and> length buf = 65536 \<and>
    RegionTable_parse E buf = rt\<lparr>rt_checksum_ok := True\<rparr>"
  using assms by (rule region_table_roundtrip_parse)

section \<open>The layout check\<close>

definition region_end :: "region_entry \<Rightarrow> nat" where
  "region_end e = unat (re_file_offset e) + unat (re_length e)"

text \<open>Two regions are apart when one ends before the other begins.\<close>

definition regions_apart :: "region_entry \<Rightarrow> region_entry \<Rightarrow> bool" where
  "regions_apart e e' \<longleftrightarrow> region_end e \<le> unat (re_file_offset e') \<or> region_end e' \<le> unat (re_file_offset e)"

definition region_aligned :: "region_entry \<Rightarrow> bool" where
  "region_aligned e \<longleftrightarrow> unat (re_file_offset e) mod 1048576 = 0 \<and> unat (re_length e) mod 1048576 = 0"

lemma check_alignment_ok:
  "check_alignment es = Inr () \<longleftrightarrow> (\<forall>e \<in> set es. region_aligned e)"
proof (induction es)
  case Nil
  then show ?case by simp
next
  case (Cons e es)
  have "(x :: u64) mod (1024 * 1024) = 0 \<longleftrightarrow> unat x mod 1048576 = 0" for x
    using unat_eq_zero [of "x mod 1048576"] by (simp add: unat_mod)
  with Cons show ?case by (simp add: region_aligned_def)
qed

definition interval_apart :: "u64 \<times> u64 \<Rightarrow> u64 \<times> u64 \<Rightarrow> bool" where
  "interval_apart a b \<longleftrightarrow> snd a \<le> fst b \<or> snd b \<le> fst a"

lemma windows_ok_sorted:
  assumes "sorted xs" and "\<forall>x \<in> set xs. fst x \<le> snd x"
  shows "windows_ok xs \<longleftrightarrow> sorted_wrt interval_apart xs"
  using assms
proof (induction xs rule: windows_ok.induct)
  case (1 a b ws)
  have ab: "interval_apart a b \<longleftrightarrow> snd a \<le> fst b"
    using "1.prems" by (cases a; cases b) (auto simp: interval_apart_def)
  have trans: "interval_apart a c" if "snd a \<le> fst b" "c \<in> set ws" for c
  proof -
    have "b \<le> c" using "1.prems"(1) that(2) by simp
    then have "fst b \<le> fst c" by (cases b; cases c) auto
    with that(1) show ?thesis by (auto simp: interval_apart_def intro: order_trans)
  qed
  show ?case
  proof (cases "snd a \<le> fst b")
    case True
    then have "windows_ok (a # b # ws) \<longleftrightarrow> windows_ok (b # ws)" by auto
    also have "\<dots> \<longleftrightarrow> sorted_wrt interval_apart (b # ws)"
      using "1.prems" True by (intro "1.IH") auto
    also have "\<dots> \<longleftrightarrow> sorted_wrt interval_apart (a # b # ws)"
      using True ab trans by auto
    finally show ?thesis .
  next
    case False
    then show ?thesis using ab by (simp add: not_le)
  qed
qed simp_all

text \<open>Separation is symmetric, so a list satisfies it pairwise in any order.\<close>

lemma sorted_wrt_symmetric:
  assumes "\<And>x y. R x y = R y x"
  shows "sorted_wrt R xs \<longleftrightarrow> (\<forall>x \<in># mset xs. \<forall>y \<in># mset xs - {#x#}. R x y)"
proof (induction xs)
  case Nil
  then show ?case by simp
next
  case (Cons a xs)
  have "(\<forall>x \<in># mset (a # xs). \<forall>y \<in># mset (a # xs) - {#x#}. R x y) \<longleftrightarrow>
      (\<forall>y \<in> set xs. R a y) \<and> (\<forall>x \<in> set xs. \<forall>y \<in># add_mset a (mset xs) - {#x#}. R x y)"
    by simp
  also have "\<dots> \<longleftrightarrow> (\<forall>y \<in> set xs. R a y) \<and> (\<forall>x \<in># mset xs. \<forall>y \<in># mset xs - {#x#}. R x y)"
    using assms by (auto simp: add_mset_diff_bothsides [symmetric] diff_add_mset_swap [symmetric]
        dest: in_diffD)
  finally show ?case using Cons by simp
qed

lemma sorted_wrt_sort:
  assumes "\<And>x y. R x y = R y x"
  shows "sorted_wrt R (sort xs) \<longleftrightarrow> sorted_wrt R xs"
  using assms by (simp add: sorted_wrt_symmetric)

text \<open>
  C24 (layout check): when no region runs past the end of the 64-bit address space, the
  check accepts a table exactly when every region is MiB-aligned in offset and length and
  no two regions overlap.
\<close>

theorem validate_layout_correct:
  assumes "list_all (\<lambda>e. region_end e < 2 ^ 64) (rt_entries rt)"
  shows "validate_layout rt = Inr () \<longleftrightarrow>
    list_all region_aligned (rt_entries rt) \<and> sorted_wrt regions_apart (rt_entries rt)"
proof -
  let ?iv = "\<lambda>e. (re_file_offset e, re_file_offset e + ucast (re_length e))"
  let ?xs = "map ?iv (rt_entries rt)"
  have nowrap: "unat (re_file_offset e + ucast (re_length e)) = region_end e"
    if "e \<in> set (rt_entries rt)" for e
    using that assms by (simp add: list_all_iff region_end_def unat_add_u64)
  then have "fst x \<le> snd x" if "x \<in> set (sort ?xs)" for x
    using that by (auto simp: word_le_nat_alt region_end_def)
  then have "windows_ok (sort ?xs) \<longleftrightarrow> sorted_wrt interval_apart (sort ?xs)"
    by (intro windows_ok_sorted) simp_all
  also have "\<dots> \<longleftrightarrow> sorted_wrt interval_apart ?xs"
    by (rule sorted_wrt_sort) (auto simp: interval_apart_def)
  also have "\<dots> \<longleftrightarrow> sorted_wrt (\<lambda>e e'. interval_apart (?iv e) (?iv e')) (rt_entries rt)"
    by (simp add: sorted_wrt_map)
  also have "\<dots> \<longleftrightarrow> sorted_wrt regions_apart (rt_entries rt)"
    using nowrap by (intro iffI; elim sorted_wrt_mono_rel [rotated])
      (auto simp: interval_apart_def regions_apart_def word_le_nat_alt)
  finally show ?thesis
    by (auto simp: validate_layout_def Let_def check_alignment_ok list_all_iff)
qed

text \<open>
  Wrapped overlap: the sum of offset and length wraps around in the one case the
  equivalence excludes: a table holding two copies of a region that runs past the end of
  the 64-bit address space passes the layout check although they overlap.
\<close>

lemma validate_layout_misses_wrapped_overlap:
  "\<exists>rt. validate_layout rt = Inr () \<and> \<not> sorted_wrt regions_apart (rt_entries rt)"
proof -
  let ?e = "\<lparr>re_guid = 0, re_file_offset = 0xFFFFFFFFFFF00000, re_length = 0x200000, re_required = True\<rparr>"
  have "validate_layout \<lparr>rt_checksum_ok = True, rt_entries = [?e, ?e]\<rparr> = Inr ()"
    by (simp add: validate_layout_def Let_def)
  moreover have "\<not> regions_apart ?e ?e"
    by (simp add: regions_apart_def region_end_def)
  ultimately show ?thesis by (intro exI [of _ "\<lparr>rt_checksum_ok = True, rt_entries = [?e, ?e]\<rparr>"]) simp
qed

section \<open>Writing both copies\<close>

lemma unat_region_table_offset [simp]:
  "unat (region_table_offset 0) = 196608" "unat (region_table_offset (Suc 0)) = 262144"
  "unat REGION_TABLE_SIZE = 65536"
  by (simp_all add: offset_defs)

text \<open>
  C25 (region table update): after \<open>write_both\<close> the table read back from the file is the
  one written, from either copy; the first copy is the active one.
\<close>

theorem write_both_is_read_back:
  assumes "uuid_laws E" and "length (rt_entries rt) \<le> 2047"
    and "RegionTablePair_write_both E f rt = Inr f'"
  shows "\<exists>p. RegionTablePair_read E f' = Inr p \<and>
    rp_tables p = (Some (rt\<lparr>rt_checksum_ok := True\<rparr>), Some (rt\<lparr>rt_checksum_ok := True\<rparr>)) \<and>
    RegionTablePair_active p = Inr (rt\<lparr>rt_checksum_ok := True\<rparr>)"
proof -
  obtain raw where raw: "RegionTable_encode E rt = Inr raw" "length raw = 65536"
    "RegionTable_parse E raw = rt\<lparr>rt_checksum_ok := True\<rparr>"
    using region_table_roundtrip_parse [OF assms(1,2)] by blast
  obtain f1 where "write_all_at f (region_table_offset 0) raw = Inr f1"
    and "write_all_at f1 (region_table_offset (Suc 0)) raw = Inr f'"
    using assms(3) raw(1) by (auto simp: RegionTablePair_write_both_def res_simps)
  from file_store.rd_two_writes [OF this]
  have "read_exact_at f' (region_table_offset 0) 65536 = Inr raw"
    and "read_exact_at f' (region_table_offset (Suc 0)) 65536 = Inr raw"
    using raw(2) by simp_all
  then show ?thesis
    by (simp add: RegionTablePair_read_def RegionTablePair_active_def raw(3) Let_def)
qed

section \<open>Concrete instances\<close>

text \<open>The table of the test \<open>region_roundtrip\<close>.\<close>

definition sample_regions :: region_table where
  "sample_regions = \<lparr>rt_checksum_ok = True, rt_entries =
    [\<lparr>re_guid = REGION_GUID_BAT, re_file_offset = 3145728, re_length = 1048576, re_required = True\<rparr>,
     \<lparr>re_guid = REGION_GUID_METADATA, re_file_offset = 2097152, re_length = 1048576, re_required = True\<rparr>]\<rparr>"

lemma length_sample_regions [simp]: "length (rt_entries sample_regions) = 2"
  by (simp add: sample_regions_def)

theorem region_table_roundtrip_witness:
  "\<exists>buf. RegionTable_encode ref_externs sample_regions = Inr buf \<and>
    RegionTable_parse ref_externs buf = sample_regions\<lparr>rt_checksum_ok := True\<rparr>"
  using region_table_roundtrip [OF ref_uuid_laws, of sample_regions] by auto

theorem validate_layout_correct_witness: "validate_layout sample_regions = Inr ()"
  using validate_layout_correct [of sample_regions]
  by (simp add: sample_regions_def region_end_def region_aligned_def regions_apart_def)

theorem write_both_is_read_back_witness:
  "\<exists>f' p. RegionTablePair_write_both ref_externs
      \<lparr>f_data = (\<lambda>_. 0), f_len = 1048576, f_max = 1048576\<rparr> sample_regions = Inr f' \<and>
    RegionTablePair_read ref_externs f' = Inr p \<and>
    RegionTablePair_active p = Inr (sample_regions\<lparr>rt_checksum_ok := True\<rparr>)"
proof -
  let ?f = "\<lparr>f_data = (\<lambda>_. 0), f_len = 1048576, f_max = 1048576\<rparr>"
  obtain raw where "RegionTable_encode ref_externs sample_regions = Inr raw" "length raw = 65536"
    using region_table_roundtrip_parse [OF ref_uuid_laws, of sample_regions] by auto
  then have "\<exists>f'. RegionTablePair_write_both ref_externs ?f sample_regions = Inr f'"
    by (simp add: RegionTablePair_write_both_def res_simps)
  then obtain f' where f': "RegionTablePair_write_both ref_externs ?f sample_regions = Inr f'" ..
  from write_both_is_read_back [OF ref_uuid_laws _ f'] f' show ?thesis by auto
qed

end
