(* ===== verification/Vhdx_Bat.thy ===== *)
theory Vhdx_Bat
  imports Vhdx_Format
begin

text \<open>
  \<open>bat.rs\<close>: the block allocation table.  Its entries pack a 3-bit state and a file
  offset in MiB units; payload entries and sector-bitmap entries are interleaved, one
  bitmap entry after every \<open>chunk_ratio\<close> payload entries.  The index arithmetic is u64
  arithmetic with its wrap-around, and a division by a zero \<open>chunk_ratio\<close> is a panic.

  The locale \<open>entry_table\<close> states what the writers rely on (what a lookup finds after
  an update); it is interpreted twice, on the payload and on the bitmap entries.
\<close>

section \<open>Entries\<close>

datatype bat_entry = BatEntry (entry_raw: u64)

definition BatEntry_empty :: bat_entry where
  "BatEntry_empty = BatEntry 0"

definition BatEntry_new :: "u8 \<Rightarrow> u64 \<Rightarrow> bat_entry" where
  "BatEntry_new state file_offset =
    (let mb = drop_bit 20 file_offset in BatEntry ((ucast state AND 7) OR push_bit 20 mb))"

definition entry_state :: "bat_entry \<Rightarrow> u8" where
  "entry_state e = ucast (entry_raw e AND 7)"

definition entry_file_offset :: "bat_entry \<Rightarrow> u64" where
  "entry_file_offset e = push_bit 20 (drop_bit 20 (entry_raw e))"

datatype payload_state =
    NotPresent | Undefined | Zero | Unmapped | FullyPresent | PartiallyPresent | OtherState u8

definition PayloadState_from_raw :: "u8 \<Rightarrow> payload_state" where
  "PayloadState_from_raw s =
    (if s = PAYLOAD_BLOCK_NOT_PRESENT then NotPresent
     else if s = PAYLOAD_BLOCK_UNDEFINED then Undefined
     else if s = PAYLOAD_BLOCK_ZERO then Zero
     else if s = PAYLOAD_BLOCK_UNMAPPED then Unmapped
     else if s = PAYLOAD_BLOCK_FULLY_PRESENT then FullyPresent
     else if s = PAYLOAD_BLOCK_PARTIALLY_PRESENT then PartiallyPresent
     else OtherState s)"

fun PayloadState_raw :: "payload_state \<Rightarrow> u8" where
  "PayloadState_raw NotPresent = PAYLOAD_BLOCK_NOT_PRESENT"
| "PayloadState_raw Undefined = PAYLOAD_BLOCK_UNDEFINED"
| "PayloadState_raw Zero = PAYLOAD_BLOCK_ZERO"
| "PayloadState_raw Unmapped = PAYLOAD_BLOCK_UNMAPPED"
| "PayloadState_raw FullyPresent = PAYLOAD_BLOCK_FULLY_PRESENT"
| "PayloadState_raw PartiallyPresent = PAYLOAD_BLOCK_PARTIALLY_PRESENT"
| "PayloadState_raw (OtherState s) = s"

datatype sector_bitmap_state = SbNotPresent | SbPresent | SbOther u8

definition SectorBitmapState_from_raw :: "u8 \<Rightarrow> sector_bitmap_state" where
  "SectorBitmapState_from_raw s =
    (if s = SB_BLOCK_NOT_PRESENT then SbNotPresent
     else if s = SB_BLOCK_PRESENT then SbPresent
     else SbOther s)"

section \<open>Indices\<close>

definition payload_index :: "u64 \<Rightarrow> u64 \<Rightarrow> u64 res" where
  "payload_index virt_block chunk_ratio =
    (if chunk_ratio = 0 then Inl (Panic ''divide by zero'')
     else let chunk = virt_block div chunk_ratio; offset = virt_block mod chunk_ratio
       in Inr (chunk * (chunk_ratio + 1) + offset))"

definition sector_bitmap_index :: "u64 \<Rightarrow> u64 \<Rightarrow> u64 res" where
  "sector_bitmap_index virt_block chunk_ratio =
    (if chunk_ratio = 0 then Inl (Panic ''divide by zero'')
     else let chunk = virt_block div chunk_ratio
       in Inr (chunk * (chunk_ratio + 1) + chunk_ratio))"

definition total_bat_entries :: "u64 \<Rightarrow> u64 \<Rightarrow> bool \<Rightarrow> nat res" where
  "total_bat_entries block_count chunk_ratio has_parent =
    (if block_count = 0 then Inr 0
     else if chunk_ratio = 0 then Inl (Panic ''divide by zero'')
     else let last_block = block_count - 1; last_chunk = last_block div chunk_ratio in
       if has_parent then Inr (unat ((last_chunk + 1) * (chunk_ratio + 1)))
       else let in_chunk = last_block mod chunk_ratio
         in Inr (unat (last_chunk * (chunk_ratio + 1) + in_chunk + 1)))"

section \<open>The table\<close>

record bat =
  bat_entries :: "bat_entry list"
  bat_chunk_ratio :: u64
  bat_block_count :: u64

definition Bat_parse :: "bytes \<Rightarrow> u64 \<Rightarrow> u64 \<Rightarrow> bool \<Rightarrow> bat res" where
  "Bat_parse buf block_count chunk_ratio has_parent =
    bindR (total_bat_entries block_count chunk_ratio has_parent) (\<lambda>total_entries.
      let max_from_buf = length buf div 8; limit = min total_entries max_from_buf in
      Inr \<lparr>bat_entries = map (\<lambda>i. BatEntry (read_u64 (bslice buf (i * 8) (i * 8 + 8)))) [0..<limit],
        bat_chunk_ratio = chunk_ratio, bat_block_count = block_count\<rparr>)"

definition entry_at :: "bat \<Rightarrow> u64 \<Rightarrow> bat_entry option" where
  "entry_at b idx = (if unat idx < length (bat_entries b) then Some (bat_entries b ! unat idx) else None)"

definition set_entry_at :: "bat \<Rightarrow> u64 \<Rightarrow> bat_entry \<Rightarrow> bat" where
  "set_entry_at b idx e =
    (if unat idx < length (bat_entries b) then b\<lparr>bat_entries := (bat_entries b)[unat idx := e]\<rparr> else b)"

definition payload_entry :: "bat \<Rightarrow> u64 \<Rightarrow> bat_entry option res" where
  "payload_entry b virt_block =
    bindR (payload_index virt_block (bat_chunk_ratio b)) (\<lambda>idx. Inr (entry_at b idx))"

definition set_payload_entry :: "bat \<Rightarrow> u64 \<Rightarrow> bat_entry \<Rightarrow> bat res" where
  "set_payload_entry b virt_block e =
    bindR (payload_index virt_block (bat_chunk_ratio b)) (\<lambda>idx. Inr (set_entry_at b idx e))"

definition sector_bitmap_entry :: "bat \<Rightarrow> u64 \<Rightarrow> bat_entry option res" where
  "sector_bitmap_entry b virt_block =
    bindR (sector_bitmap_index virt_block (bat_chunk_ratio b)) (\<lambda>idx. Inr (entry_at b idx))"

definition set_sector_bitmap_entry :: "bat \<Rightarrow> u64 \<Rightarrow> bat_entry \<Rightarrow> bat res" where
  "set_sector_bitmap_entry b virt_block e =
    bindR (sector_bitmap_index virt_block (bat_chunk_ratio b)) (\<lambda>idx. Inr (set_entry_at b idx e))"

definition Bat_encode :: "bat \<Rightarrow> bytes" where
  "Bat_encode b = concat (map (\<lambda>e. write_u64 (entry_raw e)) (bat_entries b))"

section \<open>Entry packing\<close>

lemma drop_push_20:
  assumes "unat (off :: u64) mod 1048576 = 0"
  shows "push_bit 20 (drop_bit 20 off) = off"
proof -
  have "unat (take_bit 20 off) = unat off mod 2 ^ 20"
    unfolding unsigned_take_bit_eq by (rule take_bit_eq_mod)
  then have "unat (take_bit 20 off) = 0" using assms by simp
  then have "take_bit 20 off = 0" by (simp add: unat_eq_zero)
  then show ?thesis using bits_ident [of 20 off] by simp
qed

lemma bit_7_u64: "bit (7 :: u64) n \<longleftrightarrow> n < 3"
proof -
  have m: "(7 :: u64) = mask 3" by (simp add: mask_eq_exp_minus_1)
  show ?thesis by (simp only: m bit_mask_iff possible_bit_word) auto
qed

lemma bit_7_u8: "bit (7 :: u8) n \<longleftrightarrow> n < 3"
proof -
  have m: "(7 :: u8) = mask 3" by (simp add: mask_eq_exp_minus_1)
  show ?thesis by (simp only: m bit_mask_iff possible_bit_word) auto
qed

lemma entry_state_new:
  "unat s < 8 \<Longrightarrow> entry_state (BatEntry_new s off) = s"
proof -
  assume s: "unat s < 8"
  have small: "\<not> bit s n" if "3 \<le> n" for n
  proof -
    have "take_bit 3 (unat s) = unat s" using s by (simp add: take_bit_nat_eq_self)
    then have "\<not> bit (unat s) n" using that by (metis bit_take_bit_iff not_le)
    then show ?thesis by (simp add: bit_unsigned_iff)
  qed
  have "bit (entry_state (BatEntry_new s off)) n \<longleftrightarrow> n < 8 \<and> n < 3 \<and> bit s n" for n
    unfolding entry_state_def BatEntry_new_def Let_def bat_entry.sel
    by (simp only: bit_unsigned_iff bit_and_iff bit_or_iff bit_push_bit_iff bit_7_u64
        possible_bit_word) auto
  then show ?thesis
    using small by (intro bit_eqI) (auto simp: not_le [symmetric])
qed

lemma entry_file_offset_new:
  "unat off mod 1048576 = 0 \<Longrightarrow> entry_file_offset (BatEntry_new s off) = off"
proof -
  assume off: "unat off mod 1048576 = 0"
  have "entry_file_offset (BatEntry_new s off) = push_bit 20 (drop_bit 20 off)"
    by (rule bit_eqI)
       (auto simp: entry_file_offset_def BatEntry_new_def Let_def bit_simps bit_7_u64)
  then show ?thesis using drop_push_20 [OF off] by simp
qed

lemma PayloadState_raw_from_raw: "PayloadState_raw (PayloadState_from_raw s) = s"
  by (simp add: PayloadState_from_raw_def)

text \<open>
  Entry packing: an entry made from a state below 8 and a MiB-aligned offset gives
  back exactly that state and that offset, and distinct pairs make distinct entries.
\<close>

lemma bat_entry_roundtrip:
  assumes "unat s < 8" and "unat off mod 1048576 = 0"
  shows "entry_state (BatEntry_new s off) = s \<and> entry_file_offset (BatEntry_new s off) = off \<and>
    PayloadState_raw (PayloadState_from_raw (entry_state (BatEntry_new s off))) = s"
  using assms by (simp add: entry_state_new entry_file_offset_new PayloadState_raw_from_raw)

section \<open>Index arithmetic\<close>

text \<open>
  The bounds under which the index arithmetic does not wrap around: both below 2^62,
  which every chunk ratio the metadata can produce and every block count of a virtual
  disk with blocks of at least 4 bytes satisfies.
\<close>

definition index_ok :: "u64 \<Rightarrow> u64 \<Rightarrow> bool" where
  "index_ok b cr \<longleftrightarrow> cr \<noteq> 0 \<and> unat b < 2 ^ 62 \<and> unat cr < 2 ^ 62"

text \<open>On natural numbers: a payload index is the block plus the bitmap entries before it.\<close>

definition nat_payload_index :: "nat \<Rightarrow> nat \<Rightarrow> nat" where
  "nat_payload_index b cr = b + b div cr"

definition nat_bitmap_index :: "nat \<Rightarrow> nat \<Rightarrow> nat" where
  "nat_bitmap_index b cr = (b div cr) * (cr + 1) + cr"

lemma chunk_bound:
  assumes "index_ok b cr"
  shows "unat (b div cr) * (unat cr + 1) + unat cr < 2 ^ 64 - 1"
proof -
  have "unat (b div cr) * unat cr \<le> unat b" by (simp add: unat_div div_times_less_eq_dividend)
  moreover have "unat (b div cr) \<le> unat b" by (simp add: unat_div div_le_dividend)
  ultimately show ?thesis using assms by (simp add: index_ok_def)
qed

lemma unat_cr_Suc: "index_ok b cr \<Longrightarrow> unat (cr + 1) = unat cr + 1"
  by (simp add: index_ok_def unat_add_u64)

lemma unat_chunk_mult:
  "index_ok b cr \<Longrightarrow> unat (b div cr * (cr + 1)) = unat (b div cr) * (unat cr + 1)"
  using chunk_bound [of b cr] by (simp add: unat_cr_Suc unat_mult_u64)

lemma payload_index_nat:
  assumes "index_ok b cr"
  shows "\<exists>idx. payload_index b cr = Inr idx \<and> unat idx = nat_payload_index (unat b) (unat cr)"
proof -
  have lt: "unat (b mod cr) < unat cr"
    using assms by (simp add: unat_mod index_ok_def unat_gt_0)
  have "unat (b div cr * (cr + 1) + b mod cr) = unat (b div cr) * (unat cr + 1) + unat (b mod cr)"
    using chunk_bound [OF assms] lt by (simp add: unat_chunk_mult [OF assms] unat_add_u64)
  also have "\<dots> = nat_payload_index (unat b) (unat cr)"
    by (simp add: unat_div unat_mod nat_payload_index_def)
  finally show ?thesis
    using assms by (simp add: payload_index_def index_ok_def Let_def)
qed

lemma sector_bitmap_index_nat:
  assumes "index_ok b cr"
  shows "\<exists>idx. sector_bitmap_index b cr = Inr idx \<and> unat idx = nat_bitmap_index (unat b) (unat cr)"
proof -
  have "unat (b div cr * (cr + 1) + cr) = unat (b div cr) * (unat cr + 1) + unat cr"
    using chunk_bound [OF assms] by (simp add: unat_chunk_mult [OF assms] unat_add_u64)
  then show ?thesis
    using assms by (simp add: sector_bitmap_index_def nat_bitmap_index_def unat_div index_ok_def Let_def)
qed

lemma nat_payload_index_strict: "b < b' \<Longrightarrow> nat_payload_index b cr < nat_payload_index b' cr"
  by (simp add: nat_payload_index_def add_less_le_mono div_le_mono)

lemma nat_payload_index_inj: "nat_payload_index b cr = nat_payload_index b' cr \<longleftrightarrow> b = b'"
  by (metis nat_payload_index_strict linorder_neq_iff)

lemma nat_payload_index_mod:
  assumes "0 < cr"
  shows "nat_payload_index b cr = (b div cr) * (cr + 1) + b mod cr"
  by (simp add: nat_payload_index_def)

lemma nat_indices_disjoint:
  assumes "0 < cr"
  shows "nat_payload_index b cr \<noteq> nat_bitmap_index b' cr"
proof
  assume "nat_payload_index b cr = nat_bitmap_index b' cr"
  then have "(b div cr * (cr + 1) + b mod cr) mod (cr + 1) = (b' div cr * (cr + 1) + cr) mod (cr + 1)"
    using assms by (simp only: nat_payload_index_mod nat_bitmap_index_def)
  then have "b mod cr mod (cr + 1) = cr mod (cr + 1)"
    by (simp only: mod_mult_self3)
  then show False using mod_less_divisor [OF assms, of b] by simp
qed

lemma nat_bitmap_index_eq:
  "nat_bitmap_index b cr = nat_bitmap_index b' cr \<longleftrightarrow> b div cr = b' div cr"
  by (simp only: nat_bitmap_index_def add_right_cancel mult_cancel2) simp

text \<open>Every index of a block below \<open>block_count\<close> lies inside the table.\<close>

lemma total_bat_entries_nat:
  assumes "index_ok n cr" and "n \<noteq> 0"
  shows "total_bat_entries n cr has_parent = Inr
    (if has_parent then nat_bitmap_index (unat n - 1) (unat cr) + 1
     else nat_payload_index (unat n - 1) (unat cr) + 1)"
proof -
  let ?l = "n - 1"
  have l: "unat ?l = unat n - 1" using assms(2) by (simp add: unat_minus_one)
  then have ok: "index_ok ?l cr"
    using assms(1) by (simp add: index_ok_def less_imp_diff_less)
  have le: "unat (?l div cr) \<le> unat ?l" by (simp add: unat_div div_le_dividend)
  obtain i where i: "payload_index ?l cr = Inr i" "unat i = nat_payload_index (unat n - 1) (unat cr)"
    using payload_index_nat [OF ok] l by auto
  obtain j where j: "sector_bitmap_index ?l cr = Inr j" "unat j = nat_bitmap_index (unat n - 1) (unat cr)"
    using sector_bitmap_index_nat [OF ok] l by auto
  have i': "i = ?l div cr * (cr + 1) + ?l mod cr" and j': "j = ?l div cr * (cr + 1) + cr"
    using i(1) j(1) assms(1) by (simp_all add: payload_index_def sector_bitmap_index_def Let_def index_ok_def)
  have bnd: "nat_bitmap_index (unat n - 1) (unat cr) + 1 < 2 ^ 64"
    using chunk_bound [OF ok] le ok
    by (simp add: nat_bitmap_index_def unat_div l index_ok_def)
  have "nat_payload_index (unat n - 1) (unat cr) \<le> (unat n - 1) + (unat n - 1)"
    unfolding nat_payload_index_def by (rule add_left_mono) (rule div_le_dividend)
  also have "\<dots> < 2 ^ 62 + 2 ^ 62" using ok by (simp add: index_ok_def l)
  finally have "nat_payload_index (unat n - 1) (unat cr) + 1 < 2 ^ 64" by simp
  then have "unat (i + 1) = nat_payload_index (unat n - 1) (unat cr) + 1"
    using i(2) by (simp add: unat_add_u64)
  moreover have "unat (j + 1) = nat_bitmap_index (unat n - 1) (unat cr) + 1"
    using j(2) bnd by (simp add: unat_add_u64)
  moreover have "(?l div cr + 1) * (cr + 1) = j + 1"
    by (simp add: j' algebra_simps)
  ultimately show ?thesis
    using assms by (simp add: total_bat_entries_def Let_def index_ok_def i' del: One_nat_def)
qed

text \<open>
  C18 (index map): below 2^62 blocks, the payload indices of distinct blocks are distinct,
  a payload entry is never a bitmap entry, two blocks share a bitmap entry exactly when
  they are in the same chunk, and with \<open>total_bat_entries\<close> entries every index of a block
  below \<open>block_count\<close> is inside the table, with none to spare after the last one.
\<close>

theorem bat_index_map:
  assumes "index_ok n cr" and "a < n" and "b < n"
  shows "\<exists>pa pb sa sb total_p total_s.
    payload_index a cr = Inr pa \<and> payload_index b cr = Inr pb \<and>
    sector_bitmap_index a cr = Inr sa \<and> sector_bitmap_index b cr = Inr sb \<and>
    total_bat_entries n cr False = Inr total_p \<and> total_bat_entries n cr True = Inr total_s \<and>
    (pa = pb \<longleftrightarrow> a = b) \<and> pa \<noteq> sb \<and> (sa = sb \<longleftrightarrow> a div cr = b div cr) \<and>
    unat pa < total_p \<and> unat pa < total_s \<and> unat sa < total_s \<and>
    (a = n - 1 \<longrightarrow> total_p = unat pa + 1 \<and> total_s = unat sa + 1)"
proof -
  have lt: "unat a < unat n" "unat b < unat n" using assms(2,3) by (simp_all add: word_less_nat_alt)
  then have ok: "index_ok a cr" "index_ok b cr" using assms(1) by (auto simp: index_ok_def)
  have cr: "0 < unat cr" using assms(1) by (simp add: index_ok_def unat_gt_0)
  obtain pa pb where p: "payload_index a cr = Inr pa" "unat pa = nat_payload_index (unat a) (unat cr)"
    "payload_index b cr = Inr pb" "unat pb = nat_payload_index (unat b) (unat cr)"
    using payload_index_nat ok by blast
  obtain sa sb where s: "sector_bitmap_index a cr = Inr sa" "unat sa = nat_bitmap_index (unat a) (unat cr)"
    "sector_bitmap_index b cr = Inr sb" "unat sb = nat_bitmap_index (unat b) (unat cr)"
    using sector_bitmap_index_nat ok by blast
  have "n \<noteq> 0" using lt by auto
  note total = total_bat_entries_nat [OF assms(1) this]
  have le: "unat a \<le> unat n - 1" using lt(1) by simp
  let ?tp = "nat_payload_index (unat n - 1) (unat cr) + 1"
  let ?ts = "nat_bitmap_index (unat n - 1) (unat cr) + 1"
  have inj: "pa = pb \<longleftrightarrow> a = b"
    by (simp add: word_unat_eq_iff p(2,4) nat_payload_index_inj)
  have disj: "pa \<noteq> sb"
    using p(2) s(4) nat_indices_disjoint [OF cr] by metis
  have chunk: "sa = sb \<longleftrightarrow> a div cr = b div cr"
    by (simp add: word_unat_eq_iff s(2,4) nat_bitmap_index_eq unat_div)
  have pa: "unat pa < ?tp"
    using p(2) le by (simp add: nat_payload_index_def add_mono div_le_mono le_imp_less_Suc)
  have sa: "unat sa < ?ts"
    using s(2) div_le_mono [OF le, of "unat cr"]
    by (simp add: nat_bitmap_index_def add_mono mult_le_mono1 le_imp_less_Suc)
  have "unat pa < unat sa"
    using mod_less_divisor [OF cr, of "unat a"]
    by (simp only: p(2) s(2) nat_payload_index_mod [OF cr] nat_bitmap_index_def add_less_cancel_left)
  with sa have pas: "unat pa < ?ts" by simp
  have last: "a = n - 1 \<longrightarrow> ?tp = unat pa + 1 \<and> ?ts = unat sa + 1"
    using \<open>n \<noteq> 0\<close> p(2) s(2) by (simp add: unat_minus_one)
  have t: "total_bat_entries n cr False = Inr ?tp" "total_bat_entries n cr True = Inr ?ts"
    using total by simp_all
  show ?thesis
    by (rule exI [of _ pa], rule exI [of _ pb], rule exI [of _ sa], rule exI [of _ sb],
        rule exI [of _ ?tp], rule exI [of _ ?ts])
       (intro conjI; fact p(1) p(3) s(1) s(3) t inj disj chunk pa pas sa last)
qed

section \<open>The table as a map\<close>

text \<open>
  \<open>has t k\<close> says that the table has an entry for block \<open>k\<close>, \<open>same t j k\<close> that two blocks
  share their entry.  A run of updates leaves every entry as the last update of it made
  it, and the entries it does not touch as they were.
\<close>

fun update_all :: "('t \<Rightarrow> u64 \<Rightarrow> 'e \<Rightarrow> 't res) \<Rightarrow> (u64 \<times> 'e) list \<Rightarrow> 't \<Rightarrow> 't res" where
  "update_all update [] t = Inr t"
| "update_all update ((k, e) # kes) t = bindR (update t k e) (update_all update kes)"

locale entry_table =
  fixes lookup :: "'t \<Rightarrow> u64 \<Rightarrow> 'e option res"
    and update :: "'t \<Rightarrow> u64 \<Rightarrow> 'e \<Rightarrow> 't res"
    and has :: "'t \<Rightarrow> u64 \<Rightarrow> bool"
    and same :: "'t \<Rightarrow> u64 \<Rightarrow> u64 \<Rightarrow> bool"
  assumes update_ok: "has t k \<Longrightarrow> \<exists>t'. update t k e = Inr t'"
    and lookup_same: "has t j \<Longrightarrow> has t k \<Longrightarrow> same t j k \<Longrightarrow> update t k e = Inr t' \<Longrightarrow>
      lookup t' j = Inr (Some e)"
    and lookup_other: "has t j \<Longrightarrow> has t k \<Longrightarrow> \<not> same t j k \<Longrightarrow> update t k e = Inr t' \<Longrightarrow>
      lookup t' j = lookup t j"
    and has_update: "has t k \<Longrightarrow> update t k e = Inr t' \<Longrightarrow> has t' = has t \<and> same t' = same t"
begin

lemma update_all_ok:
  assumes "\<forall>(k, e) \<in> set kes. has t k"
  shows "\<exists>t'. update_all update kes t = Inr t' \<and> has t' = has t \<and> same t' = same t"
  using assms
proof (induction kes arbitrary: t)
  case Nil
  then show ?case by simp
next
  case (Cons ke kes)
  obtain k e where ke: "ke = (k, e)" by fastforce
  with Cons.prems have k: "has t k" by simp
  then obtain t1 where t1: "update t k e = Inr t1" using update_ok by blast
  note same = has_update [OF k t1]
  then obtain t' where "update_all update kes t1 = Inr t'" "has t' = has t1" "same t' = same t1"
    using Cons.prems Cons.IH [of t1] by auto
  with same t1 ke show ?case by simp
qed

lemma update_all_other:
  assumes "update_all update kes t = Inr t'" and "\<forall>(k, e) \<in> set kes. has t k" and "has t j"
    and "\<forall>(k, e) \<in> set kes. \<not> same t j k"
  shows "lookup t' j = lookup t j"
  using assms
proof (induction kes arbitrary: t)
  case Nil
  then show ?case by simp
next
  case (Cons ke kes)
  obtain k e where ke: "ke = (k, e)" by fastforce
  with Cons.prems have k: "has t k" "\<not> same t j k" by simp_all
  then obtain t1 where t1: "update t k e = Inr t1" using update_ok by blast
  note same = has_update [OF k(1) t1]
  have "lookup t' j = lookup t1 j"
    using Cons.prems ke same t1 by (intro Cons.IH) auto
  then show ?case using lookup_other [OF Cons.prems(3) k t1] by simp
qed

lemma update_all_lookup:
  assumes "update_all update (kes @ (k, e) # kes') t = Inr t'"
    and "\<forall>(i, x) \<in> set (kes @ (k, e) # kes'). has t i" and "has t j" and "same t j k"
    and "\<forall>(i, x) \<in> set kes'. \<not> same t j i"
  shows "lookup t' j = Inr (Some e)"
  using assms
proof (induction kes arbitrary: t)
  case Nil
  then have k: "has t k" by simp
  then obtain t1 where t1: "update t k e = Inr t1" using update_ok by blast
  note same = has_update [OF k t1]
  have "lookup t' j = lookup t1 j"
    using Nil.prems same t1 by (intro update_all_other [of kes']) auto
  then show ?case using lookup_same [OF Nil.prems(3) k Nil.prems(4) t1] by simp
next
  case (Cons ie kes)
  obtain i x where ie: "ie = (i, x)" by fastforce
  with Cons.prems have i: "has t i" by simp
  then obtain t1 where t1: "update t i x = Inr t1" using update_ok by blast
  note same = has_update [OF i t1]
  show ?case
    using Cons.prems ie same t1 by (intro Cons.IH [of t1]) auto
qed

end

definition has_payload :: "bat \<Rightarrow> u64 \<Rightarrow> bool" where
  "has_payload b k \<longleftrightarrow> index_ok k (bat_chunk_ratio b) \<and>
     nat_payload_index (unat k) (unat (bat_chunk_ratio b)) < length (bat_entries b)"

definition has_bitmap :: "bat \<Rightarrow> u64 \<Rightarrow> bool" where
  "has_bitmap b k \<longleftrightarrow> index_ok k (bat_chunk_ratio b) \<and>
     nat_bitmap_index (unat k) (unat (bat_chunk_ratio b)) < length (bat_entries b)"

lemma payload_entry_has:
  assumes "has_payload b k"
  shows "payload_entry b k = Inr (Some (bat_entries b ! nat_payload_index (unat k) (unat (bat_chunk_ratio b))))"
    and "set_payload_entry b k e = Inr (b\<lparr>bat_entries :=
      (bat_entries b)[nat_payload_index (unat k) (unat (bat_chunk_ratio b)) := e]\<rparr>)"
  using assms payload_index_nat [of k "bat_chunk_ratio b"]
  by (auto simp: has_payload_def payload_entry_def set_payload_entry_def entry_at_def set_entry_at_def)

lemma sector_bitmap_entry_has:
  assumes "has_bitmap b k"
  shows "sector_bitmap_entry b k =
      Inr (Some (bat_entries b ! nat_bitmap_index (unat k) (unat (bat_chunk_ratio b))))"
    and "set_sector_bitmap_entry b k e = Inr (b\<lparr>bat_entries :=
      (bat_entries b)[nat_bitmap_index (unat k) (unat (bat_chunk_ratio b)) := e]\<rparr>)"
  using assms sector_bitmap_index_nat [of k "bat_chunk_ratio b"]
  by (auto simp: has_bitmap_def sector_bitmap_entry_def set_sector_bitmap_entry_def entry_at_def set_entry_at_def)

interpretation payload_table: entry_table payload_entry set_payload_entry has_payload "\<lambda>b j k. j = k"
proof unfold_locales
  fix t t' :: bat and j k :: u64 and e :: bat_entry
  show "\<exists>t'. set_payload_entry t k e = Inr t'" if "has_payload t k"
    using that by (simp add: payload_entry_has)
  assume k: "has_payload t k" and u: "set_payload_entry t k e = Inr t'"
  then have t': "t' = t\<lparr>bat_entries :=
      (bat_entries t)[nat_payload_index (unat k) (unat (bat_chunk_ratio t)) := e]\<rparr>"
    by (simp add: payload_entry_has)
  then have h: "has_payload t' = has_payload t" by (simp add: has_payload_def fun_eq_iff)
  then show "has_payload t' = has_payload t \<and> (\<lambda>j k :: u64. j = k) = (\<lambda>j k. j = k)" by simp
  show "payload_entry t' j = Inr (Some e)" if "has_payload t j" "j = k"
    using that h k t' by (simp add: payload_entry_has has_payload_def)
  show "payload_entry t' j = payload_entry t j" if "has_payload t j" "j \<noteq> k"
    using that h k t' by (simp add: payload_entry_has nat_payload_index_inj word_unat_eq_iff)
qed

interpretation bitmap_table: entry_table sector_bitmap_entry set_sector_bitmap_entry has_bitmap
  "\<lambda>b j k. j div bat_chunk_ratio b = k div bat_chunk_ratio b"
proof unfold_locales
  fix t t' :: bat and j k :: u64 and e :: bat_entry
  show "\<exists>t'. set_sector_bitmap_entry t k e = Inr t'" if "has_bitmap t k"
    using that by (simp add: sector_bitmap_entry_has)
  assume k: "has_bitmap t k" and u: "set_sector_bitmap_entry t k e = Inr t'"
  then have t': "t' = t\<lparr>bat_entries :=
      (bat_entries t)[nat_bitmap_index (unat k) (unat (bat_chunk_ratio t)) := e]\<rparr>"
    by (simp add: sector_bitmap_entry_has)
  then have h: "has_bitmap t' = has_bitmap t" by (simp add: has_bitmap_def fun_eq_iff)
  with t' show "has_bitmap t' = has_bitmap t \<and>
      (\<lambda>j k. j div bat_chunk_ratio t' = k div bat_chunk_ratio t') =
      (\<lambda>j k. j div bat_chunk_ratio t = k div bat_chunk_ratio t)" by simp
  have eq: "j div bat_chunk_ratio t = k div bat_chunk_ratio t \<longleftrightarrow>
      nat_bitmap_index (unat j) (unat (bat_chunk_ratio t)) =
      nat_bitmap_index (unat k) (unat (bat_chunk_ratio t))"
    by (simp add: nat_bitmap_index_eq word_unat_eq_iff unat_div)
  show "sector_bitmap_entry t' j = Inr (Some e)"
    if "has_bitmap t j" "j div bat_chunk_ratio t = k div bat_chunk_ratio t"
    using that h k t' eq by (simp add: sector_bitmap_entry_has has_bitmap_def)
  show "sector_bitmap_entry t' j = sector_bitmap_entry t j"
    if "has_bitmap t j" "j div bat_chunk_ratio t \<noteq> k div bat_chunk_ratio t"
    using that h k t' eq by (simp add: sector_bitmap_entry_has)
qed

lemma payload_update_keeps_bitmap:
  assumes "has_payload b k" and "has_bitmap b j" and "set_payload_entry b k e = Inr b'"
  shows "sector_bitmap_entry b' j = sector_bitmap_entry b j" and "has_bitmap b' j"
proof -
  have "unat (bat_chunk_ratio b) \<noteq> 0" using assms(1) by (simp add: has_payload_def index_ok_def unat_eq_zero)
  then have ne: "nat_payload_index (unat k) (unat (bat_chunk_ratio b)) \<noteq>
      nat_bitmap_index (unat j) (unat (bat_chunk_ratio b))"
    by (intro nat_indices_disjoint) simp
  have b': "b' = b\<lparr>bat_entries :=
      (bat_entries b)[nat_payload_index (unat k) (unat (bat_chunk_ratio b)) := e]\<rparr>"
    using assms(1,3) by (simp add: payload_entry_has)
  then show h: "has_bitmap b' j" using assms(2) by (simp add: has_bitmap_def)
  show "sector_bitmap_entry b' j = sector_bitmap_entry b j"
    using h assms(2) ne by (simp add: sector_bitmap_entry_has b')
qed

text \<open>
  C20 (payload update): an update of a payload entry succeeds for every block the table
  has, is what a later lookup of the block finds, and changes the lookup of no other
  block and of no sector bitmap.
\<close>

theorem payload_update_is_local:
  assumes "has_payload b k" and "has_payload b j" and "has_bitmap b c"
  shows "\<exists>b'. set_payload_entry b k e = Inr b' \<and>
    payload_entry b' j = (if j = k then Inr (Some e) else payload_entry b j) \<and>
    sector_bitmap_entry b' c = sector_bitmap_entry b c"
proof -
  obtain b' where b': "set_payload_entry b k e = Inr b'"
    using payload_table.update_ok [OF assms(1)] by blast
  have "payload_entry b' j = (if j = k then Inr (Some e) else payload_entry b j)"
    using payload_table.lookup_same [OF assms(2,1) _ b'] payload_table.lookup_other [OF assms(2,1) _ b']
    by simp
  with b' payload_update_keeps_bitmap [OF assms(1,3) b'] show ?thesis by blast
qed

section \<open>Parsing what was encoded\<close>

lemma Bat_encode_table: "Bat_encode b = concat (map write_u64 (map entry_raw (bat_entries b)))"
  by (simp add: Bat_encode_def comp_def)

lemma length_Bat_encode [simp]: "length (Bat_encode b) = length (bat_entries b) * 8"
  by (simp only: Bat_encode_table u64_codec.table_length length_map)

lemma bat_roundtrip_parse:
  assumes "total_bat_entries (bat_block_count b) (bat_chunk_ratio b) has_parent =
    Inr (length (bat_entries b))"
  shows "Bat_parse (Bat_encode b @ padding) (bat_block_count b) (bat_chunk_ratio b) has_parent = Inr b"
proof -
  let ?n = "length (bat_entries b)"
  have "map (\<lambda>i. read_u64 (bslice (Bat_encode b @ padding) (i * 8) (i * 8 + 8))) [0..<?n]
      = map entry_raw (bat_entries b)"
    using u64_codec.table_entries [of ?n "map entry_raw (bat_entries b)" padding]
    by (simp only: Bat_encode_table) simp
  then have "map BatEntry (map (\<lambda>i. read_u64 (bslice (Bat_encode b @ padding) (i * 8) (i * 8 + 8))) [0..<?n])
      = bat_entries b"
    by (simp only: map_map comp_def bat_entry.collapse list.map_ident)
  moreover have "min ?n (length (Bat_encode b @ padding) div 8) = ?n" by simp
  ultimately show ?thesis
    by (simp add: Bat_parse_def assms Let_def comp_def)
qed

text \<open>
  Table round trip: a table with the number of entries its geometry calls for is
  read back unchanged from its encoding, whatever padding of the region follows it.
\<close>

lemma bat_roundtrip:
  assumes "total_bat_entries (bat_block_count b) (bat_chunk_ratio b) has_parent =
    Inr (length (bat_entries b))"
  shows "Bat_parse (Bat_encode b @ padding) (bat_block_count b) (bat_chunk_ratio b) has_parent = Inr b"
  using assms by (rule bat_roundtrip_parse)

section \<open>Concrete instances\<close>

definition sample_bat :: bat where
  "sample_bat = \<lparr>bat_entries = replicate 6 BatEntry_empty, bat_chunk_ratio = 2, bat_block_count = 4\<rparr>"

lemma sample_bat_has:
  "has_payload sample_bat 0" "has_payload sample_bat 3" "has_bitmap sample_bat 0" "has_bitmap sample_bat 3"
  by (simp_all add: sample_bat_def has_payload_def has_bitmap_def index_ok_def nat_payload_index_def
      nat_bitmap_index_def)

theorem bat_entry_roundtrip_witness:
  "entry_state (BatEntry_new 6 5242880) = 6 \<and> entry_file_offset (BatEntry_new 6 5242880) = 5242880"
  using bat_entry_roundtrip [of 6 5242880] by simp

theorem bat_index_map_witness:
  "\<exists>pa sb total. payload_index 2048 2048 = Inr pa \<and> sector_bitmap_index 2047 2048 = Inr sb \<and>
    total_bat_entries 2049 2048 False = Inr total \<and> pa \<noteq> sb \<and> unat pa < total"
  using bat_index_map [of 2049 2048 2048 2047] by (auto simp: index_ok_def)

theorem payload_update_is_local_witness:
  "\<exists>b'. set_payload_entry sample_bat 3 (BatEntry_new 6 1048576) = Inr b' \<and>
    payload_entry b' 3 = Inr (Some (BatEntry_new 6 1048576)) \<and>
    sector_bitmap_entry b' 0 = sector_bitmap_entry sample_bat 0"
  using payload_update_is_local [OF sample_bat_has(2) sample_bat_has(2) sample_bat_has(3)] by simp

theorem bat_roundtrip_witness:
  "Bat_parse (Bat_encode sample_bat @ [0, 0, 0]) 4 2 True = Inr sample_bat"
proof -
  have "total_bat_entries (bat_block_count sample_bat) (bat_chunk_ratio sample_bat) True =
      Inr (length (bat_entries sample_bat))"
    by (simp add: sample_bat_def total_bat_entries_def Let_def)
  from bat_roundtrip [OF this, of "[0, 0, 0]"] show ?thesis by (simp add: sample_bat_def)
qed

end
