(* ===== verification/Vhdx_Parent_Locator.thy ===== *)
theory Vhdx_Parent_Locator
  imports Vhdx_Format
begin

text \<open>
  \<open>parent_locator.rs\<close>: the metadata item a differencing file names its parent with, a
  table of key and value strings stored in UTF-16.  A Rust string is a list of Unicode
  scalar values; \<open>str::encode_utf16\<close> and \<open>String::from_utf16\<close> are written out with their
  surrogate pairs.
\<close>

section \<open>UTF-16\<close>

definition valid_scalar :: "nat \<Rightarrow> bool" where
  "valid_scalar c \<longleftrightarrow> c < 0xD800 \<or> 0xE000 \<le> c \<and> c < 0x110000"

fun utf16_units :: "rstring \<Rightarrow> u16 list" where
  "utf16_units [] = []"
| "utf16_units (c # cs) =
    (if c < 0x10000 then word_of_nat c # utf16_units cs
     else word_of_nat (0xD800 + (c - 0x10000) div 1024)
       # word_of_nat (0xDC00 + (c - 0x10000) mod 1024) # utf16_units cs)"

fun from_utf16 :: "u16 list \<Rightarrow> rstring option" where
  "from_utf16 [] = Some []"
| "from_utf16 [u] = (if 0xD800 \<le> unat u \<and> unat u < 0xE000 then None else Some [unat u])"
| "from_utf16 (u # v # us) =
    (if \<not> (0xD800 \<le> unat u \<and> unat u < 0xE000) then map_option ((#) (unat u)) (from_utf16 (v # us))
     else if unat u < 0xDC00 \<and> 0xDC00 \<le> unat v \<and> unat v < 0xE000
     then map_option ((#) (0x10000 + (unat u - 0xD800) * 1024 + (unat v - 0xDC00))) (from_utf16 us)
     else None)"

definition encode_utf16 :: "rstring \<Rightarrow> bytes" where
  "encode_utf16 s = concat (map write_u16 (utf16_units s))"

definition decode_utf16 :: "bytes \<Rightarrow> nat \<Rightarrow> nat \<Rightarrow> rstring res" where
  "decode_utf16 buf off n =
    (if off + n > length buf then Inl (InvalidStructure ''parent locator string out of bounds'')
     else if n mod 2 \<noteq> 0 then Inl (InvalidStructure ''parent locator string has odd length'')
     else ok_or
       (from_utf16 (map (\<lambda>i. read_u16 (bslice buf (off + i * 2) (off + i * 2 + 2))) [0..<n div 2]))
       (InvalidStructure ''invalid UTF-16 in parent locator''))"

section \<open>The locator\<close>

record parent_locator =
  locator_type :: uuid
  locator_entries :: "(rstring \<times> rstring) list"

text \<open>\<open>locator_rows buf i n\<close> reads the entries \<open>i\<close>, \<dots>, \<open>i + n - 1\<close> of the table.\<close>

fun locator_rows :: "bytes \<Rightarrow> nat \<Rightarrow> nat \<Rightarrow> (rstring \<times> rstring) list res" where
  "locator_rows buf i 0 = Inr []"
| "locator_rows buf i (Suc n) =
    (let off = 20 + i * 12 in
     if off + 12 > length buf then Inr []
     else
       let key_off = unat (read_u32 (bslice buf off (off + 4)));
           val_off = unat (read_u32 (bslice buf (off + 4) (off + 8)));
           key_len = unat (read_u16 (bslice buf (off + 8) (off + 10)));
           val_len = unat (read_u16 (bslice buf (off + 10) (off + 12))) in
       bindR (decode_utf16 buf key_off key_len) (\<lambda>key.
       bindR (decode_utf16 buf val_off val_len) (\<lambda>val.
       bindR (locator_rows buf (Suc i) n) (\<lambda>rows. Inr ((key, val) # rows)))))"

definition ParentLocator_parse :: "externs \<Rightarrow> bytes \<Rightarrow> parent_locator res" where
  "ParentLocator_parse E buf =
    (if length buf < 20 then Inl (InvalidStructure ''parent locator too small'')
     else
       let ty = read_guid_at E buf 0; count = unat (read_u16 (bslice buf 18 20)) in
       bindR (locator_rows buf 0 count) (\<lambda>rows.
       Inr \<lparr>locator_type = ty, locator_entries = rows\<rparr>))"

text \<open>
  The strings are appended to a tail that is kept 8-byte aligned; the table holds their
  offsets (a u32 sum) and lengths (truncated to u16).
\<close>

definition pad8 :: "bytes \<Rightarrow> bytes" where
  "pad8 t = t @ replicate ((8 - length t mod 8) mod 8) 0"

fun locator_tail ::
    "u32 \<Rightarrow> bytes \<Rightarrow> (rstring \<times> rstring) list \<Rightarrow> (u32 \<times> u32 \<times> u16 \<times> u16) list \<times> bytes" where
  "locator_tail table_base tail [] = ([], tail)"
| "locator_tail table_base tail ((k, v) # es) =
    (let kb = encode_utf16 k;
         kbo = table_base + word_of_nat (length tail);
         tail1 = pad8 (tail @ kb);
         vb = encode_utf16 v;
         vbo = table_base + word_of_nat (length tail1);
         rest = locator_tail table_base (pad8 (tail1 @ vb)) es
     in ((kbo, vbo, word_of_nat (length kb), word_of_nat (length vb)) # fst rest, snd rest))"

fun encode_row :: "u32 \<times> u32 \<times> u16 \<times> u16 \<Rightarrow> bytes" where
  "encode_row (ko, vo, kl, vl) = write_u32 ko @ write_u32 vo @ write_u16 kl @ write_u16 vl"

definition ParentLocator_encode :: "externs \<Rightarrow> parent_locator \<Rightarrow> bytes" where
  "ParentLocator_encode E pl =
    (let count = length (locator_entries pl);
         table_size = 20 + count * 12;
         (offsets, tail) = locator_tail (word_of_nat table_size) [] (locator_entries pl);
         out = replicate (table_size + length tail) 0;
         out = write_guid_at E 0 (locator_type pl) out;
         out = bput 18 (write_u16 (word_of_nat count)) out;
         out = bput 20 (concat (map encode_row offsets)) out
     in bput table_size tail out)"

definition is_vhdx_parent :: "parent_locator \<Rightarrow> bool" where
  "is_vhdx_parent pl = (locator_type pl = PARENT_LOCATOR_TYPE_VHDX)"

definition locator_get :: "parent_locator \<Rightarrow> rstring \<Rightarrow> rstring option" where
  "locator_get pl key = map_option snd (List.find (\<lambda>e. fst e = key) (locator_entries pl))"

definition trim_start_matches :: "nat \<Rightarrow> rstring \<Rightarrow> rstring" where
  "trim_start_matches c s = dropWhile (\<lambda>x. x = c) s"

definition trim_end_matches :: "nat \<Rightarrow> rstring \<Rightarrow> rstring" where
  "trim_end_matches c s = rev (dropWhile (\<lambda>x. x = c) (rev s))"

definition parse_linkage :: "externs \<Rightarrow> rstring \<Rightarrow> uuid option" where
  "parse_linkage E s = uuid_parse_str E (trim_end_matches 125 (trim_start_matches 123 s))"

definition parent_linkage :: "externs \<Rightarrow> parent_locator \<Rightarrow> uuid option" where
  "parent_linkage E pl = Option.bind (locator_get pl KEY_PARENT_LINKAGE) (parse_linkage E)"

definition parent_linkage2 :: "externs \<Rightarrow> parent_locator \<Rightarrow> uuid option" where
  "parent_linkage2 E pl = Option.bind (locator_get pl KEY_PARENT_LINKAGE2) (parse_linkage E)"

definition relative_path :: "parent_locator \<Rightarrow> rstring option" where
  "relative_path pl = locator_get pl KEY_RELATIVE_PATH"

definition volume_path :: "parent_locator \<Rightarrow> rstring option" where
  "volume_path pl = locator_get pl KEY_VOLUME_PATH"

definition absolute_win32_path :: "parent_locator \<Rightarrow> rstring option" where
  "absolute_win32_path pl = locator_get pl KEY_ABSOLUTE_WIN32_PATH"

definition new_vhdx_relative :: "externs \<Rightarrow> rstring \<Rightarrow> uuid \<Rightarrow> parent_locator" where
  "new_vhdx_relative E relative parent_data_write_guid =
    (let linkage = 123 # uuid_to_string E parent_data_write_guid @ [125] in
     \<lparr>locator_type = PARENT_LOCATOR_TYPE_VHDX,
      locator_entries = [(KEY_PARENT_LINKAGE, linkage), (KEY_RELATIVE_PATH, relative)]\<rparr>)"

section \<open>Strings\<close>

lemma from_utf16_single:
  "\<not> (0xD800 \<le> unat u \<and> unat u < 0xE000) \<Longrightarrow>
    from_utf16 (u # us) = map_option ((#) (unat u)) (from_utf16 us)"
  by (cases us) auto

lemma from_utf16_units:
  "list_all valid_scalar s \<Longrightarrow> from_utf16 (utf16_units s) = Some s"
proof (induction s)
  case Nil
  then show ?case by simp
next
  case (Cons c cs)
  show ?case
  proof (cases "c < 0x10000")
    case True
    then have "unat (word_of_nat c :: u16) = c" by (simp add: unat_of_nat_u16)
    with True Cons show ?thesis
      using from_utf16_single [of "word_of_nat c" "utf16_units cs"]
      by (auto simp: valid_scalar_def)
  next
    case False
    define h where "h = (c - 0x10000) div 1024"
    define l where "l = (c - 0x10000) mod 1024"
    have c: "0x10000 + h * 1024 + l = c"
      using False div_mult_mod_eq [of "c - 0x10000" 1024] by (simp add: h_def l_def)
    have hl: "h < 1024" "l < 1024"
      using False Cons.prems by (auto simp: h_def l_def valid_scalar_def less_mult_imp_div_less)
    have u: "unat (word_of_nat (0xD800 + h) :: u16) = 0xD800 + h"
        "unat (word_of_nat (0xDC00 + l) :: u16) = 0xDC00 + l"
      using hl by (simp_all only: unat_of_nat_u16)
    have "utf16_units (c # cs) = word_of_nat (0xD800 + h) # word_of_nat (0xDC00 + l) # utf16_units cs"
      using False by (simp add: h_def l_def)
    moreover have "from_utf16 (utf16_units cs) = Some cs"
      using Cons by simp
    ultimately show ?thesis
      using hl c by (simp only: from_utf16.simps u) simp
  qed
qed

lemma length_encode_utf16: "length (encode_utf16 s) = 2 * length (utf16_units s)"
  by (simp add: encode_utf16_def u16_codec.table_length)

lemma decode_encode_utf16:
  assumes "list_all valid_scalar s" and "off + n \<le> length buf" and "n = length (encode_utf16 s)"
    and "bslice buf off (off + n) = encode_utf16 s"
  shows "decode_utf16 buf off n = Inr s"
proof -
  have "map (\<lambda>i. read_u16 (bslice buf (off + i * 2) (off + i * 2 + 2))) [0..<n div 2] =
      map (\<lambda>i. read_u16 (bslice (encode_utf16 s @ []) (i * 2) (i * 2 + 2))) [0..<n div 2]"
  proof (rule map_cong [OF refl])
    fix i assume "i \<in> set [0..<n div 2]"
    then have "i * 2 + 2 \<le> n" by auto
    then have "bslice (bslice buf off (off + n)) (i * 2) (i * 2 + 2) =
        bslice buf (off + i * 2) (off + i * 2 + 2)"
      by (simp add: slice_slice add.assoc)
    with assms(4) show "read_u16 (bslice buf (off + i * 2) (off + i * 2 + 2)) =
        read_u16 (bslice (encode_utf16 s @ []) (i * 2) (i * 2 + 2))"
      by simp
  qed
  also have "\<dots> = take (n div 2) (utf16_units s)"
    unfolding encode_utf16_def
    by (rule u16_codec.table_entries) (use assms(3) in \<open>simp add: length_encode_utf16\<close>)
  also have "\<dots> = utf16_units s"
    using assms(3) by (simp add: length_encode_utf16)
  finally show ?thesis
    using assms by (simp add: decode_utf16_def from_utf16_units length_encode_utf16)
qed

section \<open>The table and its tail\<close>

lemma pad8_prefix: "\<exists>z. pad8 t = t @ z"
  by (simp add: pad8_def)

lemma length_pad8: "length t \<le> length (pad8 t)"
  by (simp add: pad8_def)

lemma locator_tail_prefix: "\<exists>z. snd (locator_tail base tail es) = tail @ z"
proof (induction es arbitrary: tail)
  case Nil
  then show ?case by simp
next
  case (Cons e es)
  obtain k v where e: "e = (k, v)" by fastforce
  obtain z1 z2 z3 where "pad8 (tail @ encode_utf16 k) = (tail @ encode_utf16 k) @ z1"
      "pad8 (pad8 (tail @ encode_utf16 k) @ encode_utf16 v) =
         (pad8 (tail @ encode_utf16 k) @ encode_utf16 v) @ z2"
      "snd (locator_tail base (pad8 (pad8 (tail @ encode_utf16 k) @ encode_utf16 v)) es) =
         pad8 (pad8 (tail @ encode_utf16 k) @ encode_utf16 v) @ z3"
    using pad8_prefix Cons.IH by metis
  then show ?case by (simp add: e Let_def)
qed

lemma length_locator_tail [simp]: "length (fst (locator_tail base tail es)) = length es"
  by (induction base tail es rule: locator_tail.induct) (simp_all add: Let_def)

text \<open>Where a row of the table points, relative to the start of the tail.\<close>

definition points_to :: "nat \<Rightarrow> bytes \<Rightarrow> rstring \<Rightarrow> u32 \<Rightarrow> u16 \<Rightarrow> bool" where
  "points_to base t s off n \<longleftrightarrow>
    (\<exists>o'. unat off = base + o' \<and> unat n = length (encode_utf16 s) \<and> o' + unat n \<le> length t \<and>
      bslice t o' (o' + unat n) = encode_utf16 s)"

lemma points_to_intro:
  assumes "t = pre @ encode_utf16 s @ post" and "unat base + length t < 4294967296"
    and "length (encode_utf16 s) < 65536"
  shows "points_to (unat base) t s (base + word_of_nat (length pre)) (word_of_nat (length (encode_utf16 s)))"
proof -
  have "unat (word_of_nat (length pre) :: u32) = length pre"
    using assms(1,2) by (simp add: unat_of_nat)
  then have "unat (base + word_of_nat (length pre)) = unat base + length pre"
    using assms(1,2) by (simp add: unat_word_ariths)
  then show ?thesis
    using assms by (auto simp: points_to_def unat_of_nat_u16 bslice_def)
qed

definition locator_rows_ok :: "nat \<Rightarrow> bytes \<Rightarrow> rstring \<times> rstring \<Rightarrow> u32 \<times> u32 \<times> u16 \<times> u16 \<Rightarrow> bool" where
  "locator_rows_ok base t = (\<lambda>(k, v) (ko, vo, kl, vl). points_to base t k ko kl \<and> points_to base t v vo vl)"

definition encodable :: "rstring \<Rightarrow> bool" where
  "encodable s \<longleftrightarrow> list_all valid_scalar s \<and> length (encode_utf16 s) < 65536"

lemma locator_tail_points:
  assumes "list_all (\<lambda>(k, v). encodable k \<and> encodable v) es"
    and "t = snd (locator_tail base tail es)" and "unat base + length t < 4294967296"
  shows "list_all2 (locator_rows_ok (unat base) t) es (fst (locator_tail base tail es))"
  using assms
proof (induction es arbitrary: tail)
  case Nil
  then show ?case by simp
next
  case (Cons e es)
  obtain k v where e: "e = (k, v)" by fastforce
  define tail1 where "tail1 = pad8 (tail @ encode_utf16 k)"
  define tail2 where "tail2 = pad8 (tail1 @ encode_utf16 v)"
  obtain z1 z2 z3 where z: "tail1 = tail @ encode_utf16 k @ z1" "tail2 = tail1 @ encode_utf16 v @ z2"
      "snd (locator_tail base tail2 es) = tail2 @ z3"
    using pad8_prefix [of "tail @ encode_utf16 k"] pad8_prefix [of "tail1 @ encode_utf16 v"]
      locator_tail_prefix [of base tail2 es] by (auto simp: tail1_def tail2_def)
  have t: "t = snd (locator_tail base tail2 es)"
    using Cons.prems(2) by (simp add: e Let_def tail1_def tail2_def)
  have tv: "t = tail1 @ encode_utf16 v @ z2 @ z3"
    using trans [OF t z(3)] by (simp only: z(2) append_assoc)
  have tk: "t = tail @ encode_utf16 k @ z1 @ encode_utf16 v @ z2 @ z3"
    by (simp only: tv z(1) append_assoc)
  have kv: "length (encode_utf16 k) < 65536" "length (encode_utf16 v) < 65536"
    using Cons.prems(1) by (simp_all add: e encodable_def)
  note points_to_intro [OF tk Cons.prems(3) kv(1)] points_to_intro [OF tv Cons.prems(3) kv(2)]
  moreover have "list_all2 (locator_rows_ok (unat base) t) es (fst (locator_tail base tail2 es))"
    using Cons.prems t by (intro Cons.IH) auto
  ultimately show ?case
    by (simp add: e Let_def locator_rows_ok_def tail1_def tail2_def)
qed

section \<open>Round trip\<close>

lemma length_encode_row [simp]: "length (encode_row r) = 12"
  by (cases r rule: encode_row.cases) simp

text \<open>The four fields of a row, as the parser slices them.\<close>

fun decode_row :: "bytes \<Rightarrow> u32 \<times> u32 \<times> u16 \<times> u16" where
  "decode_row bs = (read_u32 (bslice bs 0 4), read_u32 (bslice bs 4 8),
     read_u16 (bslice bs 8 10), read_u16 (bslice bs 10 12))"

interpretation row_codec: fixed_codec encode_row decode_row 12
proof unfold_locales
  show "decode_row (encode_row r) = r" for r
    by (cases r rule: encode_row.cases) (simp add: bslice_def)
qed simp

lemma locator_rows_step:
  assumes "20 + i * 12 + 12 \<le> length buf"
    and "decode_row (bslice buf (20 + i * 12) (20 + i * 12 + 12)) = (ko, vo, kl, vl)"
  shows "locator_rows buf i (Suc n) =
    bindR (decode_utf16 buf (unat ko) (unat kl)) (\<lambda>key.
    bindR (decode_utf16 buf (unat vo) (unat vl)) (\<lambda>val.
    bindR (locator_rows buf (Suc i) n) (\<lambda>rows. Inr ((key, val) # rows))))"
  using assms by (simp add: slice_slice Let_def add.assoc)

lemma locator_rows_ok:
  assumes "list_all2 (locator_rows_ok (length pre) t) es rows"
    and "list_all (\<lambda>(k, v). encodable k \<and> encodable v) es"
    and "\<And>j. j < length rows \<Longrightarrow>
      decode_row (bslice (pre @ t) (20 + (i + j) * 12) (20 + (i + j) * 12 + 12)) = rows ! j"
    and "20 + (i + length rows) * 12 \<le> length pre"
  shows "locator_rows (pre @ t) i (length rows) = Inr es"
  using assms
proof (induction es rows arbitrary: i rule: list_all2_induct)
  case Nil
  then show ?case by simp
next
  case (Cons e es r rows)
  obtain k v where e: "e = (k, v)" by fastforce
  obtain ko vo kl vl where r: "r = (ko, vo, kl, vl)" by (cases r) auto
  have row: "decode_row (bslice (pre @ t) (20 + i * 12) (20 + i * 12 + 12)) = (ko, vo, kl, vl)"
    using Cons.prems(2) [of 0] by (simp add: r del: decode_row.simps)
  have str: "decode_utf16 (pre @ t) (unat off) (unat n) = Inr s"
    if "points_to (length pre) t s off n" "encodable s" for s off n
  proof -
    obtain o' where o: "unat off = length pre + o'" "unat n = length (encode_utf16 s)"
        "o' + unat n \<le> length t" "bslice t o' (o' + unat n) = encode_utf16 s"
      using \<open>points_to (length pre) t s off n\<close> by (auto simp: points_to_def)
    then have "bslice (pre @ t) (unat off) (unat off + unat n) = encode_utf16 s"
      by (simp add: slice_append_right)
    then show ?thesis
      using o \<open>encodable s\<close> by (intro decode_encode_utf16) (auto simp: encodable_def)
  qed
  have "locator_rows (pre @ t) (Suc i) (length rows) = Inr es"
    using Cons.prems(1,3) Cons.prems(2) [of "Suc _"] by (intro Cons.IH) (auto simp del: decode_row.simps)
  moreover have "20 + i * 12 + 12 \<le> length (pre @ t)"
    using Cons.prems(3) by simp
  moreover have "decode_utf16 (pre @ t) (unat ko) (unat kl) = Inr k"
      "decode_utf16 (pre @ t) (unat vo) (unat vl) = Inr v"
    using str Cons.hyps(1) Cons.prems(1) by (simp_all add: e r locator_rows_ok_def)
  ultimately show ?case
    by (simp only: e r length_Cons locator_rows_step [OF _ row] bindR_simps)
qed

lemma ParentLocator_encode_layout:
  assumes "uuid_laws E"
  shows "ParentLocator_encode E pl =
    (write_guid E (locator_type pl) @ [0, 0] @ write_u16 (word_of_nat (length (locator_entries pl)))
      @ concat (map encode_row (fst (locator_tail (word_of_nat (20 + length (locator_entries pl) * 12)) [] (locator_entries pl)))))
      @ snd (locator_tail (word_of_nat (20 + length (locator_entries pl) * 12)) [] (locator_entries pl))"
proof -
  have zeros: "drop n (replicate m (0 :: u8)) = replicate (m - n) 0" for n m by simp
  have four: "replicate (4 + k) (0 :: u8) = 0 # 0 # replicate (2 + k) 0" for k
    by (simp add: numeral_eq_Suc)
  let ?es = "locator_entries pl"
  let ?b = "word_of_nat (20 + length ?es * 12) :: u32"
  let ?rows = "concat (map encode_row (fst (locator_tail ?b [] ?es)))"
  let ?t = "snd (locator_tail ?b [] ?es)"
  define n where "n = length ?es * 12"
  have rows: "length ?rows = n"
    by (simp add: row_codec.table_length n_def)
  define m where "m = length ?t"
  have guid: "write_guid_at E 0 (locator_type pl) (replicate (20 + n + m) 0) =
      write_guid E (locator_type pl) @ [0, 0] @ replicate (2 + n + m) 0"
    using assms by (simp add: write_guid_at_def bput_def write_guid_simps zeros four [of "n + m", simplified])
  have cnt: "bput 18 c (write_guid E (locator_type pl) @ [0, 0] @ replicate (2 + n + m) 0) =
      (write_guid E (locator_type pl) @ [0, 0] @ c) @ replicate (n + m) 0" if "length c = 2" for c
    using assms that by (simp add: bput_def write_guid_simps)
  have tab: "bput 20 r ((write_guid E (locator_type pl) @ [0, 0] @ c) @ replicate (n + m) 0) =
      (write_guid E (locator_type pl) @ [0, 0] @ c @ r) @ replicate m 0"
    if "length c = 2" "length r = n" for c r
    using assms that by (subst put_append) (simp_all add: write_guid_simps)
  have tl: "bput (20 + n) x ((write_guid E (locator_type pl) @ [0, 0] @ c @ r) @ replicate m 0) =
      (write_guid E (locator_type pl) @ [0, 0] @ c @ r) @ x"
    if "length c = 2" "length r = n" "length x = m" for c r x
    using assms that by (subst put_append) (simp_all add: write_guid_simps)
  have "ParentLocator_encode E pl =
      bput (20 + n) ?t (bput 20 ?rows (bput 18 (write_u16 (word_of_nat (length ?es)))
        (write_guid_at E 0 (locator_type pl) (replicate (20 + n + m) 0))))"
    unfolding ParentLocator_encode_def Let_def prod.case_eq_if n_def m_def ..
  then show ?thesis
    by (simp only: guid cnt [OF u16_codec.enc_width] tab [OF u16_codec.enc_width rows]
        tl [OF u16_codec.enc_width rows m_def [symmetric]])
qed

lemma parent_locator_roundtrip_parse:
  assumes "uuid_laws E"
    and "list_all (\<lambda>(k, v). encodable k \<and> encodable v) (locator_entries pl)"
    and "length (locator_entries pl) < 65536"
    and "length (ParentLocator_encode E pl) < 4294967296"
  shows "ParentLocator_parse E (ParentLocator_encode E pl) = Inr pl"
proof -
  let ?es = "locator_entries pl"
  define n where "n = length ?es"
  define b :: u32 where "b = word_of_nat (20 + n * 12)"
  define rows where "rows = fst (locator_tail b [] ?es)"
  define t where "t = snd (locator_tail b [] ?es)"
  define cnt :: u16 where "cnt = word_of_nat n"
  define pre where "pre = write_guid E (locator_type pl) @ [0, 0] @ write_u16 cnt
    @ concat (map encode_row rows)"
  have enc: "ParentLocator_encode E pl = pre @ t"
    unfolding ParentLocator_encode_layout [OF assms(1)] pre_def rows_def t_def b_def n_def cnt_def ..
  have len_rows: "length rows = n" by (simp add: rows_def n_def)
  have len_pre: "length pre = 20 + n * 12"
    using assms(1) by (simp add: pre_def write_guid_simps row_codec.table_length len_rows)
  have b: "unat b = length pre"
    unfolding b_def len_pre by (rule unat_of_nat_u32) (use assms(4) in \<open>simp add: enc len_pre\<close>)
  have "list_all2 (locator_rows_ok (length pre) t) ?es rows"
    using locator_tail_points [OF assms(2), of t b "[]"] assms(4)
    by (simp add: enc b t_def rows_def)
  moreover have "decode_row (bslice (pre @ t) (20 + (0 + j) * 12) (20 + (0 + j) * 12 + 12)) = rows ! j"
    if "j < length rows" for j
  proof -
    have "bslice (pre @ t) (20 + j * 12) (20 + j * 12 + 12) =
        bslice (concat (map encode_row rows) @ t) (j * 12) (j * 12 + 12)"
      using assms(1) slice_append_right [of "write_guid E (locator_type pl) @ [0, 0] @ write_u16 cnt"
        "20 + j * 12" "concat (map encode_row rows) @ t" "20 + j * 12 + 12"]
      by (simp add: pre_def write_guid_simps add.commute)
    also have "\<dots> = encode_row (rows ! j)"
      by (rule row_codec.table_entry [OF that])
    finally show ?thesis by (simp only: row_codec.dec_enc add_0)
  qed
  ultimately have "locator_rows (pre @ t) 0 (length rows) = Inr ?es"
    using assms(2) by (intro locator_rows_ok) (simp_all add: len_rows len_pre del: decode_row.simps)
  moreover have "bslice (pre @ t) 18 20 = write_u16 cnt"
    using assms(1) by (simp add: pre_def bslice_def write_guid_simps)
  moreover have "unat cnt = length rows"
    using assms(3) by (simp add: cnt_def len_rows n_def unat_of_nat_u16)
  moreover have "read_guid_at E (pre @ t) 0 = locator_type pl"
    using assms(1) by (simp add: read_guid_at_def pre_def bslice_def write_guid_simps)
  moreover have "\<not> length (pre @ t) < 20" by (simp add: len_pre)
  ultimately show ?thesis
    by (simp add: enc ParentLocator_parse_def del: length_append)
qed

text \<open>
  C23 (parent locator round trip): parsing an encoded parent locator gives back its type
  and all its entries in order, whatever Unicode text they hold (surrogate pairs
  included), as long as every string encodes to fewer than 2^16 bytes, there are fewer
  than 2^16 entries and the item stays below 4 GiB.
\<close>

theorem parent_locator_roundtrip:
  assumes "uuid_laws E"
    and "list_all (\<lambda>(k, v). encodable k \<and> encodable v) (locator_entries pl)"
    and "length (locator_entries pl) < 65536"
    and "length (ParentLocator_encode E pl) < 4294967296"
  shows "ParentLocator_parse E (ParentLocator_encode E pl) = Inr pl"
  using assms by (rule parent_locator_roundtrip_parse)

lemma length_locator_tail_le:
  assumes "list_all (\<lambda>(k, v). length (encode_utf16 k) \<le> m \<and> length (encode_utf16 v) \<le> m) es"
  shows "length (snd (locator_tail base tail es)) \<le> length tail + length es * (2 * m + 14)"
  using assms
proof (induction es arbitrary: tail)
  case Nil
  then show ?case by simp
next
  case (Cons e es)
  obtain k v where e: "e = (k, v)" by fastforce
  have pad: "length (pad8 x) \<le> length x + 7" for x
    using mod_less_divisor [of 8 "8 - length x mod 8"] by (simp add: pad8_def)
  let ?t1 = "pad8 (tail @ encode_utf16 k)" and ?t2 = "pad8 (pad8 (tail @ encode_utf16 k) @ encode_utf16 v)"
  have "length ?t2 \<le> length tail + (2 * m + 14)"
    using pad [of "?t1 @ encode_utf16 v"] pad [of "tail @ encode_utf16 k"] Cons.prems by (simp add: e)
  moreover have "length (snd (locator_tail base ?t2 es)) \<le> length ?t2 + length es * (2 * m + 14)"
    using Cons by (simp add: e)
  ultimately show ?case by (simp add: e Let_def)
qed

lemma length_ParentLocator_encode_le:
  assumes "uuid_laws E"
    and "list_all (\<lambda>(k, v). length (encode_utf16 k) \<le> m \<and> length (encode_utf16 v) \<le> m) (locator_entries pl)"
  shows "length (ParentLocator_encode E pl) \<le> 20 + length (locator_entries pl) * (2 * m + 26)"
  using length_locator_tail_le [OF assms(2), of _ "[]"] assms(1)
  by (simp add: ParentLocator_encode_layout write_guid_simps row_codec.table_length algebra_simps)

lemma encodable_ascii:
  assumes "list_all (\<lambda>c. c < 128) s" and "length s < 32768"
  shows "encodable s"
proof -
  have "length (utf16_units s) = length s" if "list_all (\<lambda>c. c < 128) s" for s
    using that by (induction s) auto
  then show ?thesis
    using assms by (auto simp: encodable_def length_encode_utf16 list_all_iff valid_scalar_def)
qed

lemma trim_braces:
  assumes "123 \<notin> set s" and "125 \<notin> set s"
  shows "trim_end_matches 125 (trim_start_matches 123 (123 # s @ [125])) = s"
proof -
  have "dropWhile (\<lambda>x. x = 123) (s @ [125]) = s @ [125]"
    using assms(1) by (cases s) auto
  moreover have "dropWhile (\<lambda>x. x = 125) (rev s) = rev s"
    using assms(2) by (cases "rev s") (auto simp: rev_swap)
  ultimately show ?thesis
    by (simp add: trim_end_matches_def trim_start_matches_def)
qed

definition locator_fits :: "externs \<Rightarrow> parent_locator \<Rightarrow> bool" where
  "locator_fits E pl \<longleftrightarrow> list_all (\<lambda>(k, v). encodable k \<and> encodable v) (locator_entries pl) \<and>
     length (locator_entries pl) < 65536 \<and> length (ParentLocator_encode E pl) < 4294967296"

lemma new_vhdx_relative_fits:
  assumes "uuid_laws E" and "uuid_text_laws E" and "encodable relative"
  shows "locator_fits E (new_vhdx_relative E relative guid)"
    and "length (ParentLocator_encode E (new_vhdx_relative E relative guid)) \<le> 262216"
proof -
  let ?pl = "new_vhdx_relative E relative guid"
  let ?linkage = "123 # uuid_to_string E guid @ [125]"
  have "list_all (\<lambda>c. c < 128) ?linkage"
    using uuid_text_lawsD(3) [OF assms(2)] by (auto simp: list_all_iff)
  then have link: "encodable ?linkage"
    by (rule encodable_ascii) (simp add: uuid_text_lawsD(2) [OF assms(2)])
  have keys: "encodable KEY_PARENT_LINKAGE" "encodable KEY_RELATIVE_PATH"
    by (rule encodable_ascii; simp add: key_defs)+
  have es: "locator_entries ?pl = [(KEY_PARENT_LINKAGE, ?linkage), (KEY_RELATIVE_PATH, relative)]"
    by (simp add: new_vhdx_relative_def)
  have "length (ParentLocator_encode E ?pl) \<le> 20 + length (locator_entries ?pl) * (2 * 65536 + 26)"
    using link keys assms(3)
    by (intro length_ParentLocator_encode_le [OF assms(1)]) (simp add: es encodable_def)
  then show len: "length (ParentLocator_encode E ?pl) \<le> 262216"
    by (simp add: es)
  show "locator_fits E ?pl"
    using link keys assms(3) len by (simp add: locator_fits_def es)
qed

lemma new_vhdx_relative_reads:
  assumes "uuid_text_laws E"
  shows "parent_linkage E (new_vhdx_relative E relative guid) = Some guid"
    and "locator_type (new_vhdx_relative E relative guid) = PARENT_LOCATOR_TYPE_VHDX"
    and "relative_path (new_vhdx_relative E relative guid) = Some relative"
    and "parent_linkage2 E (new_vhdx_relative E relative guid) = None"
    and "volume_path (new_vhdx_relative E relative guid) = None"
    and "absolute_win32_path (new_vhdx_relative E relative guid) = None"
proof -
  show "parent_linkage E (new_vhdx_relative E relative guid) = Some guid"
    using trim_braces [OF uuid_text_lawsD(4,5) [OF assms], of guid] uuid_text_lawsD(1) [OF assms]
    by (simp add: parent_linkage_def locator_get_def new_vhdx_relative_def parse_linkage_def)
qed (simp_all add: locator_get_def parent_linkage2_def relative_path_def volume_path_def
    absolute_win32_path_def new_vhdx_relative_def, simp_all add: key_defs)

text \<open>
  C21 (parent linkage): a locator made by \<open>new_vhdx_relative\<close>, written to the metadata
  and read back, is recognised as a VHDX parent locator, gives back exactly the parent's
  data-write GUID from its braced text form and the relative path it was given, and has
  no other key.
\<close>

theorem parent_linkage_survives:
  assumes "uuid_laws E" and "uuid_text_laws E" and "encodable relative"
  shows "\<exists>pl. ParentLocator_parse E (ParentLocator_encode E (new_vhdx_relative E relative guid)) = Inr pl \<and>
    is_vhdx_parent pl \<and> parent_linkage E pl = Some guid \<and> relative_path pl = Some relative \<and>
    parent_linkage2 E pl = None \<and> volume_path pl = None \<and> absolute_win32_path pl = None"
proof -
  let ?pl = "new_vhdx_relative E relative guid"
  have "ParentLocator_parse E (ParentLocator_encode E ?pl) = Inr ?pl"
    using new_vhdx_relative_fits(1) [OF assms]
    by (intro parent_locator_roundtrip_parse [OF assms(1)]) (simp_all add: locator_fits_def)
  then show ?thesis
    using new_vhdx_relative_reads [OF assms(2), of relative guid] by (simp add: is_vhdx_parent_def)
qed

theorem parent_locator_roundtrip_witness:
  "ParentLocator_parse ref_externs (ParentLocator_encode ref_externs
     \<lparr>locator_type = PARENT_LOCATOR_TYPE_VHDX, locator_entries = [([0x1F600, 65], [46])]\<rparr>) =
   Inr \<lparr>locator_type = PARENT_LOCATOR_TYPE_VHDX, locator_entries = [([0x1F600, 65], [46])]\<rparr>"
proof (rule parent_locator_roundtrip [OF ref_uuid_laws])
  let ?pl = "\<lparr>locator_type = PARENT_LOCATOR_TYPE_VHDX, locator_entries = [([0x1F600, 65], [46])]\<rparr> :: parent_locator"
  show "list_all (\<lambda>(k, v). encodable k \<and> encodable v) (locator_entries ?pl)"
    by (simp add: encodable_def valid_scalar_def length_encode_utf16)
  have "length (ParentLocator_encode ref_externs ?pl) \<le> 20 + length (locator_entries ?pl) * (2 * 6 + 26)"
    by (rule length_ParentLocator_encode_le [OF ref_uuid_laws]) (simp add: length_encode_utf16)
  then show "length (ParentLocator_encode ref_externs ?pl) < 4294967296" by simp
qed simp

theorem parent_linkage_survives_witness:
  "\<exists>pl. ParentLocator_parse ref_externs (ParentLocator_encode ref_externs
      (new_vhdx_relative ref_externs (str ''base.vhdx'') 0x1234)) = Inr pl \<and>
    parent_linkage ref_externs pl = Some 0x1234 \<and> relative_path pl = Some (str ''base.vhdx'')"
proof -
  have "encodable (str ''base.vhdx'')"
    by (rule encodable_ascii) (simp_all add: str_def)
  from parent_linkage_survives [OF ref_uuid_laws ref_uuid_text_laws this]
  show ?thesis by blast
qed

end
