(* ===== verification/Vhdx_Metadata.thy ===== *)
theory Vhdx_Metadata
  imports Vhdx_Parent_Locator
begin

text \<open>
  \<open>metadata.rs\<close>: the metadata region, a table of items keyed by GUID.  Parsing keeps the
  last item of each known kind, preserves the others, and fails on the first required
  item that is missing; encoding lays the items out from 64 KiB on, 8-byte aligned, and
  panics when they do not fit the region.
\<close>

section \<open>The parsed metadata\<close>

record file_params =
  fp_block_size :: u32
  leave_blocks_allocated :: bool
  fp_has_parent :: bool

record metadata_item =
  mi_guid :: uuid
  mi_data :: bytes
  mi_is_user :: bool
  mi_is_virtual_disk :: bool
  mi_is_required :: bool

record metadata =
  file_parameters :: file_params
  virtual_disk_size :: u64
  logical_sector_size :: u32
  physical_sector_size :: u32
  page_83_data :: uuid
  md_parent_locator :: "parent_locator option"
  extras :: "metadata_item list"

text \<open>The local variables of the parser's loop.\<close>

record metadata_parts =
  pt_file_parameters :: "file_params option"
  pt_virtual_disk_size :: "u64 option"
  pt_logical_sector_size :: "u32 option"
  pt_physical_sector_size :: "u32 option"
  pt_page_83_data :: "uuid option"
  pt_parent_locator :: "parent_locator option"
  pt_extras :: "metadata_item list"

definition no_parts :: metadata_parts where
  "no_parts = \<lparr>pt_file_parameters = None, pt_virtual_disk_size = None, pt_logical_sector_size = None,
     pt_physical_sector_size = None, pt_page_83_data = None, pt_parent_locator = None, pt_extras = []\<rparr>"

definition metadata_step ::
    "externs \<Rightarrow> uuid \<Rightarrow> bytes \<Rightarrow> u32 \<Rightarrow> metadata_parts \<Rightarrow> metadata_parts res" where
  "metadata_step E guid data flags st =
    (if guid = METADATA_GUID_FILE_PARAMETERS \<and> length data \<ge> 8 then
       let bs = read_u32 (bslice data 0 4); f = read_u32 (bslice data 4 8) in
       Inr (st\<lparr>pt_file_parameters := Some
         \<lparr>fp_block_size = bs,
          leave_blocks_allocated = (f AND FILE_PARAMETERS_FLAG_LEAVE_BLOCKS_ALLOCATED \<noteq> 0),
          fp_has_parent = (f AND FILE_PARAMETERS_FLAG_HAS_PARENT \<noteq> 0)\<rparr>\<rparr>)
     else if guid = METADATA_GUID_VIRTUAL_DISK_SIZE \<and> length data \<ge> 8 then
       Inr (st\<lparr>pt_virtual_disk_size := Some (read_u64 (bslice data 0 8))\<rparr>)
     else if guid = METADATA_GUID_LOGICAL_SECTOR_SIZE \<and> length data \<ge> 4 then
       Inr (st\<lparr>pt_logical_sector_size := Some (read_u32 (bslice data 0 4))\<rparr>)
     else if guid = METADATA_GUID_PHYSICAL_SECTOR_SIZE \<and> length data \<ge> 4 then
       Inr (st\<lparr>pt_physical_sector_size := Some (read_u32 (bslice data 0 4))\<rparr>)
     else if guid = METADATA_GUID_PAGE_83_DATA \<and> length data \<ge> 16 then
       Inr (st\<lparr>pt_page_83_data := Some (read_guid_at E data 0)\<rparr>)
     else if guid = METADATA_GUID_PARENT_LOCATOR then
       bindR (ParentLocator_parse E data) (\<lambda>pl. Inr (st\<lparr>pt_parent_locator := Some pl\<rparr>))
     else
       Inr (st\<lparr>pt_extras := pt_extras st @
         [\<lparr>mi_guid = guid, mi_data = data,
           mi_is_user = (flags AND METADATA_FLAG_IS_USER \<noteq> 0),
           mi_is_virtual_disk = (flags AND METADATA_FLAG_IS_VIRTUAL_DISK \<noteq> 0),
           mi_is_required = (flags AND METADATA_FLAG_IS_REQUIRED \<noteq> 0)\<rparr>]\<rparr>))"

text \<open>
  \<open>metadata_rows E buf i n st\<close> runs the loop for the entries \<open>i\<close>, \<dots>, \<open>i + n - 1\<close>: it
  stops at the first entry outside the buffer and skips items that reach outside it.
\<close>

fun metadata_rows :: "externs \<Rightarrow> bytes \<Rightarrow> nat \<Rightarrow> nat \<Rightarrow> metadata_parts \<Rightarrow> metadata_parts res" where
  "metadata_rows E buf i 0 st = Inr st"
| "metadata_rows E buf i (Suc n) st =
    (let off = METADATA_HEADER_SIZE + i * METADATA_ENTRY_SIZE in
     if off + METADATA_ENTRY_SIZE > length buf then Inr st
     else
       let guid = read_guid_at E buf off;
           item_off = unat (read_u32 (bslice buf (off + 16) (off + 20)));
           len = unat (read_u32 (bslice buf (off + 20) (off + 24)));
           flags = read_u32 (bslice buf (off + 24) (off + 28)) in
       if item_off + len > length buf then metadata_rows E buf (Suc i) n st
       else bindR (metadata_step E guid (bslice buf item_off (item_off + len)) flags st) (\<lambda>st'.
         metadata_rows E buf (Suc i) n st'))"

definition Metadata_parse :: "externs \<Rightarrow> bytes \<Rightarrow> metadata res" where
  "Metadata_parse E buf =
    (if length buf < METADATA_HEADER_SIZE then Inl (InvalidStructure ''metadata region too small'')
     else if bslice buf 0 8 \<noteq> METADATA_SIGNATURE then Inl (InvalidStructure ''missing metadata signature'')
     else
       let entry_count = unat (read_u16 (bslice buf 10 12)) in
       bindR (metadata_rows E buf 0 entry_count no_parts) (\<lambda>st.
       bindR (ok_or (pt_file_parameters st) (MissingMetadata ''file_parameters'')) (\<lambda>fp.
       bindR (ok_or (pt_virtual_disk_size st) (MissingMetadata ''virtual_disk_size'')) (\<lambda>vds.
       bindR (ok_or (pt_logical_sector_size st) (MissingMetadata ''logical_sector_size'')) (\<lambda>ls.
       bindR (ok_or (pt_physical_sector_size st) (MissingMetadata ''physical_sector_size'')) (\<lambda>ps.
       bindR (ok_or (pt_page_83_data st) (MissingMetadata ''page_83_data'')) (\<lambda>p83.
       Inr \<lparr>file_parameters = fp, virtual_disk_size = vds, logical_sector_size = ls,
            physical_sector_size = ps, page_83_data = p83,
            md_parent_locator = pt_parent_locator st, extras = pt_extras st\<rparr>)))))))"

section \<open>Geometry\<close>

definition block_size :: "metadata \<Rightarrow> u32" where
  "block_size md = fp_block_size (file_parameters md)"

definition div_ceil :: "u64 \<Rightarrow> u64 \<Rightarrow> u64" where
  "div_ceil a b = (if a mod b = 0 then a div b else a div b + 1)"

definition block_count :: "metadata \<Rightarrow> u64 res" where
  "block_count md =
    (if block_size md = 0 then Inl (Panic ''attempt to divide by zero'')
     else Inr (div_ceil (virtual_disk_size md) (ucast (block_size md))))"

definition chunk_ratio :: "metadata \<Rightarrow> u64 res" where
  "chunk_ratio md =
    (if block_size md = 0 then Inl (Panic ''attempt to divide by zero'')
     else Inr ((push_bit 23 1 * ucast (logical_sector_size md)) div ucast (block_size md)))"

section \<open>Encoding\<close>

definition metadata_items :: "externs \<Rightarrow> metadata \<Rightarrow> (uuid \<times> bytes \<times> u32) list" where
  "metadata_items E md =
    (let fp = file_parameters md;
         fp_flags = (if leave_blocks_allocated fp then FILE_PARAMETERS_FLAG_LEAVE_BLOCKS_ALLOCATED else 0)
           OR (if fp_has_parent fp then FILE_PARAMETERS_FLAG_HAS_PARENT else 0);
         disk_flags = METADATA_FLAG_IS_VIRTUAL_DISK OR METADATA_FLAG_IS_REQUIRED in
     [(METADATA_GUID_FILE_PARAMETERS, write_u32 (fp_block_size fp) @ write_u32 fp_flags, METADATA_FLAG_IS_REQUIRED),
      (METADATA_GUID_VIRTUAL_DISK_SIZE, write_u64 (virtual_disk_size md), disk_flags),
      (METADATA_GUID_PAGE_83_DATA, write_guid E (page_83_data md), disk_flags),
      (METADATA_GUID_LOGICAL_SECTOR_SIZE, write_u32 (logical_sector_size md), disk_flags),
      (METADATA_GUID_PHYSICAL_SECTOR_SIZE, write_u32 (physical_sector_size md), disk_flags)]
     @ (case md_parent_locator md of None \<Rightarrow> []
        | Some pl \<Rightarrow> [(METADATA_GUID_PARENT_LOCATOR, ParentLocator_encode E pl, METADATA_FLAG_IS_REQUIRED)])
     @ map (\<lambda>x. (mi_guid x, mi_data x,
         (if mi_is_user x then METADATA_FLAG_IS_USER else 0)
           OR (if mi_is_virtual_disk x then METADATA_FLAG_IS_VIRTUAL_DISK else 0)
           OR (if mi_is_required x then METADATA_FLAG_IS_REQUIRED else 0))) (extras md))"

definition align8 :: "nat \<Rightarrow> nat" where
  "align8 n = (n + 7) div 8 * 8"

definition encode_item_row :: "externs \<Rightarrow> uuid \<Rightarrow> u32 \<Rightarrow> u32 \<Rightarrow> u32 \<Rightarrow> bytes" where
  "encode_item_row E guid off len flags = write_guid E guid @ write_u32 off @ write_u32 len @ write_u32 flags"

fun place_items :: "externs \<Rightarrow> nat \<Rightarrow> nat \<Rightarrow> (uuid \<times> bytes \<times> u32) list \<Rightarrow> bytes \<Rightarrow> bytes res" where
  "place_items E i data_off [] buf = Inr buf"
| "place_items E i data_off ((guid, data, flags) # items) buf =
    (let entry_off = METADATA_HEADER_SIZE + i * METADATA_ENTRY_SIZE in
     if entry_off + 28 > length buf then Inl (Panic ''range end index out of range'')
     else
       let buf = bput entry_off
         (encode_item_row E guid (word_of_nat data_off) (word_of_nat (length data)) flags) buf in
       if data_off + length data > length buf then Inl (Panic ''range end index out of range'')
       else place_items E (Suc i) (align8 (data_off + length data)) items (bput data_off data buf))"

definition Metadata_encode :: "externs \<Rightarrow> metadata \<Rightarrow> u64 \<Rightarrow> bytes res" where
  "Metadata_encode E md region_size =
    (if unat region_size < 12 then Inl (Panic ''range end index out of range'')
     else
       let buf = replicate (unat region_size) 0;
           buf = bput 0 METADATA_SIGNATURE buf;
           entries = metadata_items E md;
           buf = bput 10 (write_u16 (word_of_nat (length entries))) buf
       in place_items E 0 (64 * 1024) entries buf)"

section \<open>Laying out the items\<close>

lemma align8_props: "n \<le> align8 n" "align8 n \<le> n + 7"
  unfolding align8_def by linarith+

lemma length_encode_item_row [simp]: "uuid_laws E \<Longrightarrow> length (encode_item_row E g o' l f) = 28"
  by (simp add: encode_item_row_def write_guid_simps)

text \<open>
  What the parser sees of item number \<open>i\<close>: its row, and the range the row points to.
\<close>

definition item_at :: "externs \<Rightarrow> bytes \<Rightarrow> nat \<Rightarrow> uuid \<times> bytes \<times> u32 \<Rightarrow> bool" where
  "item_at E buf i = (\<lambda>(guid, data, flags).
    32 + i * 32 + 32 \<le> length buf \<and> (\<exists>o'. o' + length data \<le> length buf \<and> o' + length data < 4294967296 \<and>
      bslice buf (32 + i * 32) (32 + i * 32 + 28) =
        encode_item_row E guid (word_of_nat o') (word_of_nat (length data)) flags \<and>
      bslice buf o' (o' + length data) = data))"

lemma place_items_frame:
  assumes "uuid_laws E" and "place_items E i d items buf = Inr buf'"
    and "32 + (i + length items) * 32 \<le> m" and "m \<le> d"
  shows "length buf' = length buf \<and>
    (\<forall>lo hi. hi \<le> 32 + i * 32 \<longrightarrow> bslice buf' lo hi = bslice buf lo hi) \<and>
    (\<forall>lo hi. m \<le> lo \<longrightarrow> hi \<le> d \<longrightarrow> bslice buf' lo hi = bslice buf lo hi)"
  using assms(2-)
proof (induction items arbitrary: i d buf)
  case Nil
  then show ?case by simp
next
  case (Cons x items)
  obtain guid data flags where x: "x = (guid, data, flags)" by (cases x) auto
  let ?row = "encode_item_row E guid (word_of_nat d) (word_of_nat (length data)) flags"
  let ?buf1 = "bput (32 + i * 32) ?row buf"
  let ?buf2 = "bput d data ?buf1"
  have fits: "32 + i * 32 + 28 \<le> length buf" "d + length data \<le> length ?buf1"
      and rest: "place_items E (Suc i) (align8 (d + length data)) items ?buf2 = Inr buf'"
    using Cons.prems(1) by (auto simp: x size_defs Let_def split: if_splits)
  have len: "length ?buf1 = length buf" "length ?buf2 = length buf"
    using fits assms(1) by (simp_all add: length_put)
  have d: "m \<le> d" "32 + i * 32 + 32 \<le> m" "d \<le> align8 (d + length data)"
    using Cons.prems(2,3) align8_props(1) [of "d + length data"] by auto
  have m: "32 + (Suc i + length items) * 32 \<le> m" "m \<le> align8 (d + length data)"
    using Cons.prems(2,3) d by auto
  have b1: "bslice ?buf1 lo hi = bslice buf lo hi" if "hi \<le> 32 + i * 32 \<or> 32 + i * 32 + 28 \<le> lo" for lo hi
    using that assms(1) fits by (auto simp: slice_put_before slice_put_after)
  have b2: "bslice ?buf2 lo hi = bslice ?buf1 lo hi" if "hi \<le> d" for lo hi
    using that fits(2) by (rule slice_put_before [rotated])
  from Cons.IH [OF rest m] show ?case
    using len b1 b2 d by simp
qed

lemma place_items_at:
  assumes "uuid_laws E" and "place_items E i d items buf = Inr buf'"
    and "32 + (i + length items) * 32 \<le> 65536" and "65536 \<le> d" and "length buf < 4294967296"
    and "65536 \<le> length buf" and "j < length items"
  shows "item_at E buf' (i + j) (items ! j)"
  using assms(2-)
proof (induction items arbitrary: i d buf j)
  case Nil
  then show ?case by simp
next
  case (Cons x items)
  obtain guid data flags where x: "x = (guid, data, flags)" by (cases x) auto
  let ?row = "encode_item_row E guid (word_of_nat d) (word_of_nat (length data)) flags"
  let ?buf1 = "bput (32 + i * 32) ?row buf"
  let ?buf2 = "bput d data ?buf1"
  let ?d = "align8 (d + length data)"
  have fits: "32 + i * 32 + 28 \<le> length buf" "d + length data \<le> length ?buf1"
      and rest: "place_items E (Suc i) ?d items ?buf2 = Inr buf'"
    using Cons.prems(1) by (auto simp: x size_defs Let_def split: if_splits)
  have len: "length ?buf1 = length buf" "length ?buf2 = length buf"
    using fits assms(1) by (simp_all add: length_put)
  have d: "d + length data \<le> ?d" by (rule align8_props)
  have m: "32 + (Suc i + length items) * 32 \<le> 65536" "65536 \<le> ?d"
    using Cons.prems d by auto
  note frame = place_items_frame [OF assms(1) rest m]
  show ?case
  proof (cases j)
    case 0
    have "bslice buf' (32 + i * 32) (32 + i * 32 + 28) = bslice ?buf2 (32 + i * 32) (32 + i * 32 + 28)"
      using frame by simp
    also have "\<dots> = bslice ?buf1 (32 + i * 32) (32 + i * 32 + 28)"
      using fits(2) m(1) Cons.prems(3) by (intro slice_put_before) auto
    also have "\<dots> = ?row"
      using fits(1) assms(1) by (intro slice_put_same) auto
    finally have row: "bslice buf' (32 + i * 32) (32 + i * 32 + 28) = ?row" .
    have "bslice buf' d (d + length data) = bslice ?buf2 d (d + length data)"
      using frame d Cons.prems(3) by simp
    also have "\<dots> = data"
      using fits(2) by (intro slice_put_same) auto
    finally have "bslice buf' d (d + length data) = data" .
    moreover have "length buf' = length buf" using frame len by simp
    ultimately show ?thesis
      using row fits len Cons.prems by (auto simp: 0 x item_at_def)
  next
    case (Suc k)
    with Cons.IH [OF rest m _ _, of k] Cons.prems len show ?thesis by simp
  qed
qed

section \<open>Reading the items back\<close>

fun metadata_fold :: "externs \<Rightarrow> (uuid \<times> bytes \<times> u32) list \<Rightarrow> metadata_parts \<Rightarrow> metadata_parts res" where
  "metadata_fold E [] st = Inr st"
| "metadata_fold E ((guid, data, flags) # items) st =
    bindR (metadata_step E guid data flags st) (metadata_fold E items)"

lemma metadata_fold_append:
  "metadata_fold E (xs @ ys) st = bindR (metadata_fold E xs st) (metadata_fold E ys)"
  by (induction E xs st rule: metadata_fold.induct) (simp_all add: bindR_def split: sum.splits)

lemma metadata_rows_items:
  assumes "uuid_laws E" and "\<And>j. j < length items \<Longrightarrow> item_at E buf (i + j) (items ! j)"
  shows "metadata_rows E buf i (length items) st = metadata_fold E items st"
  using assms(2)
proof (induction items arbitrary: i st)
  case Nil
  then show ?case by simp
next
  case (Cons x items)
  obtain guid data flags where x: "x = (guid, data, flags)" by (cases x) auto
  define off where "off = 32 + i * 32"
  obtain o' where o: "off + 32 \<le> length buf" "o' + length data \<le> length buf"
      "o' + length data < 4294967296"
      "bslice buf off (off + 28) = encode_item_row E guid (word_of_nat o') (word_of_nat (length data)) flags"
      "bslice buf o' (o' + length data) = data"
    using Cons.prems [of 0] by (auto simp: x item_at_def off_def)
  have sl: "bslice buf (off + a) (off + b) = bslice (bslice buf off (off + 28)) a b" if "b \<le> 28" for a b
    using that by (simp add: slice_slice)
  have "read_guid_at E buf off = guid"
    unfolding read_guid_at_def sl [of 16 0, simplified] o(4)
    using assms(1) by (simp add: encode_item_row_def bslice_def write_guid_simps)
  moreover have "read_u32 (bslice buf (off + 16) (off + 20)) = word_of_nat o'"
      "read_u32 (bslice buf (off + 20) (off + 24)) = word_of_nat (length data)"
      "read_u32 (bslice buf (off + 24) (off + 28)) = flags"
    unfolding sl [of 20 16, simplified] sl [of 24 20, simplified] sl [of 28 24, simplified] o(4)
    using assms(1) by (simp_all add: encode_item_row_def bslice_def write_guid_simps)
  moreover have "unat (word_of_nat o' :: u32) = o'" "unat (word_of_nat (length data) :: u32) = length data"
    using o(3) by (simp_all add: unat_of_nat_u32)
  moreover have "metadata_rows E buf (Suc i) (length items) = metadata_fold E items"
    using Cons.prems [of "Suc _"] by (intro ext Cons.IH) auto
  ultimately show ?case
    using o by (simp add: x size_defs Let_def off_def [symmetric])
qed

definition known_guids :: "uuid list" where
  "known_guids = [METADATA_GUID_FILE_PARAMETERS, METADATA_GUID_VIRTUAL_DISK_SIZE,
     METADATA_GUID_LOGICAL_SECTOR_SIZE, METADATA_GUID_PHYSICAL_SECTOR_SIZE,
     METADATA_GUID_PAGE_83_DATA, METADATA_GUID_PARENT_LOCATOR]"

lemmas metadata_guid_defs = METADATA_GUID_FILE_PARAMETERS_def METADATA_GUID_VIRTUAL_DISK_SIZE_def
  METADATA_GUID_LOGICAL_SECTOR_SIZE_def METADATA_GUID_PHYSICAL_SECTOR_SIZE_def
  METADATA_GUID_PAGE_83_DATA_def METADATA_GUID_PARENT_LOCATOR_def

lemma distinct_known_guids: "distinct known_guids"
  by (simp add: known_guids_def metadata_guid_defs)

lemmas metadata_flag_defs = METADATA_FLAG_IS_USER_def METADATA_FLAG_IS_VIRTUAL_DISK_def
  METADATA_FLAG_IS_REQUIRED_def FILE_PARAMETERS_FLAG_LEAVE_BLOCKS_ALLOCATED_def
  FILE_PARAMETERS_FLAG_HAS_PARENT_def

definition metadata_ok :: "externs \<Rightarrow> metadata \<Rightarrow> bool" where
  "metadata_ok E md \<longleftrightarrow> pred_option (locator_fits E) (md_parent_locator md) \<and>
     list_all (\<lambda>x. mi_guid x \<notin> set known_guids) (extras md) \<and> length (extras md) \<le> 2000"

lemma metadata_fold_extras:
  assumes "list_all (\<lambda>x. mi_guid x \<notin> set known_guids) xs"
  shows "metadata_fold E (map (\<lambda>x. (mi_guid x, mi_data x,
         (if mi_is_user x then METADATA_FLAG_IS_USER else 0)
           OR (if mi_is_virtual_disk x then METADATA_FLAG_IS_VIRTUAL_DISK else 0)
           OR (if mi_is_required x then METADATA_FLAG_IS_REQUIRED else 0))) xs) st =
    Inr (st\<lparr>pt_extras := pt_extras st @ xs\<rparr>)"
  using assms
proof (induction xs arbitrary: st)
  case Nil
  then show ?case by simp
next
  case (Cons x xs)
  have "metadata_step E (mi_guid x) (mi_data x)
         ((if mi_is_user x then METADATA_FLAG_IS_USER else 0)
           OR (if mi_is_virtual_disk x then METADATA_FLAG_IS_VIRTUAL_DISK else 0)
           OR (if mi_is_required x then METADATA_FLAG_IS_REQUIRED else 0)) st =
      Inr (st\<lparr>pt_extras := pt_extras st @ [x]\<rparr>)"
    using Cons.prems
    by (cases "mi_is_user x"; cases "mi_is_virtual_disk x"; cases "mi_is_required x")
       (simp_all add: metadata_step_def known_guids_def metadata_flag_defs)
  with Cons show ?case by simp
qed

lemma metadata_fold_items:
  assumes "uuid_laws E" and "metadata_ok E md"
  shows "metadata_fold E (metadata_items E md) no_parts =
    Inr \<lparr>pt_file_parameters = Some (file_parameters md), pt_virtual_disk_size = Some (virtual_disk_size md),
      pt_logical_sector_size = Some (logical_sector_size md),
      pt_physical_sector_size = Some (physical_sector_size md), pt_page_83_data = Some (page_83_data md),
      pt_parent_locator = md_parent_locator md, pt_extras = extras md\<rparr>"
proof -
  have fp: "metadata_step E METADATA_GUID_FILE_PARAMETERS
      (write_u32 (fp_block_size fp) @ write_u32
        ((if leave_blocks_allocated fp then FILE_PARAMETERS_FLAG_LEAVE_BLOCKS_ALLOCATED else 0)
           OR (if fp_has_parent fp then FILE_PARAMETERS_FLAG_HAS_PARENT else 0))) flags st =
      Inr (st\<lparr>pt_file_parameters := Some fp\<rparr>)" for fp flags st
    by (cases "leave_blocks_allocated fp"; cases "fp_has_parent fp")
       (simp_all add: metadata_step_def bslice_def metadata_flag_defs)
  have pl: "metadata_fold E (case md_parent_locator md of None \<Rightarrow> []
        | Some pl \<Rightarrow> [(METADATA_GUID_PARENT_LOCATOR, ParentLocator_encode E pl, METADATA_FLAG_IS_REQUIRED)]) st =
      Inr (case md_parent_locator md of None \<Rightarrow> st | Some pl \<Rightarrow> st\<lparr>pt_parent_locator := Some pl\<rparr>)" for st
    using assms
    by (cases "md_parent_locator md")
       (simp_all add: metadata_step_def metadata_guid_defs metadata_ok_def locator_fits_def parent_locator_roundtrip_parse)
  have ex: "list_all (\<lambda>x. mi_guid x \<notin> set known_guids) (extras md)"
    using assms(2) by (simp add: metadata_ok_def)
  show ?thesis
    unfolding metadata_items_def Let_def metadata_fold_append metadata_fold.simps fp pl bindR_simps
      metadata_fold_extras [OF ex]
    using assms(1)
    by (cases "md_parent_locator md")
       (simp_all add: metadata_step_def metadata_guid_defs no_parts_def read_guid_at_def bslice_def write_guid_simps
         pl metadata_fold_extras [OF ex])
qed

text \<open>A region large enough for the items is always encoded.\<close>

lemma place_items_fits:
  assumes "uuid_laws E" and "32 + (i + length items) * 32 \<le> 65536"
    and "65536 \<le> length buf" and "d + (\<Sum>x\<leftarrow>items. length (fst (snd x)) + 7) \<le> length buf"
  shows "\<exists>buf'. place_items E i d items buf = Inr buf'"
  using assms(2-)
proof (induction items arbitrary: i d buf)
  case Nil
  then show ?case by simp
next
  case (Cons x items)
  obtain guid data flags where x: "x = (guid, data, flags)" by (cases x) auto
  let ?row = "encode_item_row E guid (word_of_nat d) (word_of_nat (length data)) flags"
  let ?buf1 = "bput (32 + i * 32) ?row buf"
  let ?buf2 = "bput d data ?buf1"
  have "length ?row = 28" using assms(1) by simp
  then have len: "length ?buf1 = length buf"
    using Cons.prems by (intro length_put) simp
  moreover have "length ?buf2 = length ?buf1"
    using Cons.prems len by (intro length_put) (simp add: x)
  moreover have "\<exists>buf'. place_items E (Suc i) (align8 (d + length data)) items ?buf2 = Inr buf'"
    using Cons.prems align8_props(2) [of "d + length data"] calculation
    by (intro Cons.IH) (simp_all add: x)
  moreover have "32 + i * 32 + 28 \<le> length buf" "d + length data \<le> length ?buf1"
    using Cons.prems len by (simp_all add: x)
  ultimately show ?case by (simp add: x Let_def size_defs)
qed

lemma length_metadata_items:
  "length (metadata_items E md) = 5 + (if md_parent_locator md = None then 0 else 1) + length (extras md)"
  by (simp add: metadata_items_def Let_def split: option.split)

lemma metadata_roundtrip_parse:
  assumes "uuid_laws E" and "metadata_ok E md" and "Metadata_encode E md region_size = Inr buf"
    and "65536 \<le> unat region_size" and "unat region_size < 4294967296"
  shows "Metadata_parse E buf = Inr md"
proof -
  let ?items = "metadata_items E md"
  define cnt :: u16 where "cnt = word_of_nat (length ?items)"
  define buf0 where "buf0 = bput 10 (write_u16 cnt) (bput 0 METADATA_SIGNATURE (replicate (unat region_size) 0))"
  have n: "length ?items \<le> 2006" using assms(2) by (simp add: length_metadata_items metadata_ok_def)
  have place: "place_items E 0 65536 ?items buf0 = Inr buf"
    using assms(3,4) by (simp add: Metadata_encode_def Let_def buf0_def cnt_def)
  have len0: "length buf0 = unat region_size"
    using assms(4) by (simp add: buf0_def length_put)
  have tab: "32 + (0 + length ?items) * 32 \<le> 65536" using n by simp
  note frame = place_items_frame [OF assms(1) place tab order.refl, THEN conjunct1]
    place_items_frame [OF assms(1) place tab order.refl, THEN conjunct2, THEN conjunct1, rule_format]
  have "bslice buf 0 8 = METADATA_SIGNATURE" "bslice buf 10 12 = write_u16 cnt"
    using assms(4) by (simp_all add: frame buf0_def buf_simps)
  moreover have "item_at E buf (0 + j) (?items ! j)" if "j < length ?items" for j
    by (rule place_items_at [OF assms(1) place tab _ _ _ that]) (use assms len0 in simp_all)
  then have "metadata_rows E buf 0 (length ?items) no_parts = metadata_fold E ?items no_parts"
    by (rule metadata_rows_items [OF assms(1)])
  moreover have "unat cnt = length ?items"
    unfolding cnt_def by (rule unat_of_nat_u16) (use n in simp)
  moreover have "length buf = unat region_size" using frame(1) len0 by simp
  ultimately show ?thesis
    using assms(4) metadata_fold_items [OF assms(1,2)]
    by (simp add: Metadata_parse_def size_defs)
qed

text \<open>
  C19 (metadata round trip): parsing the encoded metadata region gives back the whole
  metadata, block size and flags, disk and sector sizes, page 83 data, the parent
  locator and every preserved extra item with its data and flags, provided the region is
  between 64 KiB and 4 GiB, its items' kinds do not clash with the six known GUIDs and
  the encoding did not panic for lack of space.
\<close>

theorem metadata_roundtrip:
  assumes "uuid_laws E" and "metadata_ok E md" and "Metadata_encode E md region_size = Inr buf"
    and "65536 \<le> unat region_size" and "unat region_size < 4294967296"
  shows "Metadata_parse E buf = Inr md"
  using assms by (rule metadata_roundtrip_parse)

lemma Metadata_encode_length:
  assumes "uuid_laws E" and "Metadata_encode E md region_size = Inr buf"
    and "length (metadata_items E md) \<le> 2047"
  shows "length buf = unat region_size"
proof -
  define buf0 where "buf0 = bput 10 (write_u16 (word_of_nat (length (metadata_items E md))))
    (bput 0 METADATA_SIGNATURE (replicate (unat region_size) 0))"
  have "12 \<le> unat region_size"
      and place: "place_items E 0 65536 (metadata_items E md) buf0 = Inr buf"
    using assms(2) by (auto simp: Metadata_encode_def Let_def buf0_def split: if_splits)
  then have "length buf0 = unat region_size" by (simp add: buf0_def length_put)
  moreover have "32 + (0 + length (metadata_items E md)) * 32 \<le> 65536" using assms(3) by simp
  ultimately show ?thesis
    using place_items_frame [OF assms(1) place _ order.refl] by simp
qed

lemma Metadata_encode_fits:
  assumes "uuid_laws E" and "length (metadata_items E md) \<le> 2046"
    and "65536 + (\<Sum>x\<leftarrow>metadata_items E md. length (fst (snd x)) + 7) \<le> unat region_size"
  shows "\<exists>buf. Metadata_encode E md region_size = Inr buf"
proof -
  have len: "length (bput 10 (write_u16 cnt) (bput 0 METADATA_SIGNATURE (replicate (unat region_size) 0)))
      = unat region_size" for cnt
    using assms(3) by (simp add: length_put)
  have "\<exists>buf. place_items E 0 65536 (metadata_items E md)
      (bput 10 (write_u16 cnt) (bput 0 METADATA_SIGNATURE (replicate (unat region_size) 0))) = Inr buf" for cnt
    using assms by (intro place_items_fits) (simp_all add: len)
  then show ?thesis
    using assms(3) by (simp add: Metadata_encode_def Let_def)
qed

definition sample_metadata :: metadata where
  "sample_metadata = \<lparr>file_parameters = \<lparr>fp_block_size = 33554432, leave_blocks_allocated = False,
       fp_has_parent = True\<rparr>, virtual_disk_size = 1073741824, logical_sector_size = 512,
     physical_sector_size = 4096, page_83_data = 77,
     md_parent_locator = Some (new_vhdx_relative ref_externs (str ''base.vhdx'') 0x1234),
     extras = [\<lparr>mi_guid = 5, mi_data = [1, 2, 3], mi_is_user = True, mi_is_virtual_disk = False,
       mi_is_required = False\<rparr>]\<rparr>"

theorem metadata_roundtrip_witness:
  "\<exists>buf. Metadata_encode ref_externs sample_metadata 1048576 = Inr buf \<and>
    Metadata_parse ref_externs buf = Inr sample_metadata"
proof -
  have "encodable (str ''base.vhdx'')"
    by (rule encodable_ascii) (simp_all add: str_def)
  note fits = new_vhdx_relative_fits [OF ref_uuid_laws ref_uuid_text_laws this]
  have ok: "metadata_ok ref_externs sample_metadata"
    using fits(1) by (simp add: metadata_ok_def sample_metadata_def known_guids_def metadata_guid_defs)
  have "\<exists>buf. Metadata_encode ref_externs sample_metadata 1048576 = Inr buf"
    using fits(2) [of "0x1234"]
    by (intro Metadata_encode_fits [OF ref_uuid_laws])
       (simp_all add: metadata_items_def Let_def sample_metadata_def write_guid_simps ref_uuid_laws)
  then obtain buf where "Metadata_encode ref_externs sample_metadata 1048576 = Inr buf" ..
  with metadata_roundtrip [OF ref_uuid_laws ok this] show ?thesis by simp
qed

end
