(* ===== verification/Vhdx_Disk.thy ===== *)
theory Vhdx_Disk
  imports Vhdx_Header Vhdx_Region Vhdx_Bat Vhdx_Metadata
begin

text \<open>
  \<open>disk.rs\<close>: opening a VHDX file and reading its payload blocks.  \<open>VhdxDisk_open\<close> takes
  the file found at the path (None when there is none) and returns the handle's file
  with the disk, unchanged.

  The locale \<open>block_device\<close> is what the chain operations use a disk by: the blocks a
  reader delivers have the sizes the geometry promises.
\<close>

section \<open>Opening\<close>

record vhdx_disk =
  vd_path :: path
  vd_read_only :: bool
  vd_header_pair :: header_pair
  vd_region_pair :: region_table_pair
  vd_region :: region_table
  vd_bat_region :: region_entry
  vd_metadata_region :: region_entry
  vd_metadata :: metadata
  vd_bat :: bat
  vd_file_len :: nat

definition VhdxDisk_open :: "externs \<Rightarrow> path \<Rightarrow> dfile option \<Rightarrow> bool \<Rightarrow> (vhdx_disk \<times> dfile) res" where
  "VhdxDisk_open E p found ro =
    bindR (ok_or found (Io NotFound)) (\<lambda>f.
    bindR (verify_file_type f) (\<lambda>_.
    bindR (HeaderPair_read E f) (\<lambda>hp.
    bindR (RegionTablePair_read E f) (\<lambda>rp.
    bindR (RegionTablePair_active rp) (\<lambda>region.
    bindR (validate_layout region) (\<lambda>_.
    bindR (ok_or (RegionTable_bat region) (MissingRegion ''BAT'')) (\<lambda>bat_region.
    bindR (ok_or (RegionTable_metadata region) (MissingRegion ''Metadata'')) (\<lambda>metadata_region.
    bindR (read_exact_at f (re_file_offset metadata_region) (unat (re_length metadata_region))) (\<lambda>metadata_buf.
    bindR (Metadata_parse E metadata_buf) (\<lambda>md.
    bindR (read_exact_at f (re_file_offset bat_region) (unat (re_length bat_region))) (\<lambda>bat_buf.
    bindR (block_count md) (\<lambda>count.
    bindR (chunk_ratio md) (\<lambda>ratio.
    bindR (Bat_parse bat_buf count ratio (fp_has_parent (file_parameters md))) (\<lambda>table.
    if \<not> ro \<and> log_guid (HeaderPair_active hp) \<noteq> nil_uuid then Inl DirtyLog
    else Inr (\<lparr>vd_path = p, vd_read_only = ro, vd_header_pair = hp, vd_region_pair = rp,
      vd_region = region, vd_bat_region = bat_region, vd_metadata_region = metadata_region,
      vd_metadata = md, vd_bat = table, vd_file_len = f_len f\<rparr>, f)))))))))))))))"

definition disk_block_size :: "vhdx_disk \<Rightarrow> u32" where
  "disk_block_size d = block_size (vd_metadata d)"

definition disk_virtual_size :: "vhdx_disk \<Rightarrow> u64" where
  "disk_virtual_size d = virtual_disk_size (vd_metadata d)"

definition disk_block_count :: "vhdx_disk \<Rightarrow> u64 res" where
  "disk_block_count d = block_count (vd_metadata d)"

definition disk_has_parent :: "vhdx_disk \<Rightarrow> bool" where
  "disk_has_parent d = fp_has_parent (file_parameters (vd_metadata d))"

definition active_header :: "vhdx_disk \<Rightarrow> header" where
  "active_header d = HeaderPair_active (vd_header_pair d)"

section \<open>Reading blocks\<close>

datatype block_read = Full bytes | Partial (pr_payload: bytes) (pr_bitmap: bytes) | Absent

definition bit_is_set :: "bytes \<Rightarrow> nat \<Rightarrow> bool" where
  "bit_is_set bm i =
    (let byte = i div 8; b = i mod 8 in
     if byte \<ge> length bm then False else drop_bit b (bm ! byte) AND 1 = 1)"

definition read_sector_bitmap :: "vhdx_disk \<Rightarrow> dfile \<Rightarrow> u64 \<Rightarrow> bytes res" where
  "read_sector_bitmap d f block_index =
    bindR (chunk_ratio (vd_metadata d)) (\<lambda>ratio.
    if ratio = 0 then Inl (Panic ''attempt to divide by zero'')
    else
      let block_in_chunk = unat (block_index mod ratio) in
      bindR (sector_bitmap_entry (vd_bat d) block_index) (\<lambda>o'.
      bindR (ok_or o' (InvalidStructure ''no sector bitmap entry'')) (\<lambda>sb_entry.
      let sb_offset = entry_file_offset sb_entry in
      if logical_sector_size (vd_metadata d) = 0 then Inl (Panic ''attempt to divide by zero'')
      else
        let sectors_per_block =
              (ucast (disk_block_size d) :: u64) div ucast (logical_sector_size (vd_metadata d));
            bits_per_block = unat sectors_per_block;
            bytes_per_block = (bits_per_block + 7) div 8;
            bit_offset_in_chunk = block_in_chunk * bits_per_block;
            byte_offset_in_chunk = bit_offset_in_chunk div 8 in
        if bit_offset_in_chunk mod 8 \<noteq> 0
        then Inl (Unsupported ''sub-byte sector bitmap alignment is not yet supported'')
        else read_at f (sb_offset + word_of_nat byte_offset_in_chunk) bytes_per_block)))"

definition read_block :: "vhdx_disk \<Rightarrow> dfile \<Rightarrow> u64 \<Rightarrow> block_read res" where
  "read_block d f block_index =
    bindR (disk_block_count d) (\<lambda>count.
    if block_index \<ge> count then Inl (VirtOffsetOutOfRange (block_index * ucast (disk_block_size d)))
    else
      bindR (payload_entry (vd_bat d) block_index) (\<lambda>o'.
      bindR (ok_or o' (InvalidStructure ''BAT entry missing for block'')) (\<lambda>entry.
      case PayloadState_from_raw (entry_state entry) of
        FullyPresent \<Rightarrow>
          bindR (read_exact_at f (entry_file_offset entry) (unat (disk_block_size d))) (\<lambda>buf. Inr (Full buf))
      | Zero \<Rightarrow> Inr (Full (replicate (unat (disk_block_size d)) 0))
      | PartiallyPresent \<Rightarrow>
          bindR (sector_bitmap_entry (vd_bat d) block_index) (\<lambda>so.
          bindR (ok_or so (InvalidStructure ''missing sector bitmap'')) (\<lambda>sb_entry.
          if SectorBitmapState_from_raw (entry_state sb_entry) \<noteq> SbPresent
          then Inl (InvalidStructure ''PartiallyPresent block without Present sector bitmap'')
          else
            bindR (read_exact_at f (entry_file_offset entry) (unat (disk_block_size d))) (\<lambda>payload.
            bindR (read_sector_bitmap d f block_index) (\<lambda>bm. Inr (Partial payload bm)))))
      | NotPresent \<Rightarrow> Inr Absent
      | Unmapped \<Rightarrow> Inr Absent
      | Undefined \<Rightarrow> Inr Absent
      | OtherState s \<Rightarrow> Inl (InvalidStructure ''unknown payload state''))))"

definition rewrite_region_tables :: "externs \<Rightarrow> vhdx_disk \<Rightarrow> dfile \<Rightarrow> dfile res" where
  "rewrite_region_tables E d f =
    bindR (RegionTable_encode E (vd_region d)) (\<lambda>raw.
    bindR (write_all_at f (region_table_offset 0) raw) (\<lambda>f1.
    write_all_at f1 (region_table_offset 1) raw))"

section \<open>What an open establishes\<close>

definition is_panic :: "'a res \<Rightarrow> bool" where
  "is_panic r = (case r of Inl (Panic s) \<Rightarrow> True | _ \<Rightarrow> False)"

lemma is_panic_simps [simp]:
  "\<not> is_panic (Inr x)" "is_panic (Inl (Panic s))"
  "is_panic (Inl e) \<longleftrightarrow> (\<exists>s. e = Panic s)"
  by (auto simp: is_panic_def split: error.splits)

lemma is_panic_bindR [simp]:
  "is_panic (bindR r k) \<longleftrightarrow> is_panic r \<or> (\<exists>a. r = Inr a \<and> is_panic (k a))"
  by (cases r) simp_all

text \<open>
  The well-formedness a disk has: block size, block count and chunk ratio are defined,
  the table uses them, sectors and chunks are not empty as soon as there is a block, and
  the regions passed the layout check.
\<close>

definition disk_wf :: "vhdx_disk \<Rightarrow> bool" where
  "disk_wf d \<longleftrightarrow> disk_block_size d \<noteq> 0 \<and>
     block_count (vd_metadata d) = Inr (bat_block_count (vd_bat d)) \<and>
     chunk_ratio (vd_metadata d) = Inr (bat_chunk_ratio (vd_bat d)) \<and>
     (bat_block_count (vd_bat d) \<noteq> 0 \<longrightarrow> bat_chunk_ratio (vd_bat d) \<noteq> 0) \<and>
     validate_layout (vd_region d) = Inr ()"

lemma Bat_parse_fields:
  "Bat_parse buf n cr hp = Inr b \<Longrightarrow>
    bat_chunk_ratio b = cr \<and> bat_block_count b = n \<and> (n \<noteq> 0 \<longrightarrow> cr \<noteq> 0)"
  by (auto simp: Bat_parse_def total_bat_entries_def res_simps Let_def split: if_splits)

lemma Bat_parse_fits: "Bat_parse buf n cr hp = Inr b \<Longrightarrow> length (bat_entries b) * 8 \<le> length buf"
  by (auto simp: Bat_parse_def res_simps)

lemma open_wf:
  assumes "VhdxDisk_open E p found ro = Inr (d, f)"
  shows "disk_wf d" and "found = Some f" and "vd_read_only d = ro"
    and "\<not> ro \<Longrightarrow> log_guid (active_header d) = nil_uuid"
    and "HeaderPair_read E f = Inr (vd_header_pair d)"
proof -
  show "found = Some f" "vd_read_only d = ro" "HeaderPair_read E f = Inr (vd_header_pair d)"
    "\<not> ro \<Longrightarrow> log_guid (active_header d) = nil_uuid"
    using assms by (auto simp: VhdxDisk_open_def res_simps active_header_def split: if_splits)
  have "block_size (vd_metadata d) \<noteq> 0"
      "block_count (vd_metadata d) = Inr (bat_block_count (vd_bat d))"
      "chunk_ratio (vd_metadata d) = Inr (bat_chunk_ratio (vd_bat d))"
      "bat_block_count (vd_bat d) \<noteq> 0 \<longrightarrow> bat_chunk_ratio (vd_bat d) \<noteq> 0"
      "validate_layout (vd_region d) = Inr ()"
    using assms
    by (auto simp: VhdxDisk_open_def res_simps block_count_def dest!: Bat_parse_fields split: if_splits)
  then show "disk_wf d" by (simp add: disk_wf_def disk_block_size_def)
qed

lemma disk_wf_sector:
  assumes "disk_wf d" and "bat_block_count (vd_bat d) \<noteq> 0"
  shows "logical_sector_size (vd_metadata d) \<noteq> 0"
proof
  assume "logical_sector_size (vd_metadata d) = 0"
  then have "chunk_ratio (vd_metadata d) = Inr 0"
    using assms(1) by (simp add: chunk_ratio_def disk_wf_def disk_block_size_def)
  with assms show False by (auto simp: disk_wf_def)
qed

section \<open>Geometry\<close>

lemma div_ceil_nat:
  assumes "b \<noteq> (0 :: u64)"
  shows "unat (div_ceil a b) = (unat a + (unat b - 1)) div unat b"
proof -
  have b: "0 < unat b" using assms by (simp add: unat_gt_0)
  define q where "q = unat a div unat b"
  define r where "r = unat a mod unat b"
  have a: "unat a = q * unat b + r" and r: "r < unat b"
    using b by (simp_all add: q_def r_def)
  show ?thesis
  proof (cases "r = 0")
    case True
    then have "a mod b = 0" by (simp add: unat_eq_zero [symmetric] unat_mod r_def)
    then have "unat (div_ceil a b) = q" by (simp add: div_ceil_def unat_div q_def)
    moreover have "(unat a + (unat b - 1)) div unat b = q"
      using b div_mult_self3 [of "unat b" q "unat b - 1"] by (simp only: a True add_0_right) simp
    ultimately show ?thesis by simp
  next
    case False
    then have m: "a mod b \<noteq> 0" by (simp add: unat_eq_zero [symmetric] unat_mod r_def)
    have "2 \<le> unat b" using r False by simp
    then have "q * 2 \<le> q * unat b" by (rule mult_le_mono2)
    then have "q * 2 \<le> unat a" unfolding a by (rule trans_le_add1)
    then have "q < 9223372036854775808" using unat_u64_lt [of a] by linarith
    then have "unat (a div b + 1) = q + 1"
      by (subst unat_add_u64) (simp_all add: unat_div q_def)
    then have "unat (div_ceil a b) = q + 1" using m by (simp add: div_ceil_def)
    moreover have "(unat a + (unat b - 1)) div unat b = q + 1"
    proof -
      have "unat a + (unat b - 1) = (q + 1) * unat b + (r - 1)" using a r False by simp
      moreover have "(r - 1) div unat b = 0" using r by simp
      ultimately show ?thesis
        using b div_mult_self3 [of "unat b" "q + 1" "r - 1"] by simp
    qed
    ultimately show ?thesis by simp
  qed
qed

text \<open>
  Block count: the blocks \<open>0 \<dots> block_count - 1\<close> are exactly those that start
  inside the virtual disk, the last one possibly reaching over its end; the computation
  panics exactly for a zero block size.
\<close>

lemma block_count_covers:
  "(is_panic (block_count md) \<longleftrightarrow> block_size md = 0) \<and>
   (\<forall>n. block_count md = Inr n \<longrightarrow>
     (\<forall>b. b < unat n \<longleftrightarrow> b * unat (block_size md) < unat (virtual_disk_size md)))"
proof -
  have "b < unat n \<longleftrightarrow> b * unat (block_size md) < unat (virtual_disk_size md)"
    if n: "block_count md = Inr n" for n b
  proof -
    let ?v = "unat (virtual_disk_size md)" and ?s = "unat (block_size md)"
    have s: "block_size md \<noteq> 0" using n by (auto simp: block_count_def split: if_splits)
    then have pos: "0 < ?s" by (simp add: unat_gt_0)
    have "(ucast (block_size md) :: u64) \<noteq> 0"
      using pos by (simp only: unat_gt_0 [symmetric] unat_ucast_u32_u64)
    then have "unat n = (?v + (?s - 1)) div ?s"
      using n s div_ceil_nat by (auto simp: block_count_def)
    then have "b < unat n \<longleftrightarrow> Suc b * ?s \<le> ?v + (?s - 1)"
      using pos by (simp add: less_eq_div_iff_mult_less_eq Suc_le_eq [symmetric] del: mult_Suc)
    also have "\<dots> \<longleftrightarrow> b * ?s < ?v" using pos by auto
    finally show ?thesis .
  qed
  moreover have "is_panic (block_count md) \<longleftrightarrow> block_size md = 0"
    by (simp add: block_count_def)
  ultimately show ?thesis by blast
qed

section \<open>Blocks\<close>

text \<open>The sector at offset \<open>lo\<close> of a block, when the block holds it.\<close>

fun sector_in :: "nat \<Rightarrow> block_read \<Rightarrow> nat \<Rightarrow> bytes option" where
  "sector_in sz (Full data) lo = Some (bslice data lo (lo + sz))"
| "sector_in sz (Partial payload bm) lo =
    (if bit_is_set bm (lo div sz) then Some (bslice payload lo (lo + sz)) else None)"
| "sector_in sz Absent lo = None"

text \<open>
  What a client may rely on of a reader of blocks: the number of blocks, their size, and
  that whatever is delivered has the promised sizes.
\<close>

locale block_device =
  fixes rd :: "'d \<Rightarrow> u64 \<Rightarrow> block_read res"
    and size_of :: "'d \<Rightarrow> nat"
    and count_of :: "'d \<Rightarrow> nat"
    and ok :: "'d \<Rightarrow> bool"
  assumes full_length: "ok d \<Longrightarrow> rd d b = Inr (Full buf) \<Longrightarrow> length buf = size_of d"
    and partial_length: "ok d \<Longrightarrow> rd d b = Inr (Partial buf bm) \<Longrightarrow> length buf = size_of d"
    and out_of_range: "ok d \<Longrightarrow> count_of d \<le> unat b \<Longrightarrow> \<exists>v. rd d b = Inl (VirtOffsetOutOfRange v)"
    and size_pos: "ok d \<Longrightarrow> 0 < size_of d"
begin

lemma sector_in_length:
  assumes "ok d" and "rd d b = Inr r" and "lo + sz \<le> size_of d" and "sector_in sz r lo = Some bs"
  shows "length bs = sz"
  using assms full_length [OF assms(1)] partial_length [OF assms(1)]
  by (cases r) (auto simp: length_slice split: if_splits)

lemma read_in_range: "ok d \<Longrightarrow> rd d b = Inr r \<Longrightarrow> unat b < count_of d"
  using out_of_range [of d b] by (cases "unat b < count_of d") auto

lemma payload_length:
  "ok d \<Longrightarrow> rd d b = Inr r \<Longrightarrow> r = Full data \<or> r = Partial data bm \<Longrightarrow> length data = size_of d"
  using full_length [of d b data] partial_length [of d b data bm] by auto

end

definition disk_ok :: "vhdx_disk \<times> dfile \<Rightarrow> bool" where
  "disk_ok l = disk_wf (fst l)"

definition link_read :: "vhdx_disk \<times> dfile \<Rightarrow> u64 \<Rightarrow> block_read res" where
  "link_read l b = read_block (fst l) (snd l) b"

definition link_size :: "vhdx_disk \<times> dfile \<Rightarrow> nat" where
  "link_size l = unat (disk_block_size (fst l))"

definition link_count :: "vhdx_disk \<times> dfile \<Rightarrow> nat" where
  "link_count l = unat (bat_block_count (vd_bat (fst l)))"

lemma payload_entry_ok:
  "bat_chunk_ratio b \<noteq> 0 \<Longrightarrow> \<exists>o'. payload_entry b k = Inr o'"
  "bat_chunk_ratio b \<noteq> 0 \<Longrightarrow> \<exists>o'. sector_bitmap_entry b k = Inr o'"
  by (simp_all add: payload_entry_def payload_index_def sector_bitmap_entry_def sector_bitmap_index_def)

lemma disk_wf_count: "disk_wf d \<Longrightarrow> disk_block_count d = Inr (bat_block_count (vd_bat d))"
  by (simp add: disk_block_count_def disk_wf_def)

lemma read_block_InrD:
  assumes "read_block d f b = Inr r"
  shows "(\<exists>buf. r = Full buf \<and> length buf = unat (disk_block_size d)) \<or>
    (\<exists>payload bm. r = Partial payload bm \<and> length payload = unat (disk_block_size d) \<and>
      read_sector_bitmap d f b = Inr bm) \<or> r = Absent"
proof -
  obtain n o' entry where e: "disk_block_count d = Inr n" "\<not> n \<le> b"
      "payload_entry (vd_bat d) b = Inr o'" "o' = Some entry"
    using assms by (auto simp: read_block_def res_simps split: if_splits)
  show ?thesis
    using assms e
    by (cases "PayloadState_from_raw (entry_state entry)")
       (auto simp: read_block_def res_simps split: if_splits)
qed

lemma read_block_lengths:
  assumes "read_block d f b = Inr r"
  shows "r = Full buf \<Longrightarrow> length buf = unat (disk_block_size d)"
    and "r = Partial buf bm \<Longrightarrow> length buf = unat (disk_block_size d)"
  using read_block_InrD [OF assms] by auto

interpretation disk_device: block_device link_read link_size link_count disk_ok
  by unfold_locales
     (auto simp: link_read_def link_size_def link_count_def disk_ok_def read_block_lengths
       read_block_def disk_wf_count word_le_nat_alt disk_wf_def unat_gt_0)

lemma read_block_total:
  assumes "disk_wf d"
  shows "\<not> is_panic (read_block d f b)"
    and "read_block d f b = Inr (Partial buf bm) \<Longrightarrow>
      length bm = (unat (disk_block_size d) div unat (logical_sector_size (vd_metadata d)) + 7) div 8"
proof -
  let ?n = "bat_block_count (vd_bat d)"
  show "\<not> is_panic (read_block d f b)"
  proof (cases "b < ?n")
    case False
    then show ?thesis by (simp add: read_block_def disk_wf_count [OF assms] not_less)
  next
    case True
    then have n: "?n \<noteq> 0" by auto
    then have cr: "bat_chunk_ratio (vd_bat d) \<noteq> 0" using assms by (simp add: disk_wf_def)
    have ls: "logical_sector_size (vd_metadata d) \<noteq> 0" by (rule disk_wf_sector [OF assms n])
    have io: "\<not> is_panic (read_exact_at f o' m)" "\<not> is_panic (read_at f o' m)" for o' m
      by (simp_all add: read_exact_at_def read_at_def seek_def Let_def)
    obtain po so where e: "payload_entry (vd_bat d) b = Inr po" "sector_bitmap_entry (vd_bat d) b = Inr so"
      using payload_entry_ok [OF cr] by blast
    have ok: "\<not> is_panic (ok_or x (InvalidStructure s))" for x :: "bat_entry option" and s
      by (cases x) simp_all
    have bm: "\<not> is_panic (read_sector_bitmap d f b)"
      using assms cr ls by (simp add: read_sector_bitmap_def disk_wf_def e io ok Let_def)
    show ?thesis
    proof (cases po)
      case None
      then show ?thesis by (simp add: read_block_def disk_wf_count [OF assms] e)
    next
      case (Some entry)
      with True show ?thesis
        by (cases "PayloadState_from_raw (entry_state entry)")
           (simp_all add: read_block_def disk_wf_count [OF assms] e io ok bm not_le [symmetric])
    qed
  qed
  show "length bm = (unat (disk_block_size d) div unat (logical_sector_size (vd_metadata d)) + 7) div 8"
    if "read_block d f b = Inr (Partial buf bm)"
  proof -
    have "read_sector_bitmap d f b = Inr bm"
      using read_block_InrD [OF that] by simp
    then show ?thesis
      by (auto simp: read_sector_bitmap_def res_simps Let_def unat_div dest!: read_at_length split: if_splits)
  qed
qed


text \<open>
  C16 (reading never panics): on a disk that was opened, whatever its bytes, reading any
  block number is free of panics: it yields a block, absent or of exactly the block size
  with a bitmap of one bit per sector, or an error value.
\<close>

theorem read_block_never_panics:
  assumes "VhdxDisk_open E p found ro = Inr (d, f)"
  shows "case read_block d f' b of
      Inl e \<Rightarrow> \<forall>s. e \<noteq> Panic s
    | Inr Absent \<Rightarrow> True
    | Inr (Full buf) \<Rightarrow> length buf = unat (disk_block_size d)
    | Inr (Partial payload bm) \<Rightarrow> length payload = unat (disk_block_size d) \<and>
        length bm = (unat (disk_block_size d) div unat (logical_sector_size (vd_metadata d)) + 7) div 8"
proof -
  have wf: "disk_wf d" by (rule open_wf(1) [OF assms])
  show ?thesis
    using read_block_total [OF wf, of f' b] read_block_lengths [of d f' b]
    by (auto split: sum.split block_read.split simp: is_panic_def)
qed

section \<open>A concrete image\<close>

text \<open>
  A file laid out as the writer of the crate lays it out: the file type, the two headers,
  the two region tables, the metadata region at 2 MiB, the table at 3 MiB and payload
  bytes from 4 MiB on.
\<close>

definition sample_image :: "externs \<Rightarrow> bytes \<Rightarrow> bytes \<Rightarrow> bytes \<Rightarrow> bytes \<Rightarrow> dfile" where
  "sample_image E regions md_raw bat_raw payload =
    patch (patch (patch (patch (patch (patch (patch (patch (blank_file 8388608)
      0 FILE_TYPE_SIGNATURE) 65536 (Header_encode E (sample_header 1)))
      131072 (Header_encode E (sample_header 2))) 196608 regions) 262144 regions)
      2097152 md_raw) 3145728 bat_raw) 4194304 payload"

lemma sample_image_open:
  assumes "uuid_laws E" and "RegionTable_encode E sample_regions = Inr regions" and "length regions = 65536"
    and "RegionTable_parse E regions = sample_regions\<lparr>rt_checksum_ok := True\<rparr>"
    and "length md_raw = 1048576" and "length bat_raw = 1048576" and "length payload \<le> 4194304"
    and "Metadata_parse E md_raw = Inr md" and "block_count md = Inr n" and "chunk_ratio md = Inr ratio"
    and "Bat_parse bat_raw n ratio (fp_has_parent (file_parameters md)) = Inr table"
  shows "\<exists>d. VhdxDisk_open E p (Some (sample_image E regions md_raw bat_raw payload)) ro =
      Inr (d, sample_image E regions md_raw bat_raw payload) \<and> vd_metadata d = md \<and> vd_bat d = table"
    and "read_exact_at (sample_image E regions md_raw bat_raw payload) 4194304 (length payload) = Inr payload"
proof -
  let ?f = "sample_image E regions md_raw bat_raw payload"
  have len: "f_len ?f = 8388608"
    using assms by (simp add: sample_image_def blank_file_def)
  note fb = sample_image_def blank_file_def file_bytes_patch_same file_bytes_patch_other
  have "file_bytes ?f 4194304 (length payload) = payload" by (simp add: fb)
  then show "read_exact_at ?f 4194304 (length payload) = Inr payload"
    using assms(7) by (simp add: res_simps len)
  have b: "file_bytes ?f 0 8 = FILE_TYPE_SIGNATURE"
      "file_bytes ?f 65536 65536 = Header_encode E (sample_header 1)"
      "file_bytes ?f 131072 65536 = Header_encode E (sample_header 2)"
      "file_bytes ?f 196608 65536 = regions" "file_bytes ?f 262144 65536 = regions"
      "file_bytes ?f 2097152 1048576 = md_raw" "file_bytes ?f 3145728 1048576 = bat_raw"
    using assms(1,3,5,6,7) by (simp_all add: fb)
  have "verify_file_type ?f = Inr ()"
    by (simp add: verify_file_type_def res_simps bindR_def read_exact_at_def seek_def b(1) len offset_defs)
  moreover have "\<exists>hp. HeaderPair_read E ?f = Inr hp \<and> log_guid (HeaderPair_active hp) = nil_uuid"
  proof -
    have s: "slot E ?f 0 = stamped E (sample_header 1)" "slot E ?f (Suc 0) = stamped E (sample_header 2)"
      using assms(1) by (simp_all add: slot_def b header_roundtrip_parse)
    have "has_slots ?f" by (simp add: has_slots_def len)
    then show ?thesis
      by (simp add: HeaderPair_read_slots s HeaderPair_active_def)
         (simp add: stamped_def sample_header_def blank_header_def)
  qed
  moreover have "\<exists>rp. RegionTablePair_read E ?f = Inr rp \<and>
      RegionTablePair_active rp = Inr (sample_regions\<lparr>rt_checksum_ok := True\<rparr>)"
    by (simp add: RegionTablePair_read_def read_exact_at_def seek_def len b assms(4) Let_def
        RegionTablePair_active_def)
  moreover have "validate_layout (sample_regions\<lparr>rt_checksum_ok := True\<rparr>) = Inr ()"
    by (simp add: validate_layout_def Let_def sample_regions_def)
  moreover have "RegionTable_bat (sample_regions\<lparr>rt_checksum_ok := True\<rparr>) = Some
      \<lparr>re_guid = REGION_GUID_BAT, re_file_offset = 3145728, re_length = 1048576, re_required = True\<rparr>"
    "RegionTable_metadata (sample_regions\<lparr>rt_checksum_ok := True\<rparr>) = Some
      \<lparr>re_guid = REGION_GUID_METADATA, re_file_offset = 2097152, re_length = 1048576, re_required = True\<rparr>"
    by (simp_all add: RegionTable_bat_def RegionTable_metadata_def RegionTable_find_def sample_regions_def
        REGION_GUID_BAT_def REGION_GUID_METADATA_def)
  ultimately show "\<exists>d. VhdxDisk_open E p (Some ?f) ro = Inr (d, ?f) \<and> vd_metadata d = md \<and> vd_bat d = table"
    by (auto simp: VhdxDisk_open_def read_exact_at_def seek_def len b assms(8-))
qed

text \<open>Two blocks of 1 MiB: the first at 4 MiB in the file, the second not present.\<close>

definition small_metadata :: "bool \<Rightarrow> metadata" where
  "small_metadata parent = \<lparr>file_parameters = \<lparr>fp_block_size = 1048576, leave_blocks_allocated = False,
       fp_has_parent = parent\<rparr>, virtual_disk_size = 2097152, logical_sector_size = 512,
     physical_sector_size = 4096, page_83_data = 77, md_parent_locator = None, extras = []\<rparr>"

definition small_bat_raw :: "u8 \<Rightarrow> u8 \<Rightarrow> bytes" where
  "small_bat_raw s0 s1 = write_u64 (entry_raw (BatEntry_new s0 4194304))
     @ write_u64 (entry_raw (BatEntry_new s1 5242880)) @ replicate 1048560 0"

lemma small_geometry:
  "block_count (small_metadata hp) = Inr 2" "chunk_ratio (small_metadata hp) = Inr 4096"
  by (simp_all add: block_count_def chunk_ratio_def block_size_def small_metadata_def div_ceil_def
      push_bit_eq_mult)

lemma small_bat_parse:
  "Bat_parse (small_bat_raw s0 s1) 2 4096 False =
    Inr \<lparr>bat_entries = [BatEntry_new s0 4194304, BatEntry_new s1 5242880], bat_chunk_ratio = 4096,
      bat_block_count = 2\<rparr>"
  by (simp add: Bat_parse_def total_bat_entries_def Let_def small_bat_raw_def upt_rec bslice_def)

definition small_image :: "u8 \<Rightarrow> u8 \<Rightarrow> bytes \<Rightarrow> dfile" where
  "small_image s0 s1 payload =
    (case (RegionTable_encode ref_externs sample_regions,
       Metadata_encode ref_externs (small_metadata False) 1048576) of
       (Inr regions, Inr md_raw) \<Rightarrow> sample_image ref_externs regions md_raw (small_bat_raw s0 s1) payload
     | _ \<Rightarrow> blank_file 0)"

lemma small_image_open:
  assumes "length payload \<le> 4194304"
  shows "\<exists>d. VhdxDisk_open ref_externs p (Some (small_image s0 s1 payload)) ro =
      Inr (d, small_image s0 s1 payload) \<and>
      vd_metadata d = small_metadata False \<and> vd_bat d = \<lparr>bat_entries =
        [BatEntry_new s0 4194304, BatEntry_new s1 5242880], bat_chunk_ratio = 4096, bat_block_count = 2\<rparr>"
    and "read_exact_at (small_image s0 s1 payload) 4194304 (length payload) = Inr payload"
proof -
  obtain regions where r: "RegionTable_encode ref_externs sample_regions = Inr regions"
      "length regions = 65536"
      "RegionTable_parse ref_externs regions = sample_regions\<lparr>rt_checksum_ok := True\<rparr>"
    using region_table_roundtrip_parse [OF ref_uuid_laws, of sample_regions] by auto
  have ok: "metadata_ok ref_externs (small_metadata False)"
    by (simp add: metadata_ok_def small_metadata_def)
  have "\<exists>buf. Metadata_encode ref_externs (small_metadata False) 1048576 = Inr buf"
    by (intro Metadata_encode_fits [OF ref_uuid_laws])
       (simp_all add: metadata_items_def Let_def small_metadata_def write_guid_simps ref_uuid_laws)
  then obtain md_raw where md: "Metadata_encode ref_externs (small_metadata False) 1048576 = Inr md_raw" ..
  have parse: "Metadata_parse ref_externs md_raw = Inr (small_metadata False)"
    by (rule metadata_roundtrip_parse [OF ref_uuid_laws ok md]) simp_all
  have len: "length md_raw = 1048576"
    using Metadata_encode_length [OF ref_uuid_laws md]
    by (simp add: metadata_items_def Let_def small_metadata_def)
  have img: "small_image s0 s1 payload =
      sample_image ref_externs regions md_raw (small_bat_raw s0 s1) payload"
    by (simp add: small_image_def r(1) md)
  have bat: "Bat_parse (small_bat_raw s0 s1) 2 4096 (fp_has_parent (file_parameters (small_metadata False))) =
      Inr \<lparr>bat_entries = [BatEntry_new s0 4194304, BatEntry_new s1 5242880], bat_chunk_ratio = 4096,
        bat_block_count = 2\<rparr>"
    by (simp add: small_metadata_def small_bat_parse)
  have bl: "length (small_bat_raw s0 s1) = 1048576" by (simp add: small_bat_raw_def)
  note open' = sample_image_open [OF ref_uuid_laws r len bl assms parse small_geometry bat]
  show "\<exists>d. VhdxDisk_open ref_externs p (Some (small_image s0 s1 payload)) ro =
      Inr (d, small_image s0 s1 payload) \<and>
      vd_metadata d = small_metadata False \<and> vd_bat d = \<lparr>bat_entries =
        [BatEntry_new s0 4194304, BatEntry_new s1 5242880], bat_chunk_ratio = 4096, bat_block_count = 2\<rparr>"
    unfolding img by (rule open'(1))
  show "read_exact_at (small_image s0 s1 payload) 4194304 (length payload) = Inr payload"
    unfolding img by (rule open'(2))
qed

lemma small_disk_read:
  assumes "vd_metadata d = small_metadata False" and "vd_bat d = \<lparr>bat_entries =
        [BatEntry_new s0 4194304, BatEntry_new s1 5242880], bat_chunk_ratio = 4096, bat_block_count = 2\<rparr>"
    and "unat s0 < 8" and "unat s1 < 8"
  shows "disk_wf d \<longleftrightarrow> validate_layout (vd_region d) = Inr ()" and "disk_block_size d = 1048576"
    and "read_block d f 0 = (case PayloadState_from_raw s0 of
        FullyPresent \<Rightarrow> bindR (read_exact_at f 4194304 1048576) (\<lambda>buf. Inr (Full buf))
      | Zero \<Rightarrow> Inr (Full (replicate 1048576 0))
      | PartiallyPresent \<Rightarrow> Inl (InvalidStructure ''missing sector bitmap'')
      | OtherState _ \<Rightarrow> Inl (InvalidStructure ''unknown payload state'')
      | _ \<Rightarrow> Inr Absent)"
    and "read_block d f 1 = (case PayloadState_from_raw s1 of
        FullyPresent \<Rightarrow> bindR (read_exact_at f 5242880 1048576) (\<lambda>buf. Inr (Full buf))
      | Zero \<Rightarrow> Inr (Full (replicate 1048576 0))
      | PartiallyPresent \<Rightarrow> Inl (InvalidStructure ''missing sector bitmap'')
      | OtherState _ \<Rightarrow> Inl (InvalidStructure ''unknown payload state'')
      | _ \<Rightarrow> Inr Absent)"
proof -
  have g: "block_count (vd_metadata d) = Inr 2" "chunk_ratio (vd_metadata d) = Inr 4096"
      "disk_block_size d = 1048576"
    by (simp_all add: assms(1) small_geometry disk_block_size_def) (simp add: block_size_def small_metadata_def)
  show "disk_block_size d = 1048576" by (rule g)
  show "disk_wf d \<longleftrightarrow> validate_layout (vd_region d) = Inr ()"
    by (simp add: disk_wf_def g assms(2))
  have e: "payload_entry (vd_bat d) 0 = Inr (Some (BatEntry_new s0 4194304))"
      "payload_entry (vd_bat d) 1 = Inr (Some (BatEntry_new s1 5242880))"
      "sector_bitmap_entry (vd_bat d) 0 = Inr None" "sector_bitmap_entry (vd_bat d) 1 = Inr None"
    by (simp_all add: assms(2) payload_entry_def payload_index_def sector_bitmap_entry_def
        sector_bitmap_index_def entry_at_def)
  have st: "entry_state (BatEntry_new s0 4194304) = s0" "entry_state (BatEntry_new s1 5242880) = s1"
      "entry_file_offset (BatEntry_new s0 4194304) = 4194304"
      "entry_file_offset (BatEntry_new s1 5242880) = 5242880"
    using assms(3,4) by (simp_all add: entry_state_new entry_file_offset_new)
  have ac: "disk_block_count d = Inr 2" by (simp add: disk_block_count_def g)
  show "read_block d f 0 = (case PayloadState_from_raw s0 of
        FullyPresent \<Rightarrow> bindR (read_exact_at f 4194304 1048576) (\<lambda>buf. Inr (Full buf))
      | Zero \<Rightarrow> Inr (Full (replicate 1048576 0))
      | PartiallyPresent \<Rightarrow> Inl (InvalidStructure ''missing sector bitmap'')
      | OtherState _ \<Rightarrow> Inl (InvalidStructure ''unknown payload state'')
      | _ \<Rightarrow> Inr Absent)"
    by (simp add: read_block_def ac e st g(3) split: payload_state.split)
  show "read_block d f 1 = (case PayloadState_from_raw s1 of
        FullyPresent \<Rightarrow> bindR (read_exact_at f 5242880 1048576) (\<lambda>buf. Inr (Full buf))
      | Zero \<Rightarrow> Inr (Full (replicate 1048576 0))
      | PartiallyPresent \<Rightarrow> Inl (InvalidStructure ''missing sector bitmap'')
      | OtherState _ \<Rightarrow> Inl (InvalidStructure ''unknown payload state'')
      | _ \<Rightarrow> Inr Absent)"
    by (simp add: read_block_def ac e st g(3) word_le_nat_alt split: payload_state.split)
qed


theorem read_block_never_panics_witness:
  "\<exists>f d. VhdxDisk_open ref_externs ''a.vhdx'' (Some f) True = Inr (d, f) \<and>
    (case read_block d f 1 of Inl e \<Rightarrow> \<forall>s. e \<noteq> Panic s | Inr Absent \<Rightarrow> True
      | Inr (Full buf) \<Rightarrow> length buf = 1048576 | Inr (Partial _ _) \<Rightarrow> True)"
proof -
  let ?f = "small_image 6 2 []"
  obtain d where o: "VhdxDisk_open ref_externs ''a.vhdx'' (Some ?f) True = Inr (d, ?f)"
      "vd_metadata d = small_metadata False"
    using small_image_open(1) [of "[]" "''a.vhdx''" 6 2 True] by auto
  moreover have "disk_block_size d = 1048576"
    using o(2) by (simp add: disk_block_size_def block_size_def small_metadata_def)
  ultimately show ?thesis
    using read_block_never_panics [OF o(1), of ?f 1]
    by (intro exI [of _ ?f] exI [of _ d]) (auto split: sum.splits block_read.splits)
qed

theorem block_count_covers_witness:
  "block_count (small_metadata False) = Inr 2 \<and>
    (\<forall>b. b < 2 \<longleftrightarrow> b * unat (block_size (small_metadata False)) < 2097152)"
proof -
  have "virtual_disk_size (small_metadata False) = 2097152" by (simp add: small_metadata_def)
  then show ?thesis
    using conjunct2 [OF block_count_covers [of "small_metadata False"], rule_format, of 2]
      small_geometry(1) [of False] by simp
qed

end
