(* ===== verification/Vhdx_Flatten.thy ===== *)
theory Vhdx_Flatten
  imports Vhdx_Disk
begin

text \<open>
  \<open>flatten.rs\<close>: the merge of one block of the flattened disk from the links of a chain,
  the leaf first.  The links may have block sizes other than the leaf's.  The state the
  loops carry is the composite buffer with one flag per sector.
\<close>

section \<open>Merging one block\<close>

fun all_filled :: "bool list \<Rightarrow> nat list \<Rightarrow> bool res" where
  "all_filled filled [] = Inr True"
| "all_filled filled (s # ss) =
    (if s \<ge> length filled then Inl (Panic ''index out of bounds'')
     else if filled ! s then all_filled filled ss else Inr False)"

text \<open>
  The loop over the sectors of the overlap.  For a fully present block \<open>has\<close> is constantly
  true, for a partial one it looks the sector up in the bitmap.
\<close>

fun copy_sectors ::
    "(nat \<Rightarrow> bool) \<Rightarrow> bytes \<Rightarrow> u64 \<Rightarrow> u64 \<Rightarrow> nat \<Rightarrow> nat list \<Rightarrow> bytes \<times> bool list \<Rightarrow> (bytes \<times> bool list) res" where
  "copy_sectors has data v_start link_v_start sz [] st = Inr st"
| "copy_sectors has data v_start link_v_start sz (s # ss) (composite, filled) =
    (if s \<ge> length filled then Inl (Panic ''index out of bounds'')
     else if filled ! s then copy_sectors has data v_start link_v_start sz ss (composite, filled)
     else
       let dlo = s * sz; dhi = dlo + sz; src_v = v_start + word_of_nat dlo;
           slo = unat (src_v - link_v_start) in
       if has (slo div sz) then
         let shi = slo + sz in
         if dhi > length composite \<or> shi > length data then Inl (Panic ''range end index out of range'')
         else copy_sectors has data v_start link_v_start sz ss
           (bput dlo (bslice data slo shi) composite, filled[s := True])
       else copy_sectors has data v_start link_v_start sz ss (composite, filled))"

text \<open>
  The body of the loop over the blocks of a link; a \<open>continue\<close> leaves the state as it is.
\<close>

definition fill_block ::
    "vhdx_disk \<Rightarrow> dfile \<Rightarrow> u64 \<Rightarrow> u64 \<Rightarrow> u64 \<Rightarrow> u64 \<Rightarrow> u64 \<Rightarrow> bytes \<times> bool list \<Rightarrow> (bytes \<times> bool list) res" where
  "fill_block d f v_start v_end sector_size link_bs link_blk st =
    (let link_v_start = link_blk * link_bs;
         ov_start = max v_start link_v_start;
         ov_end = min v_end (link_v_start + link_bs) in
     if ov_start \<ge> ov_end then Inr st
     else if sector_size = 0 then Inl (Panic ''attempt to divide by zero'')
     else
       let dst_sec_lo = unat ((ov_start - v_start) div sector_size);
           dst_sec_hi = unat ((ov_end - v_start) div sector_size) in
       bindR (all_filled (snd st) [dst_sec_lo..<dst_sec_hi]) (\<lambda>skip.
       if skip then Inr st
       else
         bindR (read_block d f link_blk) (\<lambda>r.
         case r of
           Absent \<Rightarrow> Inr st
         | Full data \<Rightarrow>
             copy_sectors (\<lambda>_. True) data v_start link_v_start (unat sector_size) [dst_sec_lo..<dst_sec_hi] st
         | Partial payload bitmap \<Rightarrow>
             copy_sectors (bit_is_set bitmap) payload v_start link_v_start (unat sector_size)
               [dst_sec_lo..<dst_sec_hi] st)))"

fun fill_blocks ::
    "vhdx_disk \<Rightarrow> dfile \<Rightarrow> u64 \<Rightarrow> u64 \<Rightarrow> u64 \<Rightarrow> u64 \<Rightarrow> u64 \<Rightarrow> u64 \<Rightarrow> nat \<Rightarrow> bytes \<times> bool list
      \<Rightarrow> (bytes \<times> bool list) res" where
  "fill_blocks d f v_start v_end sector_size link_block_count link_bs link_blk 0 st = Inr st"
| "fill_blocks d f v_start v_end sector_size link_block_count link_bs link_blk (Suc n) st =
    (if link_blk \<ge> link_block_count then Inr st
     else
       bindR (fill_block d f v_start v_end sector_size link_bs link_blk st)
         (fill_blocks d f v_start v_end sector_size link_block_count link_bs (link_blk + 1) n))"

definition fill_from_link ::
    "vhdx_disk \<times> dfile \<Rightarrow> u64 \<Rightarrow> u64 \<Rightarrow> bytes \<times> bool list \<Rightarrow> (bytes \<times> bool list) res" where
  "fill_from_link link v_start sector_size st =
    (let d = fst link;
         leaf_len = word_of_nat (length (fst st));
         v_end = v_start + leaf_len;
         link_bs = ucast (disk_block_size d) in
     bindR (disk_block_count d) (\<lambda>link_block_count.
     if link_block_count = 0 then Inr st
     else
       let first_link_blk = v_start div link_bs;
           last_link_blk = (v_end - 1) div link_bs in
       fill_blocks d (snd link) v_start v_end sector_size link_block_count link_bs first_link_blk
         (unat last_link_blk + 1 - unat first_link_blk) st))"

fun fill_from_links ::
    "u64 \<Rightarrow> u64 \<Rightarrow> (vhdx_disk \<times> dfile) list \<Rightarrow> bytes \<times> bool list \<Rightarrow> (bytes \<times> bool list) res" where
  "fill_from_links v_start sector_size [] st = Inr st"
| "fill_from_links v_start sector_size (link # links) st =
    bindR (fill_from_link link v_start sector_size st) (\<lambda>st'.
    if list_all (\<lambda>v. v) (snd st') then Inr st' else fill_from_links v_start sector_size links st')"

definition merge_block ::
    "(vhdx_disk \<times> dfile) list \<Rightarrow> u64 \<Rightarrow> u64 \<Rightarrow> u64 \<Rightarrow> nat \<Rightarrow> bytes res" where
  "merge_block links block_index leaf_block_size sector_size sectors_per_block =
    (let v_start = block_index * leaf_block_size in
     bindR (fill_from_links v_start sector_size links
       (replicate (unat leaf_block_size) 0, replicate sectors_per_block False)) (\<lambda>st.
     Inr (fst st)))"

section \<open>What the chain holds\<close>

definition link_content :: "vhdx_disk \<times> dfile \<Rightarrow> nat \<Rightarrow> nat \<Rightarrow> bytes option" where
  "link_content l sz v =
    (let b = v div link_size l in
     if link_count l \<le> b then None
     else case link_read l (word_of_nat b) of
       Inr r \<Rightarrow> sector_in sz r (v mod link_size l)
     | Inl e \<Rightarrow> None)"

fun chain_sector :: "(vhdx_disk \<times> dfile) list \<Rightarrow> nat \<Rightarrow> nat \<Rightarrow> bytes" where
  "chain_sector [] sz v = replicate sz 0"
| "chain_sector (l # ls) sz v =
    (case link_content l sz v of Some bs \<Rightarrow> bs | None \<Rightarrow> chain_sector ls sz v)"

definition or_else :: "'a option \<Rightarrow> 'a option \<Rightarrow> 'a option" where
  "or_else a b = (case a of Some x \<Rightarrow> Some x | None \<Rightarrow> b)"

lemma or_else_simps [simp]: "or_else (Some x) b = Some x" "or_else None b = b"
  "or_else a None = a" "or_else (or_else a b) c = or_else a (or_else b c)"
  by (cases a; simp add: or_else_def)+

text \<open>The sectors of the composite that are settled, and the well-formedness of the loops' state.\<close>

definition view :: "nat \<Rightarrow> bytes \<times> bool list \<Rightarrow> nat \<Rightarrow> bytes option" where
  "view sz st s = (if snd st ! s then Some (bslice (fst st) (s * sz) (s * sz + sz)) else None)"

definition st_ok :: "nat \<Rightarrow> nat \<Rightarrow> bytes \<times> bool list \<Rightarrow> bool" where
  "st_ok sz n st \<longleftrightarrow> length (fst st) = n * sz \<and> length (snd st) = n \<and>
     (\<forall>s<n. \<not> snd st ! s \<longrightarrow> bslice (fst st) (s * sz) (s * sz + sz) = replicate sz 0)"

lemma all_filled_upt:
  assumes "hi \<le> length filled"
  shows "all_filled filled [lo..<hi] = Inr (\<forall>s. lo \<le> s \<and> s < hi \<longrightarrow> filled ! s)"
  using assms
proof (induction "hi - lo" arbitrary: lo)
  case 0
  then show ?case by auto
next
  case (Suc k)
  then have "lo < hi" by simp
  with Suc show ?case by (auto simp: upt_conv_Cons le_less_Suc_eq Suc_le_eq) (metis le_neq_implies_less)+
qed

lemma sector_apart:
  assumes "s \<noteq> (s' :: nat)"
  shows "s' * sz + sz \<le> s * sz \<or> s * sz + sz \<le> s' * sz"
proof -
  consider "Suc s' \<le> s" | "Suc s \<le> s'" using assms by linarith
  then show ?thesis
  proof cases
    case 1
    then have "Suc s' * sz \<le> s * sz" by (rule mult_le_mono1)
    then show ?thesis by simp
  next
    case 2
    then have "Suc s * sz \<le> s' * sz" by (rule mult_le_mono1)
    then show ?thesis by simp
  qed
qed

text \<open>One sector of the copy: what is filled stays, what the link has is added.\<close>

lemma copy_sector_ok:
  assumes st: "st_ok sz n st" and lo: "lo < n" and "unat link_v_start \<le> unat v_start + lo * sz"
    and "unat v_start + lo * sz + sz \<le> unat link_v_start + length data"
    and "unat v_start + n * sz < 18446744073709551616"
  defines "off \<equiv> unat v_start + lo * sz - unat link_v_start"
  shows "\<exists>st1. copy_sectors has data v_start link_v_start sz (lo # ss) st = copy_sectors has data v_start link_v_start sz ss st1 \<and>
    st_ok sz n st1 \<and> (\<forall>s<n. view sz st1 s =
      (if s = lo then or_else (view sz st lo) (if has (off div sz) then Some (bslice data off (off + sz)) else None)
       else view sz st s))"
proof -
  obtain composite filled where eq: "st = (composite, filled)" by fastforce
  have ok: "length composite = n * sz" "length filled = n" using st by (simp_all add: eq st_ok_def)
  have le: "lo * sz + sz \<le> n * sz" using mult_le_mono1 [of "Suc lo" n sz] lo by simp
  then have fits: "off + sz \<le> length data" "lo * sz + sz \<le> length composite"
    using assms(3,4) ok by (simp_all add: off_def)
  have "lo * sz < 18446744073709551616" "unat v_start + lo * sz < 18446744073709551616" using assms(5) le by simp_all
  then have "unat (v_start + word_of_nat (lo * sz)) = unat v_start + lo * sz"
    by (simp add: unat_add_u64 unat_of_nat_u64 del: of_nat_mult)
  then have slo: "unat (v_start + word_of_nat (lo * sz) - link_v_start) = off"
    using assms(3) by (simp add: unat_sub_u64 off_def del: of_nat_mult)
  show ?thesis
  proof (cases "filled ! lo \<or> \<not> has (off div sz)")
    case True
    then have "copy_sectors has data v_start link_v_start sz (lo # ss) st = copy_sectors has data v_start link_v_start sz ss st"
      using ok lo by (auto simp: eq slo Let_def simp del: of_nat_mult)
    then show ?thesis using st True by (intro exI [of _ st]) (auto simp: view_def eq)
  next
    case False
    define st1 where "st1 = (bput (lo * sz) (bslice data off (off + sz)) composite, filled[lo := True])"
    have "copy_sectors has data v_start link_v_start sz (lo # ss) st = copy_sectors has data v_start link_v_start sz ss st1"
      using False ok lo fits by (simp add: eq slo Let_def st1_def del: of_nat_mult)
    moreover have slice: "bslice (fst st1) (s * sz) (s * sz + sz) =
        (if s = lo then bslice data off (off + sz) else bslice composite (s * sz) (s * sz + sz))" for s
      using sector_apart [of lo s sz] fits
      by (auto simp: st1_def slice_put_same slice_put_before slice_put_after length_slice)
    then have "st_ok sz n st1"
      using st fits ok by (auto simp: st_ok_def eq st1_def length_put length_slice nth_list_update)
    moreover have "view sz st1 s = (if s = lo then Some (bslice data off (off + sz)) else view sz st s)" if "s < n" for s
      using slice [of s] ok that by (cases "s = lo") (simp_all add: view_def eq st1_def)
    moreover have "view sz st lo = None" using False by (simp add: view_def eq)
    ultimately show ?thesis using False by (intro exI [of _ st1]) simp
  qed
qed

lemma copy_sectors_ok:
  assumes "st_ok sz n st" and "hi \<le> n" and "unat link_v_start \<le> unat v_start + lo * sz"
    and "unat v_start + hi * sz \<le> unat link_v_start + length data"
    and "unat v_start + n * sz < 18446744073709551616" and "0 < sz"
  defines "off \<equiv> (\<lambda>s. unat v_start + s * sz - unat link_v_start)"
  shows "\<exists>st'. copy_sectors has data v_start link_v_start sz [lo..<hi] st = Inr st' \<and> st_ok sz n st' \<and>
    (\<forall>s<n. view sz st' s =
      (if lo \<le> s \<and> s < hi
       then or_else (view sz st s)
         (if has (off s div sz) then Some (bslice data (off s) (off s + sz)) else None)
       else view sz st s))"
  using assms(1,3)
proof (induction "hi - lo" arbitrary: lo st)
  case 0
  then show ?case by auto
next
  case (Suc k)
  then have lo: "lo < hi" "k = hi - Suc lo" by simp_all
  have "lo * sz + sz \<le> hi * sz" using mult_le_mono1 [of "Suc lo" hi sz] lo by simp
  then have hi: "unat v_start + lo * sz + sz \<le> unat link_v_start + length data" using assms(4) by simp
  have ln: "lo < n" using lo(1) assms(2) by simp
  obtain st1 where st1: "copy_sectors has data v_start link_v_start sz [lo..<hi] st =
        copy_sectors has data v_start link_v_start sz [Suc lo..<hi] st1" "st_ok sz n st1"
      "\<forall>s<n. view sz st1 s = (if s = lo then or_else (view sz st lo)
        (if has (off lo div sz) then Some (bslice data (off lo) (off lo + sz)) else None) else view sz st s)"
    using copy_sector_ok [OF Suc.prems(1) ln Suc.prems(2) hi assms(5), of has "[Suc lo..<hi]"] lo(1)
    unfolding off_def by (auto simp: upt_conv_Cons)
  have "unat link_v_start \<le> unat v_start + Suc lo * sz" using Suc.prems(2) by simp
  from Suc.hyps(1) [OF lo(2) st1(2) this] show ?case
    using st1(1,3) lo(1) by (auto simp: le_less_Suc_eq Suc_le_eq le_less)
qed

section \<open>One link\<close>

text \<open>
  Measured in sectors: the leaf range is \<open>[k, k + n)\<close>, block \<open>b\<close> of the link is
  \<open>[b * m, b * m + m)\<close>.
\<close>

definition filled_by ::
    "vhdx_disk \<times> dfile \<Rightarrow> nat \<Rightarrow> nat \<Rightarrow> nat \<Rightarrow> (nat \<Rightarrow> bool) \<Rightarrow> bytes \<times> bool list \<Rightarrow> bytes \<times> bool list \<Rightarrow> bool" where
  "filled_by l sz k n blocks st st' \<longleftrightarrow> st_ok sz n st' \<and> (\<forall>s<n. view sz st' s =
     (if blocks (((k + s) * sz) div link_size l) then or_else (view sz st s) (link_content l sz ((k + s) * sz))
      else view sz st s))"

definition ends_well ::
    "(vhdx_disk \<times> dfile) set \<Rightarrow> (bytes \<times> bool list \<Rightarrow> bool) \<Rightarrow> (bytes \<times> bool list) res \<Rightarrow> bool" where
  "ends_well ls P r \<longleftrightarrow> (case r of
     Inl e \<Rightarrow> \<exists>l\<in>ls. \<exists>b. unat b < link_count l \<and> link_read l b = Inl e
   | Inr st \<Rightarrow> P st)"

lemma ends_well_simps [simp]:
  "ends_well ls P (Inr st) \<longleftrightarrow> P st"
  "ends_well ls P (Inl e) \<longleftrightarrow> (\<exists>l\<in>ls. \<exists>b. unat b < link_count l \<and> link_read l b = Inl e)"
  by (simp_all add: ends_well_def)

lemma block_sectors:
  assumes "0 < (m :: nat)"
  shows "(k + s) div m = b \<longleftrightarrow> b * m \<le> k + s \<and> k + s < b * m + m"
proof -
  have "(k + s) div m = b \<longleftrightarrow> b \<le> (k + s) div m \<and> (k + s) div m < Suc b" by auto
  also have "\<dots> \<longleftrightarrow> b * m \<le> k + s \<and> k + s < Suc b * m"
    using assms by (simp only: less_eq_div_iff_mult_less_eq div_less_iff_less_mult)
  finally show ?thesis by (simp add: add.commute)
qed

definition lined_up :: "vhdx_disk \<times> dfile \<Rightarrow> nat \<Rightarrow> nat \<Rightarrow> nat \<Rightarrow> nat \<Rightarrow> u64 \<Rightarrow> u64 \<Rightarrow> u64 \<Rightarrow> u64 \<Rightarrow> bool" where
  "lined_up l sz k n m link_bs ss v_start v_end \<longleftrightarrow>
     disk_ok l \<and> unat link_bs = link_size l \<and> link_size l = m * sz \<and> unat ss = sz \<and> 0 < sz \<and>
     unat v_start = k * sz \<and> unat v_end = (k + n) * sz \<and> (k + n + m) * sz < 18446744073709551616"

lemma lined_up_pos:
  assumes "lined_up l sz k n m link_bs ss v_start v_end"
  shows "0 < m" "0 < sz" "ss \<noteq> 0"
proof -
  show "0 < m" using assms disk_device.size_pos [of l] by (cases "m = 0") (auto simp: lined_up_def)
qed (use assms in \<open>auto simp: lined_up_def\<close>)

lemma lined_up_div:
  assumes "lined_up l sz k n m link_bs ss v_start v_end"
  shows "((k + s) * sz) div link_size l = (k + s) div m"
  using assms by (simp add: lined_up_def div_mult2_eq mult.commute [of m])

text \<open>The sectors of the leaf range that lie in block \<open>b\<close> of the link.\<close>

abbreviation sec_lo :: "nat \<Rightarrow> nat \<Rightarrow> nat \<Rightarrow> nat" where
  "sec_lo k m b \<equiv> max k (b * m) - k"

abbreviation sec_hi :: "nat \<Rightarrow> nat \<Rightarrow> nat \<Rightarrow> nat \<Rightarrow> nat" where
  "sec_hi k n m b \<equiv> min (k + n) (b * m + m) - k"

lemma in_block:
  assumes "lined_up l sz k n m link_bs ss v_start v_end" and "s < n"
  shows "((k + s) * sz) div link_size l = b \<longleftrightarrow> sec_lo k m b \<le> s \<and> s < sec_hi k n m b"
  using assms(2) by (auto simp: lined_up_div [OF assms(1)] block_sectors [OF lined_up_pos(1) [OF assms(1)]])

lemma block_range:
  assumes "lined_up l sz k n m link_bs ss v_start v_end" and "unat blk * m < k + n"
  shows "unat (blk * link_bs) = unat blk * m * sz"
    and "unat (blk * link_bs + link_bs) = (unat blk * m + m) * sz"
    and "unat (blk + 1) = unat blk + 1"
proof -
  note L = assms(1) [unfolded lined_up_def]
  have "(unat blk * m + m) * sz \<le> (k + n + m) * sz" using assms(2) by (intro mult_le_mono1) simp
  also have "\<dots> < 18446744073709551616" using L by simp
  finally have "unat blk * m * sz + m * sz < 18446744073709551616" by (simp only: add_mult_distrib)
  moreover from this show lvs: "unat (blk * link_bs) = unat blk * m * sz"
    using L by (simp add: unat_mult_u64 mult.assoc)
  ultimately show "unat (blk * link_bs + link_bs) = (unat blk * m + m) * sz"
    using L by (simp add: unat_add_u64 add_mult_distrib)
  have "k + n + m < 18446744073709551616"
    by (rule le_less_trans [of _ "(k + n + m) * sz"]) (use L in simp_all)
  moreover have "unat blk \<le> unat blk * m" "0 < m" using lined_up_pos [OF assms(1)] by simp_all
  ultimately have "unat blk + 1 < 18446744073709551616" using assms(2) by linarith
  then show "unat (blk + 1) = unat blk + 1" by (simp add: unat_add_u64)
qed

lemma overlap:
  assumes "lined_up l sz k n m link_bs ss v_start v_end" and "unat blk * m < k + n"
  shows "max v_start (blk * link_bs) \<ge> min v_end (blk * link_bs + link_bs) \<longleftrightarrow>
      sec_hi k n m (unat blk) \<le> sec_lo k m (unat blk)"
    and "unat ((max v_start (blk * link_bs) - v_start) div ss) = sec_lo k m (unat blk)"
    and "\<not> max v_start (blk * link_bs) \<ge> min v_end (blk * link_bs + link_bs) \<Longrightarrow>
      unat ((min v_end (blk * link_bs + link_bs) - v_start) div ss) = sec_hi k n m (unat blk)"
proof -
  let ?empty = "max v_start (blk * link_bs) \<ge> min v_end (blk * link_bs + link_bs)"
  note L = assms(1) [unfolded lined_up_def]
  have ov: "unat (max v_start (blk * link_bs)) = max k (unat blk * m) * sz"
      "unat (min v_end (blk * link_bs + link_bs)) = min (k + n) (unat blk * m + m) * sz"
    using L block_range [OF assms] by (simp_all add: max_def min_def word_le_nat_alt del: mult_le_cancel2)
  have "?empty \<longleftrightarrow> min (k + n) (unat blk * m + m) \<le> max k (unat blk * m)"
    using L by (simp add: word_le_nat_alt ov)
  then show "?empty \<longleftrightarrow> sec_hi k n m (unat blk) \<le> sec_lo k m (unat blk)"
    by (simp only: le_diff_conv) simp
  have "unat (max v_start (blk * link_bs) - v_start) = sec_lo k m (unat blk) * sz"
    using ov L by (simp add: unat_sub_u64 diff_mult_distrib)
  then show "unat ((max v_start (blk * link_bs) - v_start) div ss) = sec_lo k m (unat blk)"
    using L by (simp add: unat_div)
  show "unat ((min v_end (blk * link_bs + link_bs) - v_start) div ss) = sec_hi k n m (unat blk)" if "\<not> ?empty"
  proof -
    have "max k (unat blk * m) * sz < min (k + n) (unat blk * m + m) * sz"
      using that by (simp only: word_le_nat_alt ov not_le)
    then have "k * sz \<le> min (k + n) (unat blk * m + m) * sz"
      by (rule order.strict_implies_order [OF le_less_trans [rotated]]) simp
    then have "unat (min v_end (blk * link_bs + link_bs) - v_start) = sec_hi k n m (unat blk) * sz"
      using ov L by (simp add: unat_sub_u64 diff_mult_distrib)
    then show ?thesis using L by (simp add: unat_div)
  qed
qed

lemma fill_block_cases:
  assumes "lined_up l sz k n m link_bs ss v_start v_end" and "unat blk * m < k + n"
    and "l = (d, f)" and "length (snd st) = n"
  shows "fill_block d f v_start v_end ss link_bs blk st =
    (if \<forall>s. sec_lo k m (unat blk) \<le> s \<and> s < sec_hi k n m (unat blk) \<longrightarrow> snd st ! s then Inr st
     else bindR (link_read l blk) (\<lambda>r. case r of Absent \<Rightarrow> Inr st
       | Full data \<Rightarrow> copy_sectors (\<lambda>_. True) data v_start (blk * link_bs) sz
           [sec_lo k m (unat blk)..<sec_hi k n m (unat blk)] st
       | Partial payload bitmap \<Rightarrow> copy_sectors (bit_is_set bitmap) payload v_start (blk * link_bs) sz
           [sec_lo k m (unat blk)..<sec_hi k n m (unat blk)] st))"
proof -
  have "sec_hi k n m (unat blk) \<le> length (snd st)" using assms(4) by simp
  note all = all_filled_upt [OF this, of "sec_lo k m (unat blk)"]
  show ?thesis
  proof (cases "max v_start (blk * link_bs) \<ge> min v_end (blk * link_bs + link_bs)")
    case True
    then have "sec_hi k n m (unat blk) \<le> sec_lo k m (unat blk)" using overlap(1) [OF assms(1,2)] by blast
    then have "\<forall>s. sec_lo k m (unat blk) \<le> s \<and> s < sec_hi k n m (unat blk) \<longrightarrow> snd st ! s" by auto
    with True show ?thesis by (simp add: fill_block_def Let_def)
  next
    case False
    then show ?thesis
      using lined_up_pos(3) [OF assms(1)] assms(1)
      by (simp add: fill_block_def Let_def overlap [OF assms(1,2)] all link_read_def assms(3) lined_up_def
          del: max.absorb1 min.absorb1 cong: if_cong)
  qed
qed

text \<open>Copying from the block what is still missing fills the sectors of the block.\<close>

lemma copy_fills:
  assumes L: "lined_up l sz k n m link_bs ss v_start v_end" and b: "unat blk * m < k + n" "unat blk < link_count l"
    and st: "st_ok sz n st" and r: "link_read l blk = Inr r" and data: "length data = link_size l"
    and has: "\<And>o'. sector_in sz r o' = (if has (o' div sz) then Some (bslice data o' (o' + sz)) else None)"
    and ne: "sec_lo k m (unat blk) < sec_hi k n m (unat blk)"
  shows "\<exists>st'. copy_sectors has data v_start (blk * link_bs) sz [sec_lo k m (unat blk)..<sec_hi k n m (unat blk)] st =
    Inr st' \<and> filled_by l sz k n (\<lambda>b. b = unat blk) st st'"
proof -
  let ?b = "unat blk" and ?off = "\<lambda>s. unat v_start + s * sz - unat (blk * link_bs)"
  let ?lo = "sec_lo k m ?b" and ?hi = "sec_hi k n m ?b"
  note LD = L [unfolded lined_up_def] and range = block_range [OF L b(1)]
  have hi: "?hi \<le> n" by simp
  have "?b * m * sz \<le> (k + ?lo) * sz" "(k + ?hi) * sz \<le> (?b * m + m) * sz"
    using ne by (intro mult_le_mono1; simp)+
  then have "unat (blk * link_bs) \<le> unat v_start + ?lo * sz"
      "unat v_start + ?hi * sz \<le> unat (blk * link_bs) + length data"
    using LD data by (simp_all only: range(1) add_mult_distrib)
  moreover have "unat v_start + n * sz < 18446744073709551616"
    using LD by (simp add: add_mult_distrib)
  ultimately obtain st' where
      st': "copy_sectors has data v_start (blk * link_bs) sz [?lo..<?hi] st = Inr st'" "st_ok sz n st'"
      "\<forall>s<n. view sz st' s =
        (if ?lo \<le> s \<and> s < ?hi
         then or_else (view sz st s) (if has (?off s div sz) then Some (bslice data (?off s) (?off s + sz)) else None)
         else view sz st s)"
    using copy_sectors_ok [OF st hi _ _ _ lined_up_pos(2) [OF L]] by blast
  have off: "((k + s) * sz) mod link_size l = ?off s" if "((k + s) * sz) div link_size l = ?b" for s
    using that minus_div_mult_eq_mod [of "(k + s) * sz" "link_size l"] LD
    by (simp add: range(1) add_mult_distrib mult.assoc)
  have content: "link_content l sz ((k + s) * sz) = sector_in sz r (?off s)"
    if "((k + s) * sz) div link_size l = ?b" for s
    using that b(2) r by (simp add: link_content_def off)
  have "view sz st' s = (if ((k + s) * sz) div link_size l = ?b
      then or_else (view sz st s) (link_content l sz ((k + s) * sz)) else view sz st s)" if "s < n" for s
    using st'(3) in_block [OF L that] content [of s] that
    by (cases "?lo \<le> s \<and> s < ?hi") (simp_all only: has simp_thms if_True if_False)
  with st'(1,2) show ?thesis by (auto simp: filled_by_def)
qed

lemma fill_block_ok:
  assumes L: "lined_up l sz k n m link_bs ss v_start v_end" and b: "unat blk * m < k + n" "unat blk < link_count l"
    and l: "l = (d, f)" and st: "st_ok sz n st"
  shows "ends_well {l} (filled_by l sz k n (\<lambda>b. b = unat blk) st) (fill_block d f v_start v_end ss link_bs blk st)"
proof -
  have len: "length (snd st) = n" and disk: "disk_ok l" using st L by (simp_all add: st_ok_def lined_up_def)
  show ?thesis
  proof (cases "\<forall>s. sec_lo k m (unat blk) \<le> s \<and> s < sec_hi k n m (unat blk) \<longrightarrow> snd st ! s")
    case True
    then have "filled_by l sz k n (\<lambda>b. b = unat blk) st st"
      using st in_block [OF L] by (auto simp: filled_by_def view_def)
    with True show ?thesis by (simp add: fill_block_cases [OF L b(1) l len])
  next
    case False
    then have ne: "sec_lo k m (unat blk) < sec_hi k n m (unat blk)" by auto
    note fill = fill_block_cases [OF L b(1) l len, unfolded if_not_P [OF False]]
    show ?thesis
    proof (cases "link_read l blk")
      case (Inl e)
      with b(2) show ?thesis unfolding fill by auto
    next
      case (Inr r)
      note copy = copy_fills [OF L b st Inr _ _ ne]
      show ?thesis
      proof (cases r)
        case (Full data)
        then show ?thesis
          using copy [of data "\<lambda>_. True"] disk_device.payload_length [OF disk Inr, of data] Inr unfolding fill by auto
      next
        case (Partial payload bitmap)
        then show ?thesis
          using copy [of payload "bit_is_set bitmap"] disk_device.payload_length [OF disk Inr, of payload bitmap] Inr
          unfolding fill by auto
      next
        case Absent
        have "link_content l sz ((k + s) * sz) = None" if "((k + s) * sz) div link_size l = unat blk" for s
          using that Inr Absent by (simp add: link_content_def Let_def)
        then have "filled_by l sz k n (\<lambda>b. b = unat blk) st st" using st by (auto simp: filled_by_def)
        with Absent Inr show ?thesis unfolding fill by simp
      qed
    qed
  qed
qed

lemma fill_blocks_ok:
  assumes L: "lined_up l sz k n m link_bs ss v_start v_end" and l: "l = (d, f)" and cnt: "unat cnt = link_count l"
    and "st_ok sz n st" and "j \<noteq> 0 \<Longrightarrow> (unat blk + j - 1) * m < k + n"
  shows "ends_well {l} (filled_by l sz k n (\<lambda>b. unat blk \<le> b \<and> b < unat blk + j) st)
    (fill_blocks d f v_start v_end ss cnt link_bs blk j st)"
  using assms(4,5)
proof (induction j arbitrary: blk st)
  case 0
  then show ?case by (auto simp: filled_by_def)
next
  case (Suc j)
  show ?case
  proof (cases "cnt \<le> blk")
    case True
    then have "link_content l sz v = None" if "unat blk \<le> v div link_size l" for v
      using that cnt by (simp add: link_content_def word_le_nat_alt)
    with True Suc.prems(1) show ?thesis by (auto simp: filled_by_def)
  next
    case False
    then have in_range: "unat blk < link_count l" using cnt by (simp add: word_le_nat_alt)
    have "unat blk * m \<le> (unat blk + j) * m" by (rule mult_le_mono1) simp
    also have "\<dots> < k + n" using Suc.prems(2) by simp
    finally have b: "unat blk * m < k + n" .
    let ?cont = "fill_blocks d f v_start v_end ss cnt link_bs (blk + 1) j"
    have "ends_well {l} (filled_by l sz k n (\<lambda>b. unat blk \<le> b \<and> b < unat blk + Suc j) st) (?cont st1)"
      if st1: "filled_by l sz k n (\<lambda>b. b = unat blk) st st1" for st1
    proof -
      have "ends_well {l} (filled_by l sz k n (\<lambda>b. unat (blk + 1) \<le> b \<and> b < unat (blk + 1) + j) st1) (?cont st1)"
        using st1 Suc.prems(2) by (intro Suc.IH) (simp_all add: filled_by_def block_range(3) [OF L b])
      then show ?thesis using st1 by (cases "?cont st1") (auto simp: filled_by_def block_range(3) [OF L b])
    qed
    with fill_block_ok [OF L b in_range l Suc.prems(1)] False show ?thesis
      by (cases "fill_block d f v_start v_end ss link_bs blk st") auto
  qed
qed

text \<open>The blocks of a link that a leaf range touches.\<close>

lemma block_span:
  fixes k n sz m first last :: nat
  defines "first \<equiv> k * sz div (m * sz)" and "last \<equiv> ((k + n) * sz - 1) div (m * sz)"
  assumes "0 < sz" and "0 < n"
  shows "first \<le> last" and "last * m < k + n"
    and "s < n \<Longrightarrow> first \<le> (k + s) * sz div (m * sz) \<and> (k + s) * sz div (m * sz) \<le> last"
proof -
  have pos: "0 < n * sz" using assms(3,4) by simp
  then have "k * sz \<le> (k + n) * sz - 1" unfolding add_mult_distrib by linarith
  then show "first \<le> last" unfolding first_def last_def by (rule div_le_mono)
  have "last * (m * sz) < (k + n) * sz"
    using div_times_less_eq_dividend [of "(k + n) * sz - 1" "m * sz"] pos
    unfolding last_def add_mult_distrib by linarith
  then show "last * m < k + n" using assms(3) by (simp flip: mult.assoc)
  assume "s < n"
  then have "(k + s) * sz \<le> (k + n) * sz - 1"
    using mult_le_mono1 [of "Suc (k + s)" "k + n" sz] assms(3) by simp
  then show "first \<le> (k + s) * sz div (m * sz) \<and> (k + s) * sz div (m * sz) \<le> last"
    unfolding first_def last_def by (intro conjI div_le_mono mult_le_mono1) simp
qed

lemma fill_from_link_ok:
  assumes "disk_ok l" and "link_size l = m * sz" and "unat ss = sz" and "0 < sz"
    and "unat v_start = k * sz" and "(k + n + m) * sz < 18446744073709551616"
    and "st_ok sz n st" and "0 < n"
  shows "ends_well {l} (filled_by l sz k n (\<lambda>_. True) st) (fill_from_link l v_start ss st)"
proof -
  obtain d f where l: "l = (d, f)" by fastforce
  let ?cnt = "bat_block_count (vd_bat d)"
  have cnt: "disk_block_count d = Inr ?cnt" "unat ?cnt = link_count l"
    using assms(1) by (simp_all add: l disk_ok_def disk_wf_count link_count_def)
  show ?thesis
  proof (cases "?cnt = 0")
    case True
    then have "link_content l sz v = None" for v using cnt(2) by (simp add: link_content_def)
    with True assms(7) show ?thesis
      by (simp add: fill_from_link_def l cnt(1) filled_by_def)
  next
    case False
    define v_end where "v_end = v_start + word_of_nat (length (fst st))"
    define link_bs :: u64 where "link_bs = ucast (disk_block_size d)"
    have bs: "unat link_bs = link_size l" by (simp add: link_bs_def link_size_def l)
    have "(k + n) * sz < 18446744073709551616" "n * sz < 18446744073709551616"
      using assms(6) by (simp_all add: add_mult_distrib)
    then have v_end: "unat v_end = (k + n) * sz"
      using assms(5,7) by (simp add: v_end_def st_ok_def unat_add_u64 unat_of_nat_u64 add_mult_distrib del: of_nat_mult)
    have "0 < (k + n) * sz" using assms(4,8) by simp
    then have e1: "unat (v_end - 1) = (k + n) * sz - 1"
      by (subst unat_sub_u64) (auto simp: v_end)
    define first where "first = unat (v_start div link_bs)"
    define last where "last = unat ((v_end - 1) div link_bs)"
    have fl: "first = k * sz div (m * sz)" "last = ((k + n) * sz - 1) div (m * sz)"
      by (simp_all add: first_def last_def unat_div assms(2,5) e1 bs)
    note span = block_span [OF assms(4,8), where k = k and m = m, folded fl]
    have "ends_well {l} (filled_by l sz k n (\<lambda>b. first \<le> b \<and> b < first + (last + 1 - first)) st)
        (fill_blocks d f v_start v_end ss ?cnt link_bs (v_start div link_bs) (last + 1 - first) st)"
      unfolding first_def
      by (rule fill_blocks_ok [OF _ l cnt(2) assms(7)])
         (use assms bs v_end span(1,2) in \<open>simp_all add: lined_up_def first_def [symmetric]\<close>)
    moreover have "first \<le> ((k + s) * sz) div link_size l \<and> ((k + s) * sz) div link_size l < first + (last + 1 - first)"
      if "s < n" for s
      using span(1) span(3) [OF that] unfolding assms(2) by linarith
    then have "filled_by l sz k n (\<lambda>b. first \<le> b \<and> b < first + (last + 1 - first)) st =
        filled_by l sz k n (\<lambda>_. True) st"
      by (intro ext) (simp add: filled_by_def)
    moreover have "fill_from_link l v_start ss st =
        fill_blocks d f v_start v_end ss ?cnt link_bs (v_start div link_bs) (last + 1 - first) st"
      using False
      by (simp add: fill_from_link_def l cnt(1) Let_def first_def last_def v_end_def link_bs_def)
    ultimately show ?thesis by simp
  qed
qed

section \<open>The whole chain\<close>

fun chain_content :: "(vhdx_disk \<times> dfile) list \<Rightarrow> nat \<Rightarrow> nat \<Rightarrow> bytes option" where
  "chain_content [] sz v = None"
| "chain_content (l # ls) sz v = or_else (link_content l sz v) (chain_content ls sz v)"

lemma chain_sector_content:
  "chain_sector ls sz v = (case chain_content ls sz v of Some bs \<Rightarrow> bs | None \<Rightarrow> replicate sz 0)"
  by (induction ls) (auto simp: or_else_def split: option.split)

text \<open>What a chain needs for its sectors to line up with a leaf range of \<open>n\<close> sectors at sector \<open>k\<close>.\<close>

definition link_fits :: "nat \<Rightarrow> nat \<Rightarrow> nat \<Rightarrow> vhdx_disk \<times> dfile \<Rightarrow> bool" where
  "link_fits sz k n l \<longleftrightarrow> disk_ok l \<and> sz dvd link_size l \<and> (k + n) * sz + link_size l < 2 ^ 64"

lemma fill_from_links_ok:
  assumes "\<forall>l\<in>set links. link_fits sz k n l" and "unat ss = sz" and "0 < sz"
    and "unat v_start = k * sz" and "st_ok sz n st" and "0 < n"
  shows "ends_well (set links)
    (\<lambda>st'. st_ok sz n st' \<and>
      (\<forall>s<n. view sz st' s = or_else (view sz st s) (chain_content links sz ((k + s) * sz))))
    (fill_from_links v_start ss links st)"
  using assms(1,5)
proof (induction links arbitrary: st)
  case Nil
  then show ?case by simp
next
  case (Cons l links)
  have fits: "link_fits sz k n l" using Cons.prems(1) by simp
  then obtain m where "link_size l = sz * m" by (auto simp: link_fits_def elim: dvdE)
  then have m: "link_size l = m * sz" by (simp only: mult.commute)
  have l: "disk_ok l" "(k + n + m) * sz < 18446744073709551616"
    using fits m by (simp_all add: link_fits_def add_mult_distrib)
  note one = fill_from_link_ok [OF l(1) m assms(2,3,4) l(2) Cons.prems(2) assms(6)]
  show ?case
  proof (cases "fill_from_link l v_start ss st")
    case (Inl e)
    with one show ?thesis by auto
  next
    case (Inr st1)
    then have st1: "st_ok sz n st1"
        "\<forall>s<n. view sz st1 s = or_else (view sz st s) (link_content l sz ((k + s) * sz))"
      using one by (simp_all add: filled_by_def)
    show ?thesis
    proof (cases "list_all (\<lambda>v. v) (snd st1)")
      case True
      then have "\<forall>s<n. \<exists>x. view sz st1 s = Some x"
        using st1(1) by (simp add: view_def st_ok_def list_all_length)
      moreover have "or_else a b = Some x \<Longrightarrow> or_else a (or_else b c) = Some x" for a b c :: "bytes option" and x
        by (cases a) (auto simp: or_else_def split: option.splits)
      ultimately show ?thesis
        using Inr True st1 by (auto simp del: or_else_simps(4))
    next
      case False
      have "ends_well (set links)
          (\<lambda>st'. st_ok sz n st' \<and>
            (\<forall>s<n. view sz st' s = or_else (view sz st1 s) (chain_content links sz ((k + s) * sz))))
          (fill_from_links v_start ss links st1)"
        using Cons.prems(1) st1(1) by (intro Cons.IH) auto
      then show ?thesis
        using Inr False st1(2) by (cases "fill_from_links v_start ss links st1") auto
    qed
  qed
qed

lemma merge_block_content:
  assumes "\<forall>l\<in>set links. link_fits (unat sector_size) (unat block_index * n) n l"
    and "unat leaf_block_size = n * unat sector_size" and "0 < n" and "sector_size \<noteq> 0"
    and "unat block_index * unat leaf_block_size < 2 ^ 64"
  shows "case merge_block links block_index leaf_block_size sector_size n of
      Inl e \<Rightarrow> (\<forall>s. e \<noteq> Panic s) \<and> (\<exists>l\<in>set links. \<exists>b. unat b < link_count l \<and> link_read l b = Inl e)
    | Inr buf \<Rightarrow> length buf = unat leaf_block_size \<and>
        (\<forall>s<n. bslice buf (s * unat sector_size) (s * unat sector_size + unat sector_size) =
          chain_sector links (unat sector_size)
            (unat block_index * unat leaf_block_size + s * unat sector_size))"
proof -
  let ?sz = "unat sector_size" and ?k = "unat block_index * n"
  let ?v = "block_index * leaf_block_size"
  let ?st = "(replicate (unat leaf_block_size) 0, replicate n False)"
  have sz: "0 < ?sz" using assms(4) by (simp add: unat_gt_0)
  have v: "unat ?v = ?k * ?sz"
    using assms(2,5) by (simp add: unat_mult_u64)
  have st: "st_ok ?sz n ?st"
  proof -
    have "bslice (replicate (n * ?sz) (0 :: u8)) (s * ?sz) (s * ?sz + ?sz) = replicate ?sz 0" if "s < n" for s
      using mult_le_mono1 [of "Suc s" n ?sz] that by (subst slice_zeros) (auto simp: add.commute)
    then show ?thesis by (simp add: st_ok_def assms(2))
  qed
  have pos: "(?k + s) * ?sz = unat block_index * unat leaf_block_size + s * ?sz" for s
    by (simp add: assms(2) add_mult_distrib)
  note ok = fill_from_links_ok [OF assms(1) refl sz v st assms(3)]
  show ?thesis
  proof (cases "fill_from_links ?v sector_size links ?st")
    case (Inl e)
    then obtain l b where l: "l \<in> set links" "unat b < link_count l" "link_read l b = Inl e"
      using ok by auto
    then have "\<not> is_panic (link_read l b)"
      using assms(1) read_block_total(1) [of "fst l" "snd l" b]
      by (simp add: link_fits_def disk_ok_def link_read_def)
    with l Inl show ?thesis by (auto simp: merge_block_def)
  next
    case (Inr st)
    then have st: "st_ok ?sz n st"
        "\<forall>s<n. view ?sz st s = chain_content links ?sz ((?k + s) * ?sz)"
      using ok by (simp_all add: view_def)
    have "bslice (fst st) (s * ?sz) (s * ?sz + ?sz) = chain_sector links ?sz ((?k + s) * ?sz)" if "s < n" for s
      using st that by (auto simp: chain_sector_content view_def st_ok_def split: option.split if_splits)
    moreover have "length (fst st) = unat leaf_block_size"
      using st(1) by (simp add: st_ok_def assms(2))
    ultimately show ?thesis using Inr by (simp add: merge_block_def pos)
  qed
qed

lemma merge_block_reads:
  assumes "\<forall>l\<in>set links. link_fits (unat sector_size) (unat block_index * n) n l"
    and "unat leaf_block_size = n * unat sector_size" and "0 < n" and "sector_size \<noteq> 0"
    and "unat block_index * unat leaf_block_size < 2 ^ 64"
    and "\<forall>l\<in>set links. \<forall>b. unat b < link_count l \<longrightarrow> (\<exists>r. link_read l b = Inr r)"
  shows "\<exists>buf. merge_block links block_index leaf_block_size sector_size n = Inr buf \<and>
    length buf = unat leaf_block_size \<and>
    (\<forall>s<n. bslice buf (s * unat sector_size) (s * unat sector_size + unat sector_size) =
      chain_sector links (unat sector_size)
        (unat block_index * unat leaf_block_size + s * unat sector_size))"
  using merge_block_content [OF assms(1-5)] assms(6)
  by (cases "merge_block links block_index leaf_block_size sector_size n") fastforce+

text \<open>
  C7 (flatten merges the chain): merging a block of the leaf either stops with the error
  value of a failed block read, never a panic, or delivers exactly one block in which
  every sector is the one of the first link, from the leaf upwards, that holds it, and is
  zero where no link does.  The links may differ in block size, as long as block sizes
  are multiples of the sector size and offsets stay below 2^64.
\<close>

theorem merge_block_correct:
  assumes "\<forall>l\<in>set links. link_fits (unat sector_size) (unat block_index * n) n l"
    and "unat leaf_block_size = n * unat sector_size" and "0 < n" and "sector_size \<noteq> 0"
    and "unat block_index * unat leaf_block_size < 2 ^ 64"
  shows "case merge_block links block_index leaf_block_size sector_size n of
      Inl e \<Rightarrow> (\<forall>s. e \<noteq> Panic s) \<and> (\<exists>l\<in>set links. \<exists>b. unat b < link_count l \<and> link_read l b = Inl e)
    | Inr buf \<Rightarrow> length buf = unat leaf_block_size \<and>
        (\<forall>s<n. bslice buf (s * unat sector_size) (s * unat sector_size + unat sector_size) =
          chain_sector links (unat sector_size)
            (unat block_index * unat leaf_block_size + s * unat sector_size))"
  using assms by (rule merge_block_content)

text \<open>A leaf without data over a parent that holds its first block.\<close>

definition chain_payload :: bytes where "chain_payload = replicate 1048576 7"

lemma small_chain:
  "\<exists>f1 d1 f2 d2. VhdxDisk_open ref_externs ''leaf.avhdx'' (Some f1) True = Inr (d1, f1) \<and>
    VhdxDisk_open ref_externs ''base.vhdx'' (Some f2) True = Inr (d2, f2) \<and>
    vd_metadata d1 = small_metadata False \<and> vd_metadata d2 = small_metadata False \<and>
    disk_block_size d1 = 1048576 \<and>
    link_read (d1, f1) 0 = Inr Absent \<and> link_read (d1, f1) 1 = Inr Absent \<and>
    link_read (d2, f2) 0 = Inr (Full chain_payload) \<and> link_read (d2, f2) 1 = Inr (Full (replicate 1048576 0)) \<and>
    (\<forall>l\<in>{(d1, f1), (d2, f2)}. disk_ok l \<and> link_size l = 1048576 \<and> link_count l = 2)"
proof -
  let ?f1 = "small_image 0 3 []" and ?f2 = "small_image 6 2 chain_payload"
  obtain d1 where d1: "VhdxDisk_open ref_externs ''leaf.avhdx'' (Some ?f1) True = Inr (d1, ?f1)"
      "vd_metadata d1 = small_metadata False" "vd_bat d1 = \<lparr>bat_entries =
        [BatEntry_new 0 4194304, BatEntry_new 3 5242880], bat_chunk_ratio = 4096, bat_block_count = 2\<rparr>"
    using small_image_open(1) [of "[]" "''leaf.avhdx''" 0 3 True] by auto
  obtain d2 where d2: "VhdxDisk_open ref_externs ''base.vhdx'' (Some ?f2) True = Inr (d2, ?f2)"
      "vd_metadata d2 = small_metadata False" "vd_bat d2 = \<lparr>bat_entries =
        [BatEntry_new 6 4194304, BatEntry_new 2 5242880], bat_chunk_ratio = 4096, bat_block_count = 2\<rparr>"
    using small_image_open(1) [of chain_payload "''base.vhdx''" 6 2 True] by (auto simp: chain_payload_def)
  note r1 = small_disk_read [OF d1(2,3)] and r2 = small_disk_read [OF d2(2,3)]
  have p: "read_exact_at ?f2 4194304 1048576 = Inr chain_payload"
    using small_image_open(2) [of chain_payload 6 2] by (simp add: chain_payload_def)
  have "link_read (d1, ?f1) 0 = Inr Absent" "link_read (d1, ?f1) 1 = Inr Absent"
      "link_read (d2, ?f2) 0 = Inr (Full chain_payload)" "link_read (d2, ?f2) 1 = Inr (Full (replicate 1048576 0))"
    using r1(3,4) r2(3,4) p
    by (simp_all add: link_read_def PayloadState_from_raw_def block_state_defs)
  moreover have "link_size l = 1048576 \<and> link_count l = 2" if "l \<in> {(d1, ?f1), (d2, ?f2)}" for l
    using that r1(2) r2(2) d1(3) d2(3) by (auto simp: link_size_def link_count_def)
  moreover have "disk_ok (d1, ?f1)" "disk_ok (d2, ?f2)"
    using open_wf(1) [OF d1(1)] open_wf(1) [OF d2(1)] by (simp_all add: disk_ok_def)
  ultimately show ?thesis
    using d1(1,2) d2(1,2) r1(2) by (intro exI [of _ ?f1] exI [of _ d1] exI [of _ ?f2] exI [of _ d2]) auto
qed

lemma small_chain_reads:
  assumes "link_read l 0 = Inr r0" and "link_read l 1 = Inr r1" and "link_count l = 2" and "unat b < link_count l"
  shows "\<exists>r. link_read l b = Inr r"
proof -
  have "unat b = 0 \<or> unat b = 1" using assms(3,4) by auto
  then have "b = 0 \<or> b = 1" by (auto simp: word_unat_eq_iff)
  then show ?thesis using assms(1,2) by auto
qed

theorem merge_block_correct_witness:
  "\<exists>d1 f1 d2 f2 buf.
    VhdxDisk_open ref_externs ''leaf.avhdx'' (Some f1) True = Inr (d1, f1) \<and>
    VhdxDisk_open ref_externs ''base.vhdx'' (Some f2) True = Inr (d2, f2) \<and>
    merge_block [(d1, f1), (d2, f2)] 0 1048576 512 2048 = Inr buf \<and>
    length buf = 1048576 \<and> bslice buf 512 1024 = replicate 512 7"
proof -
  obtain f1 d1 f2 d2 where d: "VhdxDisk_open ref_externs ''leaf.avhdx'' (Some f1) True = Inr (d1, f1)"
      "VhdxDisk_open ref_externs ''base.vhdx'' (Some f2) True = Inr (d2, f2)"
    and reads: "link_read (d1, f1) 0 = Inr Absent" "link_read (d1, f1) 1 = Inr Absent"
      "link_read (d2, f2) 0 = Inr (Full chain_payload)" "link_read (d2, f2) 1 = Inr (Full (replicate 1048576 0))"
    and geo: "\<forall>l\<in>{(d1, f1), (d2, f2)}. disk_ok l \<and> link_size l = 1048576 \<and> link_count l = 2"
    using small_chain by auto
  let ?links = "[(d1, f1), (d2, f2)]"
  have fits: "\<forall>l\<in>set ?links. link_fits (unat (512 :: u64)) (unat (0 :: u64) * 2048) 2048 l"
    using geo by (auto simp: link_fits_def)
  note merge = merge_block_correct [OF fits, where leaf_block_size = 1048576]
  have good: "\<exists>r. link_read l b = Inr r" if "l \<in> set ?links" "unat b < link_count l" for l b
    using that reads geo by (auto intro: small_chain_reads)
  show ?thesis
  proof (cases "merge_block ?links 0 1048576 512 2048")
    case (Inl e)
    with merge good show ?thesis by fastforce
  next
    case (Inr buf)
    then have len: "length buf = 1048576" and sec: "\<forall>s<2048. bslice buf (s * 512) (s * 512 + 512) =
        chain_sector ?links 512 (s * 512)"
      using merge by auto
    have "bslice buf 512 1024 = chain_sector ?links 512 512"
      using sec [rule_format, of 1] by (simp del: chain_sector.simps)
    moreover have "chain_sector ?links 512 512 = replicate 512 7"
      using reads geo by (simp add: link_content_def bslice_def chain_payload_def)
    ultimately show ?thesis
      using d Inr len by (intro exI conjI) auto
  qed
qed

end
