(* ===== verification/Vhdx_Writer.thy ===== *)
theory Vhdx_Writer
  imports Vhdx_Disk
begin

text \<open>
  \<open>writer.rs\<close>: the writer of fresh VHDX files.  The file it creates is a value of the
  writer's record; the volume's capacity bounds its growth.  The layout (file type,
  headers, region tables, log, metadata, table, payload) is computed in u64 arithmetic as
  in the code.  \<open>flush\<close>, \<open>sync_data\<close> and \<open>sync_all\<close> do not change the bytes and are left
  out.
\<close>

section \<open>State and operations\<close>

record writer_params =
  wp_virtual_disk_size :: u64
  wp_block_size :: u32
  wp_logical_sector_size :: u32
  wp_physical_sector_size :: u32
  wp_fixed :: bool
  wp_parent_locator :: "parent_locator option"
  wp_log_size :: u64
  wp_data_write_guid :: uuid
  wp_file_write_guid :: uuid
  wp_page_83_data :: uuid

text \<open>\<open>Uuid::new_v4\<close> is a source of fresh identifiers: the three of them are arguments.\<close>

definition WriterParams_dynamic :: "uuid \<Rightarrow> uuid \<Rightarrow> uuid \<Rightarrow> u64 \<Rightarrow> writer_params" where
  "WriterParams_dynamic g1 g2 g3 disk_size =
    \<lparr>wp_virtual_disk_size = disk_size, wp_block_size = 32 * 1024 * 1024, wp_logical_sector_size = 512,
     wp_physical_sector_size = 4096, wp_fixed = False, wp_parent_locator = None, wp_log_size = MIB,
     wp_data_write_guid = g1, wp_file_write_guid = g2, wp_page_83_data = g3\<rparr>"

datatype block_source = SrcZero | SrcBuf bytes

record vhdx_writer =
  w_params :: writer_params
  w_path :: path
  w_file :: dfile
  w_bat :: bat
  w_log_offset :: u64
  w_metadata_offset :: u64
  w_bat_offset :: u64
  w_bat_length :: u64
  w_payload_cursor :: u64
  w_chunked_write_size :: u32

text \<open>The table in the buffer of its region: \<open>bat_buf[..raw.len()].copy_from_slice(&raw)\<close>.\<close>

definition bat_region_buf :: "bat \<Rightarrow> u64 \<Rightarrow> bytes res" where
  "bat_region_buf b bat_length =
    (let raw = Bat_encode b in
     if length raw > unat bat_length then Inl (Panic ''range end index out of range'')
     else Inr (bput 0 raw (replicate (unat bat_length) 0)))"

text \<open>The preallocation loop of a fixed image, for the blocks \<open>i\<close>, \<dots>, \<open>i + n - 1\<close>.\<close>

fun fixed_alloc :: "u64 \<Rightarrow> nat \<Rightarrow> u64 \<Rightarrow> u64 \<Rightarrow> bat \<Rightarrow> (bat \<times> u64) res" where
  "fixed_alloc bs 0 i cur b = Inr (b, cur)"
| "fixed_alloc bs (Suc n) i cur b =
    bindR (set_payload_entry b i (BatEntry_new PAYLOAD_BLOCK_FULLY_PRESENT cur)) (\<lambda>b'.
    fixed_alloc bs n (i + 1) (cur + bs) b')"

definition writer_metadata :: "writer_params \<Rightarrow> metadata" where
  "writer_metadata p = \<lparr>file_parameters = \<lparr>fp_block_size = wp_block_size p,
       leave_blocks_allocated = wp_fixed p, fp_has_parent = (wp_parent_locator p \<noteq> None)\<rparr>,
     virtual_disk_size = wp_virtual_disk_size p, logical_sector_size = wp_logical_sector_size p,
     physical_sector_size = wp_physical_sector_size p, page_83_data = wp_page_83_data p,
     md_parent_locator = wp_parent_locator p, extras = []\<rparr>"

definition writer_regions :: "u64 \<Rightarrow> u64 \<Rightarrow> u64 \<Rightarrow> region_table" where
  "writer_regions metadata_offset bat_offset bat_length =
    \<lparr>rt_checksum_ok = True, rt_entries =
      [\<lparr>re_guid = REGION_GUID_METADATA, re_file_offset = metadata_offset, re_length = ucast MIB,
        re_required = True\<rparr>,
       \<lparr>re_guid = REGION_GUID_BAT, re_file_offset = bat_offset, re_length = ucast bat_length,
        re_required = True\<rparr>]\<rparr>"

definition writer_header :: "writer_params \<Rightarrow> u64 \<Rightarrow> u64 \<Rightarrow> header" where
  "writer_header p log_off seq =
    \<lparr>signature_ok = True, checksum_ok = True, checksum = 0, sequence_number = seq,
     file_write_guid = wp_file_write_guid p, data_write_guid = wp_data_write_guid p,
     log_guid = nil_uuid, log_version = 0, version = 1, log_length = ucast (wp_log_size p),
     log_offset = log_off\<rparr>"

definition new_file :: "nat \<Rightarrow> dfile" where
  "new_file capacity = \<lparr>f_data = (\<lambda>_. 0), f_len = 0, f_max = capacity\<rparr>"

definition VhdxWriter_create :: "externs \<Rightarrow> path \<Rightarrow> nat \<Rightarrow> writer_params \<Rightarrow> vhdx_writer res" where
  "VhdxWriter_create E p capacity params =
    (let f = new_file capacity; bs = ucast (wp_block_size params) :: u64 in
     if bs = 0 then Inl (Panic ''attempt to divide by zero'')
     else
       let bcount = div_ceil (wp_virtual_disk_size params) bs;
           ratio = (push_bit 23 1 * ucast (wp_logical_sector_size params)) div bs;
           has_parent = wp_parent_locator params \<noteq> None in
       bindR (total_bat_entries bcount ratio has_parent) (\<lambda>total_entries.
       let bat_bytes_needed = word_of_nat total_entries * 8;
           bat_length = align_up (max bat_bytes_needed MIB) MIB;
           log_off = MIB;
           metadata_offset = log_off + align_up (wp_log_size params) MIB;
           bat_offset = metadata_offset + MIB;
           payload_start = bat_offset + bat_length;
           fti = bput 0 FILE_TYPE_SIGNATURE (replicate (64 * 1024) 0) in
       bindR (write_all_at f FILE_TYPE_IDENTIFIER_OFFSET fti) (\<lambda>f.
       bindR (zero_range f (64 * 1024) (MIB - 64 * 1024)) (\<lambda>f.
       bindR (zero_range f log_off (wp_log_size params)) (\<lambda>f.
       bindR (Metadata_encode E (writer_metadata params) MIB) (\<lambda>metadata_buf.
       bindR (write_all_at f metadata_offset metadata_buf) (\<lambda>f.
       let b = \<lparr>bat_entries = replicate total_entries BatEntry_empty, bat_chunk_ratio = ratio,
             bat_block_count = bcount\<rparr> in
       bindR (bat_region_buf b bat_length) (\<lambda>bat_buf.
       bindR (write_all_at f bat_offset bat_buf) (\<lambda>f.
       bindR (RegionTable_encode E (writer_regions metadata_offset bat_offset bat_length)) (\<lambda>region_buf.
       bindR (write_all_at f (region_table_offset 0) region_buf) (\<lambda>f.
       bindR (write_all_at f (region_table_offset 1) region_buf) (\<lambda>f.
       bindR (write_all_at f (header_offset 0) (Header_encode E (writer_header params log_off 1))) (\<lambda>f.
       bindR (write_all_at f (header_offset 1) (Header_encode E (writer_header params log_off 2))) (\<lambda>f.
       bindR (if wp_fixed params then
           bindR (fixed_alloc bs (unat bcount) 0 payload_start b) (\<lambda>(b, cur).
           bindR (bat_region_buf b bat_length) (\<lambda>bat_buf.
           bindR (write_all_at f bat_offset bat_buf) (\<lambda>f.
           bindR (set_len f cur) (\<lambda>f. Inr (f, b)))))
         else bindR (set_len f payload_start) (\<lambda>f. Inr (f, b))) (\<lambda>(f, b).
       Inr \<lparr>w_params = params, w_path = p, w_file = f, w_bat = b, w_log_offset = log_off,
         w_metadata_offset = metadata_offset, w_bat_offset = bat_offset, w_bat_length = bat_length,
         w_payload_cursor = payload_start, w_chunked_write_size = 0\<rparr>)))))))))))))))"

definition set_chunked_write_size :: "vhdx_writer \<Rightarrow> u32 \<Rightarrow> vhdx_writer" where
  "set_chunked_write_size w chunk_size = w\<lparr>w_chunked_write_size := chunk_size\<rparr>"

text \<open>The chunked write: the loop from \<open>buf[i..]\<close> on, \<open>rest\<close> being what is left of the buffer.\<close>

function write_chunks :: "nat \<Rightarrow> dfile \<Rightarrow> u64 \<Rightarrow> bytes \<Rightarrow> dfile res" where
  "write_chunks chunk_size f cursor rest =
    (if rest = [] \<or> chunk_size = 0 then Inr f
     else
       let part = take chunk_size rest in
       bindR (write_all_at f cursor part) (\<lambda>f'.
       write_chunks chunk_size f' (cursor + word_of_nat (length part)) (drop chunk_size rest)))"
  by pat_completeness auto
termination
  by (relation "measure (\<lambda>(c, f, cursor, rest). length rest)") auto

declare write_chunks.simps [simp del]

definition write_payload_buf :: "vhdx_writer \<Rightarrow> u64 \<Rightarrow> bytes \<Rightarrow> vhdx_writer res" where
  "write_payload_buf w off buf =
    (let chunk_size = unat (w_chunked_write_size w) in
     if chunk_size = 0 \<or> length buf \<le> chunk_size
     then bindR (write_all_at (w_file w) off buf) (\<lambda>f. Inr (w\<lparr>w_file := f\<rparr>))
     else bindR (write_chunks chunk_size (w_file w) off buf) (\<lambda>f. Inr (w\<lparr>w_file := f\<rparr>)))"

definition write_block :: "vhdx_writer \<Rightarrow> u64 \<Rightarrow> block_source \<Rightarrow> vhdx_writer res" where
  "write_block w block_index source =
    (case source of
       SrcZero \<Rightarrow>
         bindR (set_payload_entry (w_bat w) block_index (BatEntry_new PAYLOAD_BLOCK_ZERO 0)) (\<lambda>b.
         Inr (w\<lparr>w_bat := b\<rparr>))
     | SrcBuf buf \<Rightarrow>
         bindR (if wp_fixed (w_params w)
           then bindR (payload_entry (w_bat w) block_index) (\<lambda>o'.
             bindR (ok_or o' (Panic ''called `Option::unwrap()` on a `None` value'')) (\<lambda>e.
             Inr (entry_file_offset e)))
           else Inr (w_payload_cursor w)) (\<lambda>off.
         bindR (write_payload_buf w off buf) (\<lambda>w.
         if wp_fixed (w_params w) then Inr w
         else
           bindR (set_payload_entry (w_bat w) block_index
             (BatEntry_new PAYLOAD_BLOCK_FULLY_PRESENT off)) (\<lambda>b.
           Inr (w\<lparr>w_bat := b,
             w_payload_cursor := w_payload_cursor w + ucast (wp_block_size (w_params w))\<rparr>)))))"

text \<open>\<open>reopen\<close> opens what is found at the path; the handle it had is dropped.\<close>

definition reopen :: "vhdx_writer \<Rightarrow> dfile option \<Rightarrow> vhdx_writer res" where
  "reopen w found = bindR (ok_or found (Io NotFound)) (\<lambda>f. Inr (w\<lparr>w_file := f\<rparr>))"

definition mark_not_present :: "vhdx_writer \<Rightarrow> u64 \<Rightarrow> vhdx_writer res" where
  "mark_not_present w block_index =
    bindR (set_payload_entry (w_bat w) block_index (BatEntry_new PAYLOAD_BLOCK_NOT_PRESENT 0)) (\<lambda>b.
    Inr (w\<lparr>w_bat := b\<rparr>))"

text \<open>\<open>finish\<close> consumes the writer; the result is the file at the writer's path.\<close>

definition writer_finish :: "vhdx_writer \<Rightarrow> (path \<times> dfile) res" where
  "writer_finish w =
    bindR (bat_region_buf (w_bat w) (w_bat_length w)) (\<lambda>bat_buf.
    bindR (write_all_at (w_file w) (w_bat_offset w) bat_buf) (\<lambda>f.
    bindR (if wp_fixed (w_params w) then Inr f else set_len f (w_payload_cursor w)) (\<lambda>f.
    Inr (w_path w, f))))"

text \<open>A session: the block writes in order.\<close>

fun write_blocks :: "vhdx_writer \<Rightarrow> (u64 \<times> block_source) list \<Rightarrow> vhdx_writer res" where
  "write_blocks w [] = Inr w"
| "write_blocks w ((b, s) # ws) = bindR (write_block w b s) (\<lambda>w'. write_blocks w' ws)"

section \<open>Chunked writes\<close>

lemma patch_append:
  "patch (patch f off b1) (off + length b1) b2 = patch f off (b1 @ b2)" if "b1 \<noteq> []" "b2 \<noteq> []"
  using that by (rule patch_patch_adjacent)

lemma write_chunks_eq:
  assumes "rest \<noteq> []" and "0 < chunk_size" and "unat cursor + length rest < 2 ^ 63"
    and "unat cursor + length rest \<le> max (f_len f) (f_max f)"
  shows "write_chunks chunk_size f cursor rest = Inr (patch f (unat cursor) rest)"
  using assms
proof (induction chunk_size f cursor rest rule: write_chunks.induct)
  case (1 chunk_size f cursor rest)
  let ?part = "take chunk_size rest" and ?rest = "drop chunk_size rest"
  let ?f = "patch f (unat cursor) ?part"
  have part: "?part \<noteq> []" "length ?part \<le> length rest" using "1.prems" by auto
  have wr: "write_all_at f cursor ?part = Inr ?f"
    using "1.prems" part by (auto simp: res_simps)
  have step: "write_chunks chunk_size f cursor rest =
      write_chunks chunk_size ?f (cursor + word_of_nat (length ?part)) ?rest"
    using "1.prems" wr by (simp add: write_chunks.simps [of chunk_size f])
  have cur: "unat (cursor + word_of_nat (length ?part)) = unat cursor + length ?part"
    using "1.prems" part by (simp add: unat_add_u64 unat_of_nat_u64)
  show ?case
  proof (cases "?rest = []")
    case True
    then show ?thesis by (simp add: step write_chunks.simps [of _ "patch _ _ _"])
  next
    case False
    then have len: "length ?part = chunk_size" by simp
    have "write_chunks chunk_size ?f (cursor + word_of_nat (length ?part)) ?rest =
        Inr (patch ?f (unat (cursor + word_of_nat (length ?part))) ?rest)"
      using "1.prems" False part wr by (intro "1.IH") (auto simp: cur [unfolded len] le_max_iff_disj)
    then show ?thesis
      using patch_append [OF part(1) False, of f "unat cursor"]
      by (simp only: step cur append_take_drop_id)
  qed
qed

lemma write_payload_buf_eq:
  assumes "unat off + length buf < 2 ^ 63" and "unat off + length buf \<le> max (f_len (w_file w)) (f_max (w_file w))"
  shows "write_payload_buf w off buf = Inr (w\<lparr>w_file := patch (w_file w) (unat off) buf\<rparr>)"
proof (cases "unat (w_chunked_write_size w) = 0 \<or> length buf \<le> unat (w_chunked_write_size w)")
  case True
  have "write_all_at (w_file w) off buf = Inr (patch (w_file w) (unat off) buf)"
    using assms by (auto simp: res_simps)
  with True show ?thesis by (simp add: write_payload_buf_def Let_def)
next
  case False
  then have "write_chunks (unat (w_chunked_write_size w)) (w_file w) off buf =
      Inr (patch (w_file w) (unat off) buf)"
    using assms by (intro write_chunks_eq) auto
  with False show ?thesis by (simp add: write_payload_buf_def Let_def)
qed

section \<open>The layout\<close>

lemma align_up_MIB:
  assumes "unat n + 1048576 < 18446744073709551616"
  shows "unat n \<le> unat (align_up n MIB)" and "unat (align_up n MIB) mod 1048576 = 0"
    and "unat (align_up n MIB) < unat n + 1048576"
proof -
  define r where "r = unat n mod 1048576"
  have M: "unat MIB = 1048576" by (simp add: offset_defs)
  have r: "unat (n mod MIB) = r" by (simp add: unat_mod M r_def)
  have lt: "r < 1048576" by (simp add: r_def)
  have "unat (align_up n MIB) = (if r = 0 then unat n else unat n + (1048576 - r))"
  proof (cases "r = 0")
    case True
    then have "n mod MIB = 0" using r by (simp add: unat_eq_zero)
    with True show ?thesis by (simp add: align_up_def)
  next
    case False
    then have nz: "n mod MIB \<noteq> 0" using r by (metis unat_0)
    moreover have "unat (MIB - n mod MIB) = 1048576 - r"
      using lt by (simp add: unat_sub_u64 r M)
    ultimately show ?thesis
      using False nz assms lt by (simp add: align_up_def Let_def unat_add_u64)
  qed
  then consider "r = 0" "unat (align_up n MIB) = unat n"
    | "r \<noteq> 0" "unat (align_up n MIB) = unat n + (1048576 - r)" by (cases "r = 0") auto
  then have "unat n \<le> unat (align_up n MIB) \<and> unat (align_up n MIB) < unat n + 1048576 \<and>
      unat (align_up n MIB) mod 1048576 = 0"
  proof cases
    case 1
    then show ?thesis by (simp add: r_def)
  next
    case 2
    obtain q where "unat n = q * 1048576 + r"
      using div_mult_mod_eq [of "unat n" 1048576] by (metis r_def)
    then have "unat (align_up n MIB) = (q + 1) * 1048576"
      using 2 lt by simp
    then have "unat (align_up n MIB) mod 1048576 = 0" by (metis mod_mult_self2_is_0)
    with 2 lt show ?thesis by simp
  qed
  then show "unat n \<le> unat (align_up n MIB)" "unat (align_up n MIB) mod 1048576 = 0"
      "unat (align_up n MIB) < unat n + 1048576" by simp_all
qed

definition params_ok :: "externs \<Rightarrow> writer_params \<Rightarrow> bool" where
  "params_ok E p \<longleftrightarrow>
     0 < unat (wp_block_size p) \<and> unat (wp_block_size p) mod 1048576 = 0 \<and>
     unat (wp_block_size p) \<le> 2 ^ 28 \<and>
     0 < unat (wp_logical_sector_size p) \<and> unat (wp_logical_sector_size p) \<le> 65536 \<and>
     unat (wp_block_size p) \<le> 2 ^ 23 * unat (wp_logical_sector_size p) \<and>
     unat (wp_virtual_disk_size p) \<le> 2 ^ 46 \<and>
     0 < unat (wp_log_size p) \<and> unat (wp_log_size p) \<le> 2 ^ 32 \<and>
     pred_option (\<lambda>pl. locator_fits E pl \<and> length (ParentLocator_encode E pl) \<le> 900000) (wp_parent_locator p)"

definition lay_count :: "writer_params \<Rightarrow> u64" where
  "lay_count p = div_ceil (wp_virtual_disk_size p) (ucast (wp_block_size p))"

definition lay_ratio :: "writer_params \<Rightarrow> u64" where
  "lay_ratio p = (push_bit 23 1 * ucast (wp_logical_sector_size p)) div ucast (wp_block_size p)"

definition lay_total :: "writer_params \<Rightarrow> nat" where
  "lay_total p = (if lay_count p = 0 then 0
     else if wp_parent_locator p \<noteq> None then nat_bitmap_index (unat (lay_count p) - 1) (unat (lay_ratio p)) + 1
     else nat_payload_index (unat (lay_count p) - 1) (unat (lay_ratio p)) + 1)"

definition lay_bat_length :: "writer_params \<Rightarrow> u64" where
  "lay_bat_length p = align_up (max (word_of_nat (lay_total p) * 8) MIB) MIB"

definition lay_metadata_offset :: "writer_params \<Rightarrow> u64" where
  "lay_metadata_offset p = MIB + align_up (wp_log_size p) MIB"

definition lay_bat_offset :: "writer_params \<Rightarrow> u64" where
  "lay_bat_offset p = lay_metadata_offset p + MIB"

definition lay_payload_start :: "writer_params \<Rightarrow> u64" where
  "lay_payload_start p = lay_bat_offset p + lay_bat_length p"

lemma unat_MIB [simp]: "unat MIB = 1048576"
  by (simp add: offset_defs)

lemma lay_count_ratio:
  assumes "params_ok E p"
  shows "unat (lay_count p) \<le> 67108864" and "0 < unat (lay_ratio p)"
    and "unat (lay_ratio p) \<le> 524288"
    and "index_ok b (lay_ratio p) \<longleftrightarrow> unat b < 2 ^ 62"
    and "block_count (writer_metadata p) = Inr (lay_count p)"
    and "chunk_ratio (writer_metadata p) = Inr (lay_ratio p)"
    and "total_bat_entries (lay_count p) (lay_ratio p) (wp_parent_locator p \<noteq> None) = Inr (lay_total p)"
proof -
  let ?bs = "unat (wp_block_size p)" and ?ls = "unat (wp_logical_sector_size p)"
  note ok = assms [unfolded params_ok_def]
  have bs: "1048576 \<le> ?bs"
    using ok by (meson dvd_imp_le mod_0_imp_dvd)
  have ne: "(ucast (wp_block_size p) :: u64) \<noteq> 0" "wp_block_size p \<noteq> 0"
    using ok by (auto simp: unat_gt_0 simp flip: unat_gt_0 [of "ucast (wp_block_size p) :: u64"])
  have "unat (lay_count p) = (unat (wp_virtual_disk_size p) + (?bs - 1)) div ?bs"
    using ne(1) by (simp add: lay_count_def div_ceil_nat)
  also have "\<dots> \<le> (2 ^ 46 + (?bs - 1)) div ?bs"
    using ok by (intro div_le_mono add_right_mono) blast
  also have "\<dots> \<le> 2 ^ 26"
  proof -
    have "2 ^ 46 \<le> 67108864 * ?bs" using bs by simp
    then have "2 ^ 46 + (?bs - 1) < (2 ^ 26 + 1) * ?bs"
      using bs by (simp add: add_mult_distrib)
    then show ?thesis by (simp add: less_mult_imp_div_less less_Suc_eq_le [symmetric])
  qed
  finally show cnt: "unat (lay_count p) \<le> 67108864" by simp
  have prod: "unat (push_bit 23 1 * ucast (wp_logical_sector_size p) :: u64) = 8388608 * ?ls"
    using ok by (subst unat_mult_u64) (simp_all add: push_bit_eq_mult)
  then have ratio: "unat (lay_ratio p) = 8388608 * ?ls div ?bs"
    by (simp add: lay_ratio_def unat_div)
  show pos: "0 < unat (lay_ratio p)"
    using ok bs by (simp add: ratio div_greater_zero_iff)
  have "8388608 * ?ls div ?bs \<le> 8388608 * 65536 div 1048576"
    using ok bs by (intro order_trans [OF div_le_mono div_le_mono2]) auto
  then show le: "unat (lay_ratio p) \<le> 524288" by (simp add: ratio)
  show idx: "index_ok b (lay_ratio p) \<longleftrightarrow> unat b < 2 ^ 62" for b
    using pos le by (auto simp: index_ok_def)
  show "block_count (writer_metadata p) = Inr (lay_count p)"
    "chunk_ratio (writer_metadata p) = Inr (lay_ratio p)"
    using ne by (simp_all add: block_count_def chunk_ratio_def writer_metadata_def block_size_def
        lay_count_def lay_ratio_def)
  show "total_bat_entries (lay_count p) (lay_ratio p) (wp_parent_locator p \<noteq> None) = Inr (lay_total p)"
  proof (cases "lay_count p = 0")
    case True
    then show ?thesis by (simp add: total_bat_entries_def lay_total_def)
  next
    case False
    moreover have "index_ok (lay_count p) (lay_ratio p)" using idx cnt by simp
    ultimately show ?thesis
      by (simp add: total_bat_entries_nat lay_total_def)
  qed
qed

lemma lay_total_le:
  assumes "params_ok E p"
  shows "lay_total p \<le> 134742017"
    and "j < unat (lay_count p) \<Longrightarrow> nat_payload_index (j) (unat (lay_ratio p)) < lay_total p"
proof -
  note c = lay_count_ratio [OF assms]
  let ?n = "unat (lay_count p)" and ?r = "unat (lay_ratio p)"
  have d: "(?n - 1) div ?r \<le> ?n - 1" "(?n - 1) div ?r * ?r \<le> ?n - 1" by simp_all
  then have p1: "nat_payload_index (?n - 1) ?r + 1 \<le> 134742017"
    unfolding nat_payload_index_def using c(1) by linarith
  have "nat_bitmap_index (?n - 1) ?r + 1 \<le> 134742017"
    unfolding nat_bitmap_index_def add_mult_distrib2 using d c(1,3) by linarith
  with p1 show "lay_total p \<le> 134742017" by (simp add: lay_total_def)
  assume b: "j < ?n"
  then have "j \<le> ?n - 1" by simp
  then have pi: "nat_payload_index (j) ?r \<le> nat_payload_index (?n - 1) ?r"
    by (cases "j = ?n - 1") (use nat_payload_index_strict [of "j" "?n - 1" ?r] in auto)
  have "nat_payload_index (?n - 1) ?r \<le> nat_bitmap_index (?n - 1) ?r"
  proof -
    have "nat_payload_index (?n - 1) ?r = (?n - 1) div ?r * (?r + 1) + (?n - 1) mod ?r"
      using c(2) by (rule nat_payload_index_mod)
    also have "\<dots> \<le> (?n - 1) div ?r * (?r + 1) + ?r"
      using mod_less_divisor [OF c(2)] by (intro add_left_mono less_imp_le)
    finally show ?thesis by (simp add: nat_bitmap_index_def)
  qed
  with pi b show "nat_payload_index (j) ?r < lay_total p"
    by (auto simp: lay_total_def)
qed

lemma lay_bounds:
  assumes "params_ok E p"
  shows "unat (lay_metadata_offset p) mod 1048576 = 0"
    and "1048576 + unat (wp_log_size p) \<le> unat (lay_metadata_offset p)"
    and "unat (lay_metadata_offset p) \<le> 2 ^ 33"
    and "unat (lay_bat_offset p) = unat (lay_metadata_offset p) + 1048576"
    and "unat (lay_payload_start p) = unat (lay_bat_offset p) + unat (lay_bat_length p)"
    and "unat (lay_bat_length p) mod 1048576 = 0" and "1048576 \<le> unat (lay_bat_length p)"
    and "lay_total p * 8 \<le> unat (lay_bat_length p)" and "unat (lay_bat_length p) < 2 ^ 32"
    and "unat (lay_payload_start p) mod 1048576 = 0" and "unat (lay_bat_offset p) mod 1048576 = 0"
proof -
  have log: "unat (wp_log_size p) \<le> 4294967296" using assms by (simp add: params_ok_def)
  note a = align_up_MIB [of "wp_log_size p"]
  have m: "unat (lay_metadata_offset p) = 1048576 + unat (align_up (wp_log_size p) MIB)"
    using a log by (simp add: lay_metadata_offset_def unat_add_u64)
  then show m1: "unat (lay_metadata_offset p) mod 1048576 = 0"
      and "1048576 + unat (wp_log_size p) \<le> unat (lay_metadata_offset p)"
    using a log by simp_all
  show m2: "unat (lay_metadata_offset p) \<le> 2 ^ 33" using m a log by simp
  then show b: "unat (lay_bat_offset p) = unat (lay_metadata_offset p) + 1048576"
    by (simp add: lay_bat_offset_def unat_add_u64)
  define raw :: u64 where "raw = max (word_of_nat (lay_total p) * 8) MIB"
  have "unat (word_of_nat (lay_total p) * 8 :: u64) = lay_total p * 8"
    using lay_total_le(1) [OF assms] by (subst unat_mult_u64) (simp_all add: unat_of_nat_u64)
  then have raw: "unat raw = max (lay_total p * 8) 1048576"
    by (simp add: raw_def max_def word_le_nat_alt)
  note l = align_up_MIB [of raw]
  have raw_le: "unat raw \<le> 2 ^ 31" using lay_total_le(1) [OF assms] by (simp add: raw)
  then have len: "lay_bat_length p = align_up raw MIB" "unat raw + 1048576 < 18446744073709551616"
    by (simp_all add: lay_bat_length_def raw_def)
  show l1: "unat (lay_bat_length p) mod 1048576 = 0" using l(2) len by simp
  show "1048576 \<le> unat (lay_bat_length p)" "lay_total p * 8 \<le> unat (lay_bat_length p)"
    using l(1) len raw by simp_all
  show l2: "unat (lay_bat_length p) < 2 ^ 32"
    using l(3) len raw_le by simp
  show s: "unat (lay_payload_start p) = unat (lay_bat_offset p) + unat (lay_bat_length p)"
    using m2 b l2 by (simp add: lay_payload_start_def unat_add_u64)
  show b1: "unat (lay_bat_offset p) mod 1048576 = 0" using b m1 by (simp add: mod_add_right_eq)
  show "unat (lay_payload_start p) mod 1048576 = 0"
    unfolding s using b1 l1 by (metis add_0 mod_add_eq mod_0)
qed

section \<open>Creation\<close>

lemma write_fits:
  "unat off + length buf \<le> f_max f \<Longrightarrow> f_max f < 2 ^ 63 \<Longrightarrow> write_all_at f off buf = Inr (patch f (unat off) buf)"
  by (auto simp: res_simps le_max_iff_disj)

lemma zero_fits:
  "unat off + unat n \<le> f_max f \<Longrightarrow> f_max f < 2 ^ 63 \<Longrightarrow> 0 < unat n \<Longrightarrow>
    zero_range f off n = Inr (patch f (unat off) (replicate (unat n) 0))"
  by (simp add: zero_range_def zero_range_loop_eq)

lemma set_len_fits:
  assumes "unat n \<le> f_max f" and "f_max f < 2 ^ 63"
  shows "set_len f n = Inr (f\<lparr>f_data := (\<lambda>i. if i < min (unat n) (f_len f) then f_data f i else 0),
    f_len := unat n\<rparr>)"
  using assms by (simp add: set_len_def seek_def)

lemma file_bytes_truncated:
  "off + n \<le> min m (f_len f) \<Longrightarrow>
    file_bytes (f\<lparr>f_data := (\<lambda>i. if i < min m (f_len f) then f_data f i else 0), f_len := m\<rparr>) off n =
    file_bytes f off n"
  by (intro file_bytes_eqI) simp

text \<open>What lies before the table in every file the writer produces.\<close>

definition base_ok :: "externs \<Rightarrow> writer_params \<Rightarrow> dfile \<Rightarrow> bool" where
  "base_ok E p f \<longleftrightarrow>
     file_bytes f 0 8 = FILE_TYPE_SIGNATURE \<and>
     file_bytes f 65536 65536 = Header_encode E (writer_header p MIB 1) \<and>
     file_bytes f 131072 65536 = Header_encode E (writer_header p MIB 2) \<and>
     (\<exists>raw. RegionTable_encode E
         (writer_regions (lay_metadata_offset p) (lay_bat_offset p) (lay_bat_length p)) = Inr raw \<and>
       file_bytes f 196608 65536 = raw \<and> file_bytes f 262144 65536 = raw) \<and>
     (\<exists>mb. Metadata_encode E (writer_metadata p) MIB = Inr mb \<and>
       file_bytes f (unat (lay_metadata_offset p)) 1048576 = mb) \<and>
     unat (lay_payload_start p) \<le> f_len f"

lemma base_ok_frame:
  assumes "base_ok E p f" and "params_ok E p"
    and "\<And>o' n. o' + n \<le> unat (lay_bat_offset p) \<Longrightarrow> file_bytes g o' n = file_bytes f o' n"
    and "unat (lay_payload_start p) \<le> f_len g"
  shows "base_ok E p g"
proof -
  have "327680 \<le> unat (lay_bat_offset p)"
    "unat (lay_metadata_offset p) + 1048576 \<le> unat (lay_bat_offset p)"
    using lay_bounds(2,4) [OF assms(2)] by simp_all
  then show ?thesis
    using assms(1,4) by (simp add: base_ok_def assms(3))
qed

definition blank_bat :: "writer_params \<Rightarrow> bat" where
  "blank_bat p = \<lparr>bat_entries = replicate (lay_total p) BatEntry_empty, bat_chunk_ratio = lay_ratio p,
     bat_block_count = lay_count p\<rparr>"

lemma bat_region_buf_ok:
  assumes "params_ok E p" and "length (bat_entries b) = lay_total p"
  shows "bat_region_buf b (lay_bat_length p) =
    Inr (Bat_encode b @ replicate (unat (lay_bat_length p) - lay_total p * 8) 0)"
  using lay_bounds(8) [OF assms(1)] assms(2) by (simp add: bat_region_buf_def Let_def bput_def)

lemma writer_metadata_encode:
  assumes "uuid_laws E" and "params_ok E p"
  shows "\<exists>mb. Metadata_encode E (writer_metadata p) MIB = Inr mb \<and> length mb = 1048576 \<and>
    Metadata_parse E mb = Inr (writer_metadata p)"
proof -
  let ?md = "writer_metadata p"
  have loc: "pred_option (\<lambda>pl. locator_fits E pl \<and> length (ParentLocator_encode E pl) \<le> 900000)
      (md_parent_locator ?md)"
    using assms(2) by (simp add: params_ok_def writer_metadata_def)
  have n: "length (metadata_items E ?md) \<le> 6" by (simp add: length_metadata_items writer_metadata_def)
  have "(\<Sum>x\<leftarrow>metadata_items E ?md. length (fst (snd x)) + 7) \<le> 900100"
    using loc assms(1)
    by (cases "md_parent_locator ?md")
       (simp_all add: metadata_items_def Let_def write_guid_simps writer_metadata_def)
  then obtain mb where mb: "Metadata_encode E ?md MIB = Inr mb"
    using Metadata_encode_fits [OF assms(1), of ?md MIB] n by auto
  have "metadata_ok E ?md"
    using loc by (cases "md_parent_locator ?md") (simp_all add: metadata_ok_def writer_metadata_def)
  then have "Metadata_parse E mb = Inr ?md"
    by (rule metadata_roundtrip_parse [OF assms(1) _ mb]) simp_all
  moreover have "length mb = 1048576"
    using Metadata_encode_length [OF assms(1) mb] n by simp
  ultimately show ?thesis using mb by blast
qed

text \<open>The writes that make a blank disk, in their order, and what they leave.\<close>

definition put_all :: "(nat \<times> bytes) list \<Rightarrow> dfile \<Rightarrow> dfile" where
  "put_all ws f = fold (\<lambda>(off, buf) f. patch f off buf) ws f"

lemma put_all_simps [simp]:
  "put_all [] f = f" "put_all ((off, buf) # ws) f = put_all ws (patch f off buf)"
  "f_max (put_all ws f) = f_max f"
  by (simp_all add: put_all_def) (induction ws arbitrary: f; auto)

lemma put_all_append: "put_all (ws @ ws') f = put_all ws' (put_all ws f)"
  by (simp add: put_all_def)

lemma put_all_other:
  assumes "\<forall>(off, buf) \<in> set ws. off + length buf \<le> o2 \<or> o2 + n \<le> off" and "o2 + n \<le> f_len f"
  shows "file_bytes (put_all ws f) o2 n = file_bytes f o2 n"
  using assms by (induction ws arbitrary: f) (auto simp: file_bytes_patch_other)

text \<open>The write at place \<open>k\<close> is read back when no later one touches it.\<close>

lemma put_all_reads:
  assumes "k < length ws" and "ws ! k = (off, buf)" and "n = length buf"
    and "\<forall>(off', buf') \<in> set (drop (Suc k) ws). off' + length buf' \<le> off \<or> off + length buf \<le> off'"
  shows "file_bytes (put_all ws f) off n = buf"
proof (cases "buf = []")
  case False
  have "put_all ws f = put_all (drop (Suc k) ws) (put_all (take k ws @ [(off, buf)]) f)"
    using id_take_nth_drop [OF assms(1)] assms(2) by (metis append.assoc append_Cons append_Nil put_all_append)
  also have "\<dots> = put_all (drop (Suc k) ws) (patch (put_all (take k ws) f) off buf)" by (simp add: put_all_append)
  finally have "put_all ws f = put_all (drop (Suc k) ws) (patch (put_all (take k ws) f) off buf)" .
  then show ?thesis
    using assms(3,4) False by (simp add: put_all_other file_bytes_patch_same)
qed (use assms(3) in \<open>simp add: file_bytes_def\<close>)

definition blank_writes :: "nat \<Rightarrow> nat \<Rightarrow> nat \<Rightarrow> bytes \<Rightarrow> bytes \<Rightarrow> bytes \<Rightarrow> bytes \<Rightarrow> bytes \<Rightarrow> bytes \<Rightarrow> (nat \<times> bytes) list" where
  "blank_writes l m b fti mb bb rg h1 h2 =
    [(0, fti), (65536, replicate 983040 0), (1048576, replicate l 0), (m, mb), (b, bb),
     (196608, rg), (262144, rg), (65536, h1), (131072, h2)]"

lemma blank_file:
  fixes l m b capacity :: nat and fti mb bb rg h1 h2 :: bytes
  defines "g \<equiv> put_all (blank_writes l m b fti mb bb rg h1 h2) (new_file capacity)"
  assumes len: "length fti = 65536" "length mb = 1048576" "length rg = 65536" "length h1 = 65536" "length h2 = 65536"
    and at: "1048576 + l \<le> m" "m + 1048576 = b" and bb: "bb \<noteq> []"
  shows "f_len g = b + length bb" and "file_bytes g 0 65536 = fti" and "file_bytes g 65536 65536 = h1"
    and "file_bytes g 131072 65536 = h2" and "file_bytes g 196608 65536 = rg" and "file_bytes g 262144 65536 = rg"
    and "file_bytes g m 1048576 = mb"
proof -
  note g = g_def blank_writes_def
  show "f_len g = b + length bb" using len at bb by (auto simp: g new_file_def max_def)
  show "file_bytes g 0 65536 = fti" using len at unfolding g by (intro put_all_reads [where k = 0]) simp_all
  show "file_bytes g 65536 65536 = h1" using len unfolding g by (intro put_all_reads [where k = 7]) simp_all
  show "file_bytes g 131072 65536 = h2" using len unfolding g by (intro put_all_reads [where k = 8]) simp_all
  show "file_bytes g 196608 65536 = rg" using len unfolding g by (intro put_all_reads [where k = 5]) simp_all
  show "file_bytes g 262144 65536 = rg" using len unfolding g by (intro put_all_reads [where k = 6]) simp_all
  show "file_bytes g m 1048576 = mb" using len at unfolding g by (intro put_all_reads [where k = 3]) simp_all
qed

lemma blank_file_written:
  fixes capacity :: nat and fti mb bb rg h1 h2 :: bytes
  assumes cap: "unat (lay_payload_start p) \<le> capacity" "capacity < 2 ^ 63" and p: "params_ok E p"
    and len: "length fti = 65536" "length mb = 1048576" "length rg = 65536" "length h1 = 65536" "length h2 = 65536"
      "length bb = unat (lay_bat_length p)"
  defines "g \<equiv> put_all (blank_writes (unat (wp_log_size p)) (unat (lay_metadata_offset p)) (unat (lay_bat_offset p))
    fti mb bb rg h1 h2) (new_file capacity)"
  obtains f1 f2 f3 f4 f5 f6 f7 f8 where
    "write_all_at (new_file capacity) FILE_TYPE_IDENTIFIER_OFFSET fti = Inr f1"
    "zero_range f1 65536 (MIB - 65536) = Inr f2" "zero_range f2 MIB (wp_log_size p) = Inr f3"
    "write_all_at f3 (lay_metadata_offset p) mb = Inr f4" "write_all_at f4 (lay_bat_offset p) bb = Inr f5"
    "write_all_at f5 (region_table_offset 0) rg = Inr f6"
    "write_all_at f6 (region_table_offset (Suc 0)) rg = Inr f7"
    "write_all_at f7 (header_offset 0) h1 = Inr f8" "write_all_at f8 (header_offset (Suc 0)) h2 = Inr g"
proof -
  let ?s = "unat (lay_payload_start p)"
  have wr: "write_all_at f off buf = Inr (patch f (unat off) buf)"
    if "f_max f = capacity" "unat off + length buf \<le> ?s" for f off buf
    using that cap by (intro write_fits) simp_all
  have zero: "zero_range f off n = Inr (patch f (unat off) (replicate (unat n) 0))"
    if "f_max f = capacity" "unat off + unat n \<le> ?s" "0 < unat n" for f off n
    using that cap by (intro zero_fits) simp_all
  have offs: "unat FILE_TYPE_IDENTIFIER_OFFSET = 0" "unat (MIB - 65536) = 983040" "f_max (new_file capacity) = capacity"
    by (simp_all add: offset_defs new_file_def unat_sub_u64)
  define f1 where "f1 = patch (new_file capacity) 0 fti"
  define f2 where "f2 = patch f1 65536 (replicate 983040 0)"
  define f3 where "f3 = patch f2 1048576 (replicate (unat (wp_log_size p)) 0)"
  define f4 where "f4 = patch f3 (unat (lay_metadata_offset p)) mb"
  define f5 where "f5 = patch f4 (unat (lay_bat_offset p)) bb"
  define f6 where "f6 = patch f5 196608 rg"
  define f7 where "f7 = patch f6 262144 rg"
  define f8 where "f8 = patch f7 65536 h1"
  note f = f1_def f2_def f3_def f4_def f5_def f6_def f7_def f8_def
  have g: "g = patch f8 131072 h2" by (simp add: g_def blank_writes_def f)
  have "0 < unat (wp_log_size p)" using p by (simp add: params_ok_def)
  then show ?thesis
    using lay_bounds(2,4,5,7) [OF p] len
    by (intro that [of f1 f2 f3 f4 f5 f6 f7 f8]) (simp_all add: wr zero offs g f)
qed

text \<open>The whole of \<open>VhdxWriter_create\<close> for a dynamic disk.\<close>

lemma create_ok:
  assumes "uuid_laws E" and "params_ok E p" and "\<not> wp_fixed p"
    and "unat (lay_payload_start p) \<le> capacity" and "capacity < 2 ^ 63"
  shows "\<exists>f. VhdxWriter_create E pth capacity p = Inr \<lparr>w_params = p, w_path = pth, w_file = f,
      w_bat = blank_bat p, w_log_offset = MIB, w_metadata_offset = lay_metadata_offset p,
      w_bat_offset = lay_bat_offset p, w_bat_length = lay_bat_length p,
      w_payload_cursor = lay_payload_start p, w_chunked_write_size = 0\<rparr> \<and>
    base_ok E p f \<and> f_max f = capacity \<and> f_len f = unat (lay_payload_start p)"
proof -
  let ?s = "unat (lay_payload_start p)"
  note lay = lay_bounds [OF assms(2)]
  define fti where "fti = bput 0 FILE_TYPE_SIGNATURE (replicate 65536 0)"
  have fti: "length fti = 65536" "take 8 fti = FILE_TYPE_SIGNATURE" by (simp_all add: fti_def bput_def)
  obtain mb where mb: "Metadata_encode E (writer_metadata p) MIB = Inr mb" "length mb = 1048576"
    using writer_metadata_encode [OF assms(1,2)] by blast
  obtain bb where bb: "bat_region_buf (blank_bat p) (lay_bat_length p) = Inr bb" "length bb = unat (lay_bat_length p)"
    using bat_region_buf_ok [OF assms(2), of "blank_bat p"] lay(8) by (simp add: blank_bat_def)
  obtain rg where rg: "RegionTable_encode E
      (writer_regions (lay_metadata_offset p) (lay_bat_offset p) (lay_bat_length p)) = Inr rg" "length rg = 65536"
    using region_table_roundtrip_parse [OF assms(1),
        of "writer_regions (lay_metadata_offset p) (lay_bat_offset p) (lay_bat_length p)"]
    by (auto simp: writer_regions_def)
  define h1 where "h1 = Header_encode E (writer_header p MIB 1)"
  define h2 where "h2 = Header_encode E (writer_header p MIB 2)"
  have h: "length h1 = 65536" "length h2 = 65536" using assms(1) by (simp_all add: h1_def h2_def)
  define g where "g = put_all (blank_writes (unat (wp_log_size p)) (unat (lay_metadata_offset p))
    (unat (lay_bat_offset p)) fti mb bb rg h1 h2) (new_file capacity)"
  have "bb \<noteq> []" using bb(2) lay(7) by auto
  note G = blank_file [OF fti(1) mb(2) rg(2) h lay(2) lay(4) [symmetric] this, of capacity, folded g_def, unfolded bb(2)]
  have len: "f_len g = ?s" and max: "f_max g = capacity" using G(1) lay(5) by (simp_all add: g_def new_file_def)
  define f where "f = g\<lparr>f_data := (\<lambda>i. if i < min ?s (f_len g) then f_data g i else 0), f_len := ?s\<rparr>"
  have trunc: "set_len g (lay_payload_start p) = Inr f"
    using set_len_fits [of "lay_payload_start p" g] assms(4,5) max by (simp add: f_def)
  have same: "file_bytes f o' n = file_bytes g o' n" if "o' + n \<le> ?s" for o' n
    unfolding f_def using that len by (intro file_bytes_truncated) simp
  have "file_bytes g 0 8 = FILE_TYPE_SIGNATURE"
    using file_bytes_slice [of g 0 65536 0 8] G(2) fti(2) by (simp add: bslice_def)
  then have base: "base_ok E p f"
    using G(3-7) rg mb lay(2,4,5)
    by (simp add: base_ok_def same h1_def h2_def) (simp add: f_def)
  obtain f1 f2 f3 f4 f5 f6 f7 f8 where steps:
    "write_all_at (new_file capacity) FILE_TYPE_IDENTIFIER_OFFSET fti = Inr f1"
    "zero_range f1 65536 (MIB - 65536) = Inr f2" "zero_range f2 MIB (wp_log_size p) = Inr f3"
    "write_all_at f3 (lay_metadata_offset p) mb = Inr f4" "write_all_at f4 (lay_bat_offset p) bb = Inr f5"
    "write_all_at f5 (region_table_offset 0) rg = Inr f6"
    "write_all_at f6 (region_table_offset (Suc 0)) rg = Inr f7"
    "write_all_at f7 (header_offset 0) h1 = Inr f8" "write_all_at f8 (header_offset (Suc 0)) h2 = Inr g"
    unfolding g_def by (rule blank_file_written [OF assms(4,5,2) fti(1) mb(2) rg(2) h bb(2)])
  have k: "64 * 1024 = (65536 :: nat)" "64 * 1024 = (65536 :: u64)" by simp_all
  have bs: "(ucast (wp_block_size p) :: u64) \<noteq> 0"
    using assms(2) by (simp add: params_ok_def flip: unat_gt_0)
  have "VhdxWriter_create E pth capacity p = Inr \<lparr>w_params = p, w_path = pth, w_file = f,
      w_bat = blank_bat p, w_log_offset = MIB, w_metadata_offset = lay_metadata_offset p,
      w_bat_offset = lay_bat_offset p, w_bat_length = lay_bat_length p,
      w_payload_cursor = lay_payload_start p, w_chunked_write_size = 0\<rparr>"
    by (simp only: VhdxWriter_create_def Let_def lay_count_def [symmetric] lay_ratio_def [symmetric]
        bs assms(3) if_False lay_count_ratio(7) [OF assms(2)] bindR_simps lay_bat_length_def [symmetric]
        lay_metadata_offset_def [symmetric] lay_bat_offset_def [symmetric]
        lay_payload_start_def [symmetric] blank_bat_def [symmetric] k fti_def [symmetric] steps
        mb(1) bb(1) rg(1) One_nat_def h1_def [symmetric] h2_def [symmetric] trunc prod.case)
  moreover have "f_max f = capacity" "f_len f = ?s" by (simp_all add: f_def max)
  ultimately show ?thesis using base by blast
qed

section \<open>Block writes\<close>

definition source_ok :: "writer_params \<Rightarrow> block_source \<Rightarrow> bool" where
  "source_ok p s = (case s of SrcZero \<Rightarrow> True | SrcBuf buf \<Rightarrow> length buf = unat (wp_block_size p))"

text \<open>The entry of a block, and what the entry and the file say the block holds.\<close>

definition entry_of :: "bat \<Rightarrow> nat \<Rightarrow> bat_entry" where
  "entry_of b k = bat_entries b ! nat_payload_index k (unat (bat_chunk_ratio b))"

definition block_holds :: "writer_params \<Rightarrow> nat \<Rightarrow> dfile \<Rightarrow> bat_entry \<Rightarrow> block_source option \<Rightarrow> bool" where
  "block_holds p cursor f e src = (case src of
     None \<Rightarrow> e = BatEntry_empty
   | Some SrcZero \<Rightarrow> e = BatEntry_new PAYLOAD_BLOCK_ZERO 0
   | Some (SrcBuf buf) \<Rightarrow> length buf = unat (wp_block_size p) \<and>
       (\<exists>off. e = BatEntry_new PAYLOAD_BLOCK_FULLY_PRESENT off \<and> unat off mod 1048576 = 0 \<and>
         unat (lay_payload_start p) \<le> unat off \<and> unat off + length buf \<le> cursor \<and>
         file_bytes f (unat off) (length buf) = buf))"

definition writer_ok :: "externs \<Rightarrow> writer_params \<Rightarrow> nat \<Rightarrow> vhdx_writer \<Rightarrow> (nat \<Rightarrow> block_source option) \<Rightarrow> bool" where
  "writer_ok E p capacity w c \<longleftrightarrow> params_ok E p \<and> \<not> wp_fixed p \<and> capacity < 2 ^ 63 \<and>
     w_params w = p \<and> w_bat_offset w = lay_bat_offset p \<and> w_bat_length w = lay_bat_length p \<and>
     base_ok E p (w_file w) \<and> f_max (w_file w) = capacity \<and>
     f_len (w_file w) = unat (w_payload_cursor w) \<and> unat (w_payload_cursor w) \<le> capacity \<and>
     unat (w_payload_cursor w) mod 1048576 = 0 \<and> unat (lay_payload_start p) \<le> unat (w_payload_cursor w) \<and>
     bat_chunk_ratio (w_bat w) = lay_ratio p \<and> bat_block_count (w_bat w) = lay_count p \<and>
     length (bat_entries (w_bat w)) = lay_total p \<and>
     (\<forall>k<unat (lay_count p). block_holds p (unat (w_payload_cursor w)) (w_file w) (entry_of (w_bat w) k) (c k))"

lemma create_writer_ok:
  assumes "uuid_laws E" and "params_ok E p" and "\<not> wp_fixed p"
    and "unat (lay_payload_start p) \<le> capacity" and "capacity < 2 ^ 63"
  shows "\<exists>w. VhdxWriter_create E pth capacity p = Inr w \<and> writer_ok E p capacity w (\<lambda>_. None) \<and>
    w_path w = pth \<and> unat (w_payload_cursor w) = unat (lay_payload_start p)"
proof -
  obtain f where f: "VhdxWriter_create E pth capacity p = Inr \<lparr>w_params = p, w_path = pth, w_file = f,
      w_bat = blank_bat p, w_log_offset = MIB, w_metadata_offset = lay_metadata_offset p,
      w_bat_offset = lay_bat_offset p, w_bat_length = lay_bat_length p,
      w_payload_cursor = lay_payload_start p, w_chunked_write_size = 0\<rparr>"
    "base_ok E p f" "f_max f = capacity" "f_len f = unat (lay_payload_start p)"
    using create_ok [OF assms] by blast
  have "entry_of (blank_bat p) k = BatEntry_empty" if "k < unat (lay_count p)" for k
  proof -
    have "nat_payload_index k (unat (lay_ratio p)) < lay_total p"
      by (rule lay_total_le(2) [OF assms(2) that])
    then show ?thesis by (simp add: entry_of_def blank_bat_def)
  qed
  with f show ?thesis
    using assms(2-) lay_bounds(10) [OF assms(2)]
    by (simp add: writer_ok_def blank_bat_def block_holds_def)
qed

lemma set_payload_ok:
  assumes "writer_ok E p capacity w c" and "unat b < unat (lay_count p)"
  shows "\<exists>t. set_payload_entry (w_bat w) b e = Inr t \<and> bat_chunk_ratio t = lay_ratio p \<and>
    bat_block_count t = lay_count p \<and> length (bat_entries t) = lay_total p \<and>
    (\<forall>k. entry_of t k = (if k = unat b then e else entry_of (w_bat w) k))"
proof -
  have ok: "params_ok E p" "bat_chunk_ratio (w_bat w) = lay_ratio p" "bat_block_count (w_bat w) = lay_count p"
      "length (bat_entries (w_bat w)) = lay_total p"
    using assms(1) by (simp_all add: writer_ok_def)
  note idx = lay_total_le(2) [OF ok(1) assms(2)]
  have "unat b < 2 ^ 62" using assms(2) lay_count_ratio(1) [OF ok(1)] by simp
  then have "has_payload (w_bat w) b"
    using idx ok lay_count_ratio(4) [OF ok(1)] by (simp add: has_payload_def)
  from payload_entry_has(2) [OF this] show ?thesis
    using idx ok by (auto simp: entry_of_def nat_payload_index_inj nth_list_update)
qed

lemma block_holds_frame:
  assumes "block_holds p cursor f e src" and "cursor \<le> cursor'"
    and "\<And>o' n. unat (lay_payload_start p) \<le> o' \<Longrightarrow> o' + n \<le> cursor \<Longrightarrow> file_bytes g o' n = file_bytes f o' n"
  shows "block_holds p cursor' g e src"
  using assms by (fastforce simp: block_holds_def split: option.splits block_source.splits)

lemma write_zero_ok:
  assumes "writer_ok E p capacity w c" and "unat b < unat (lay_count p)"
  shows "\<exists>w'. write_block w b SrcZero = Inr w' \<and> writer_ok E p capacity w' (c(unat b := Some SrcZero)) \<and>
    w_path w' = w_path w \<and> w_payload_cursor w' = w_payload_cursor w"
proof -
  obtain t where t: "set_payload_entry (w_bat w) b (BatEntry_new PAYLOAD_BLOCK_ZERO 0) = Inr t"
      "bat_chunk_ratio t = lay_ratio p" "bat_block_count t = lay_count p"
      "length (bat_entries t) = lay_total p"
      "\<forall>k. entry_of t k = (if k = unat b then BatEntry_new PAYLOAD_BLOCK_ZERO 0 else entry_of (w_bat w) k)"
    using set_payload_ok [OF assms(1,2)] by blast
  have "writer_ok E p capacity (w\<lparr>w_bat := t\<rparr>) (c(unat b := Some SrcZero))"
    using assms(1) t by (auto simp: writer_ok_def block_holds_def)
  then show ?thesis using t(1) by (simp add: write_block_def)
qed

lemma write_buf_ok:
  assumes "writer_ok E p capacity w c" and "unat b < unat (lay_count p)" and "length buf = unat (wp_block_size p)"
    and "unat (w_payload_cursor w) + unat (wp_block_size p) \<le> capacity"
  shows "\<exists>w'. write_block w b (SrcBuf buf) = Inr w' \<and> writer_ok E p capacity w' (c(unat b := Some (SrcBuf buf))) \<and>
    w_path w' = w_path w \<and> unat (w_payload_cursor w') = unat (w_payload_cursor w) + unat (wp_block_size p)"
proof -
  let ?cur = "w_payload_cursor w" and ?bs = "unat (wp_block_size p)"
  let ?f = "patch (w_file w) (unat ?cur) buf"
  have ok: "params_ok E p" "\<not> wp_fixed (w_params w)" "w_params w = p" "capacity < 2 ^ 63"
      "f_max (w_file w) = capacity" "f_len (w_file w) = unat ?cur" "base_ok E p (w_file w)"
      "unat (lay_payload_start p) \<le> unat ?cur" "unat ?cur mod 1048576 = 0"
    using assms(1) by (simp_all add: writer_ok_def)
  have buf: "length buf = ?bs" "unat ?cur + ?bs \<le> capacity" "0 < ?bs" "?bs mod 1048576 = 0"
    using assms(3,4) ok(1) by (simp_all add: params_ok_def)
  have wr: "write_payload_buf w ?cur buf = Inr (w\<lparr>w_file := ?f\<rparr>)"
    using buf ok by (intro write_payload_buf_eq) auto
  let ?e = "BatEntry_new PAYLOAD_BLOCK_FULLY_PRESENT ?cur"
  obtain t where t: "set_payload_entry (w_bat w) b ?e = Inr t"
      "bat_chunk_ratio t = lay_ratio p" "bat_block_count t = lay_count p"
      "length (bat_entries t) = lay_total p"
      "\<forall>k. entry_of t k = (if k = unat b then ?e else entry_of (w_bat w) k)"
    using set_payload_ok [OF assms(1,2)] by blast
  have cur: "unat (?cur + ucast (wp_block_size p)) = unat ?cur + ?bs"
    using buf ok(4) by (simp add: unat_add_u64)
  have len: "f_len ?f = unat ?cur + ?bs" using buf ok(6) by (auto simp: max_def)
  have before: "file_bytes ?f o' n = file_bytes (w_file w) o' n" if "o' + n \<le> unat ?cur" for o' n
    using that ok(6) by (intro file_bytes_patch_other) simp_all
  have "base_ok E p ?f"
    using before ok(8) len by (intro base_ok_frame [OF ok(7,1)]) (simp_all add: lay_bounds(5) [OF ok(1)])
  moreover have "block_holds p (unat ?cur + ?bs) ?f (entry_of t k) ((c(unat b := Some (SrcBuf buf))) k)"
    if "k < unat (lay_count p)" for k
  proof (cases "k = unat b")
    case True
    have "file_bytes ?f (unat ?cur) (length buf) = buf" by (rule file_bytes_patch_same) simp
    then show ?thesis using True t(5) buf ok(8,9) by (auto simp: block_holds_def)
  next
    case False
    have "block_holds p (unat ?cur) (w_file w) (entry_of (w_bat w) k) (c k)"
      using assms(1) that by (simp add: writer_ok_def)
    then show ?thesis
      using False t(5) before by (auto intro: block_holds_frame)
  qed
  moreover have "(unat ?cur + ?bs) mod 1048576 = 0"
    using ok(9) buf(4) by (metis add_0 mod_add_eq mod_0)
  ultimately have "writer_ok E p capacity
      (w\<lparr>w_file := ?f, w_bat := t, w_payload_cursor := ?cur + ucast (wp_block_size p)\<rparr>) (c(unat b := Some (SrcBuf buf)))"
    using assms(1) t ok buf cur len by (simp add: writer_ok_def)
  then show ?thesis using wr t(1) ok(2,3) cur by (simp add: write_block_def)
qed

lemma write_block_ok:
  assumes "writer_ok E p capacity w c" and "unat b < unat (lay_count p)" and "source_ok p s"
    and "s \<noteq> SrcZero \<Longrightarrow> unat (w_payload_cursor w) + unat (wp_block_size p) \<le> capacity"
  shows "\<exists>w'. write_block w b s = Inr w' \<and> writer_ok E p capacity w' (c(unat b := Some s)) \<and>
    w_path w' = w_path w \<and> unat (w_payload_cursor w') = unat (w_payload_cursor w) +
      (if s = SrcZero then 0 else unat (wp_block_size p))"
proof (cases s)
  case SrcZero
  then show ?thesis using write_zero_ok [OF assms(1,2)] by auto
next
  case (SrcBuf buf)
  then show ?thesis using write_buf_ok [OF assms(1,2), of buf] assms(3,4) by (simp add: source_ok_def)
qed

lemma write_blocks_ok:
  assumes "writer_ok E p capacity w c" and "\<forall>(b, s)\<in>set ws. unat b < unat (lay_count p) \<and> source_ok p s"
    and "unat (w_payload_cursor w) + length (filter (\<lambda>(b, s). s \<noteq> SrcZero) ws) * unat (wp_block_size p) \<le> capacity"
  shows "\<exists>w'. write_blocks w ws = Inr w' \<and> w_path w' = w_path w \<and>
    writer_ok E p capacity w' (foldl (\<lambda>c (b, s). c(unat b := Some s)) c ws)"
  using assms
proof (induction ws arbitrary: w c)
  case Nil
  then show ?case by simp
next
  case (Cons x ws)
  obtain b s where x: "x = (b, s)" by fastforce
  have need: "unat (w_payload_cursor w) + unat (wp_block_size p) \<le> capacity" if "s \<noteq> SrcZero"
    using Cons.prems(3) that by (simp add: x)
  have bs: "unat b < unat (lay_count p)" "source_ok p s"
    using Cons.prems(2) by (simp_all add: x)
  obtain w1 where w1: "write_block w b s = Inr w1" "writer_ok E p capacity w1 (c(unat b := Some s))"
      "w_path w1 = w_path w" "unat (w_payload_cursor w1) = unat (w_payload_cursor w) +
        (if s = SrcZero then 0 else unat (wp_block_size p))"
    using write_block_ok [OF Cons.prems(1) bs need] by blast
  have "\<exists>w'. write_blocks w1 ws = Inr w' \<and> w_path w' = w_path w1 \<and>
      writer_ok E p capacity w' (foldl (\<lambda>c (b, s). c(unat b := Some s)) (c(unat b := Some s)) ws)"
    using Cons.prems(2,3) w1(4) by (intro Cons.IH [OF w1(2)]) (auto simp: x split: if_splits)
  then show ?case using w1(1,3) by (simp add: x del: fun_upd_apply)
qed

section \<open>Finishing, and opening what was written\<close>

lemma finish_ok:
  assumes "writer_ok E p capacity w c"
  shows "\<exists>f. writer_finish w = Inr (w_path w, f) \<and> base_ok E p f \<and> f_len f = unat (w_payload_cursor w) \<and>
    file_bytes f (unat (lay_bat_offset p)) (unat (lay_bat_length p)) =
      Bat_encode (w_bat w) @ replicate (unat (lay_bat_length p) - lay_total p * 8) 0 \<and>
    (\<forall>k<unat (lay_count p). block_holds p (unat (w_payload_cursor w)) f (entry_of (w_bat w) k) (c k))"
proof -
  have ok: "params_ok E p" "\<not> wp_fixed (w_params w)" "capacity < 2 ^ 63"
      "f_max (w_file w) = capacity" "f_len (w_file w) = unat (w_payload_cursor w)"
      "unat (w_payload_cursor w) \<le> capacity" "base_ok E p (w_file w)"
      "unat (lay_payload_start p) \<le> unat (w_payload_cursor w)"
      "length (bat_entries (w_bat w)) = lay_total p"
      "w_bat_offset w = lay_bat_offset p" "w_bat_length w = lay_bat_length p"
    using assms by (simp_all add: writer_ok_def)
  note lay = lay_bounds [OF ok(1)]
  define buf where "buf = Bat_encode (w_bat w) @ replicate (unat (lay_bat_length p) - lay_total p * 8) 0"
  have buf: "bat_region_buf (w_bat w) (lay_bat_length p) = Inr buf" "length buf = unat (lay_bat_length p)"
    using bat_region_buf_ok [OF ok(1,9)] lay(8) ok(9) by (simp_all add: buf_def)
  let ?g = "patch (w_file w) (unat (lay_bat_offset p)) buf"
  define f where "f = ?g\<lparr>f_data := (\<lambda>i. if i < min (unat (w_payload_cursor w)) (f_len ?g) then f_data ?g i else 0),
    f_len := unat (w_payload_cursor w)\<rparr>"
  have wr: "write_all_at (w_file w) (lay_bat_offset p) buf = Inr ?g"
    using lay(5) buf(2) ok(3,4,6,8) by (intro write_fits) simp_all
  have trunc: "set_len ?g (w_payload_cursor w) = Inr f"
    using set_len_fits [of "w_payload_cursor w" ?g] ok(3,4,6) by (simp add: f_def)
  have g: "f_len ?g = unat (w_payload_cursor w)" using lay(5) buf(2) ok(5,8) by (auto simp: max_def)
  have same: "file_bytes f o' n = file_bytes ?g o' n" if "o' + n \<le> unat (w_payload_cursor w)" for o' n
    unfolding f_def using that g by (intro file_bytes_truncated) simp
  have other: "file_bytes f o' n = file_bytes (w_file w) o' n"
    if "o' + n \<le> unat (lay_bat_offset p) \<or> unat (lay_payload_start p) \<le> o'"
      "o' + n \<le> unat (w_payload_cursor w)" for o' n
    using that same lay(5) buf(2) ok(5) by (subst file_bytes_patch_other [symmetric]) auto
  have "base_ok E p f"
    using other ok(8) lay(5) by (intro base_ok_frame [OF ok(7,1)]) (auto simp: f_def)
  moreover have "block_holds p (unat (w_payload_cursor w)) f (entry_of (w_bat w) k) (c k)"
    if "k < unat (lay_count p)" for k
  proof (rule block_holds_frame)
    show "block_holds p (unat (w_payload_cursor w)) (w_file w) (entry_of (w_bat w) k) (c k)"
      using assms that by (simp add: writer_ok_def)
  qed (use other in auto)
  moreover have "file_bytes f (unat (lay_bat_offset p)) (unat (lay_bat_length p)) = buf"
    using same [of "unat (lay_bat_offset p)" "unat (lay_bat_length p)"] lay(5) ok(8) buf(2)
    by (simp add: file_bytes_patch_same)
  moreover have "writer_finish w = Inr (w_path w, f)"
    using ok(2,10,11) buf(1) wr trunc by (simp add: writer_finish_def)
  ultimately show ?thesis by (auto simp: buf_def f_def)
qed

lemma writer_regions_layout:
  assumes "params_ok E p"
  defines "rt \<equiv> (writer_regions (lay_metadata_offset p) (lay_bat_offset p) (lay_bat_length p))\<lparr>rt_checksum_ok := True\<rparr>"
  shows "validate_layout rt = Inr ()"
    and "\<exists>e. RegionTable_bat rt = Some e \<and> re_file_offset e = lay_bat_offset p \<and>
      unat (re_length e) = unat (lay_bat_length p)"
    and "\<exists>e. RegionTable_metadata rt = Some e \<and> re_file_offset e = lay_metadata_offset p \<and>
      unat (re_length e) = 1048576"
proof -
  note lay = lay_bounds [OF assms(1)]
  have len: "unat (ucast (lay_bat_length p) :: u32) = unat (lay_bat_length p)"
    using lay(9) by (simp add: unsigned_ucast_eq take_bit_nat_eq_self)
  then have rt32: "(ucast (ucast (lay_bat_length p) :: u32) :: u64) = lay_bat_length p"
    by (simp add: word_unat_eq_iff)
  have mib: "(ucast (ucast MIB :: u32) :: u64) = MIB" "unat (ucast MIB :: u32) = 1048576"
    by (simp_all add: offset_defs)
  have mm: "unat (lay_metadata_offset p + MIB) = unat (lay_bat_offset p)"
    using lay(3,4) by (simp add: unat_add_u64)
  then have m: "lay_metadata_offset p + MIB = lay_bat_offset p" by (simp add: word_unat_eq_iff)
  have le: "(lay_metadata_offset p, lay_bat_offset p) \<le>
      (lay_bat_offset p, lay_bat_offset p + lay_bat_length p)"
    using lay(4) by (simp add: less_eq_prod_def word_less_nat_alt)
  have al: "x mod 1048576 = 0" if "unat x mod 1048576 = 0" for x :: u64
    using that by (simp add: unat_mod flip: unat_eq_zero)
  have "MIB mod 1048576 = 0" by (rule al) simp
  then show "validate_layout rt = Inr ()"
    using le al lay(1,6,11)
    by (simp add: rt_def validate_layout_def writer_regions_def rt32 mib m Let_def)
  show "\<exists>e. RegionTable_bat rt = Some e \<and> re_file_offset e = lay_bat_offset p \<and>
      unat (re_length e) = unat (lay_bat_length p)"
    by (simp add: rt_def writer_regions_def RegionTable_bat_def RegionTable_find_def len
        REGION_GUID_BAT_def REGION_GUID_METADATA_def)
  show "\<exists>e. RegionTable_metadata rt = Some e \<and> re_file_offset e = lay_metadata_offset p \<and>
      unat (re_length e) = 1048576"
    by (simp add: rt_def writer_regions_def RegionTable_metadata_def RegionTable_find_def mib)
qed

definition expected_block :: "writer_params \<Rightarrow> block_source option \<Rightarrow> block_read" where
  "expected_block p src = (case src of
     None \<Rightarrow> Absent
   | Some SrcZero \<Rightarrow> Full (replicate (unat (wp_block_size p)) 0)
   | Some (SrcBuf buf) \<Rightarrow> Full buf)"

lemma entry_empty: "entry_state BatEntry_empty = 0"
  by (simp add: entry_state_def BatEntry_empty_def)

text \<open>A file with the headers and the metadata of the parameters opens wherever its regions are.\<close>

lemma open_image:
  assumes E: "uuid_laws E" and p: "params_ok E p" and big: "327680 \<le> f_len f" "f_len f < 2 ^ 63"
    and start: "file_bytes f 0 8 = FILE_TYPE_SIGNATURE"
      "file_bytes f 65536 65536 = Header_encode E (writer_header p MIB 1)"
      "file_bytes f 131072 65536 = Header_encode E (writer_header p MIB 2)"
    and rt: "RegionTable_encode E rt = Inr tab" "length (rt_entries rt) \<le> 2047"
      "file_bytes f 196608 65536 = tab" "file_bytes f 262144 65536 = tab"
      "validate_layout (rt\<lparr>rt_checksum_ok := True\<rparr>) = Inr ()"
    and be: "RegionTable_bat (rt\<lparr>rt_checksum_ok := True\<rparr>) = Some be"
      "unat (re_file_offset be) + unat (re_length be) \<le> f_len f"
    and me: "RegionTable_metadata (rt\<lparr>rt_checksum_ok := True\<rparr>) = Some me" "unat (re_length me) = 1048576"
      "unat (re_file_offset me) + 1048576 \<le> f_len f"
      "Metadata_encode E (writer_metadata p) MIB = Inr (file_bytes f (unat (re_file_offset me)) 1048576)"
    and t: "bat_chunk_ratio t = lay_ratio p" "bat_block_count t = lay_count p" "length (bat_entries t) = lay_total p"
      "file_bytes f (unat (re_file_offset be)) (unat (re_length be)) = Bat_encode t @ padding"
  shows "\<exists>d. VhdxDisk_open E pth (Some f) ro = Inr (d, f) \<and> vd_metadata d = writer_metadata p \<and>
    vd_bat d = t \<and> data_write_guid (active_header d) = wp_data_write_guid p"
proof -
  have raw: "RegionTable_parse E tab = rt\<lparr>rt_checksum_ok := True\<rparr>"
    using region_table_roundtrip_parse [OF E rt(2)] rt(1) by auto
  have mb: "Metadata_parse E (file_bytes f (unat (re_file_offset me)) 1048576) = Inr (writer_metadata p)"
    using writer_metadata_encode [OF E p] me(4) by auto
  have "verify_file_type f = Inr ()"
    using start(1) big by (simp add: verify_file_type_def read_exact_at_def seek_def offset_defs)
  moreover have "\<exists>hp. HeaderPair_read E f = Inr hp \<and> log_guid (HeaderPair_active hp) = nil_uuid \<and>
      data_write_guid (HeaderPair_active hp) = wp_data_write_guid p"
  proof -
    have s: "slot E f 0 = stamped E (writer_header p MIB 1)" "slot E f (Suc 0) = stamped E (writer_header p MIB 2)"
      using start E by (simp_all add: slot_def header_roundtrip_parse)
    have "has_slots f" using big by (simp add: has_slots_def)
    then show ?thesis
      by (simp add: HeaderPair_read_slots s HeaderPair_active_def)
         (simp add: stamped_def writer_header_def is_valid_def)
  qed
  moreover have "\<exists>rp. RegionTablePair_read E f = Inr rp \<and>
      RegionTablePair_active rp = Inr (rt\<lparr>rt_checksum_ok := True\<rparr>)"
    using big by (simp add: RegionTablePair_read_def read_exact_at_def seek_def rt(3,4) raw Let_def
        RegionTablePair_active_def)
  moreover have "read_exact_at f (re_file_offset me) 1048576 = Inr (file_bytes f (unat (re_file_offset me)) 1048576)"
    using big(2) me(3) by (simp add: res_simps)
  moreover have "read_exact_at f (re_file_offset be) (unat (re_length be)) = Inr (Bat_encode t @ padding)"
    using big be(2) t(4) by (cases "unat (re_length be) = 0") (auto simp: res_simps)
  moreover have "Bat_parse (Bat_encode t @ padding) (lay_count p) (lay_ratio p)
      (fp_has_parent (file_parameters (writer_metadata p))) = Inr t"
    using bat_roundtrip_parse [of t "wp_parent_locator p \<noteq> None" padding] lay_count_ratio(7) [OF p]
      t(1-3) by (simp add: writer_metadata_def)
  ultimately show ?thesis
    using be(1) me(1,2) mb lay_count_ratio(5,6) [OF p] rt(5)
    by (auto simp: VhdxDisk_open_def active_header_def)
qed

lemma open_written:
  assumes "uuid_laws E" and "params_ok E p" and "base_ok E p f" and "f_len f < 2 ^ 63"
    and "bat_chunk_ratio t = lay_ratio p" and "bat_block_count t = lay_count p"
    and "length (bat_entries t) = lay_total p"
    and "file_bytes f (unat (lay_bat_offset p)) (unat (lay_bat_length p)) = Bat_encode t @ padding"
  shows "\<exists>d. VhdxDisk_open E pth (Some f) ro = Inr (d, f) \<and> vd_metadata d = writer_metadata p \<and>
    vd_bat d = t \<and> data_write_guid (active_header d) = wp_data_write_guid p"
proof -
  note lay = lay_bounds [OF assms(2)] and base = assms(3) [unfolded base_ok_def]
  let ?rt = "writer_regions (lay_metadata_offset p) (lay_bat_offset p) (lay_bat_length p)"
  obtain raw where raw: "RegionTable_encode E ?rt = Inr raw" "file_bytes f 196608 65536 = raw" "file_bytes f 262144 65536 = raw"
    using base by blast
  obtain be me where e: "RegionTable_bat (?rt\<lparr>rt_checksum_ok := True\<rparr>) = Some be"
      "re_file_offset be = lay_bat_offset p" "unat (re_length be) = unat (lay_bat_length p)"
      "RegionTable_metadata (?rt\<lparr>rt_checksum_ok := True\<rparr>) = Some me"
      "re_file_offset me = lay_metadata_offset p" "unat (re_length me) = 1048576"
    using writer_regions_layout(2,3) [OF assms(2)] by blast
  have len: "unat (lay_payload_start p) \<le> f_len f" using base by blast
  have "length (rt_entries ?rt) \<le> 2047" by (simp add: writer_regions_def)
  then show ?thesis
    using base len lay(2-5) assms(8)
    by (intro open_image [OF assms(1,2) _ assms(4) _ _ _ raw(1) _ raw(2,3) writer_regions_layout(1) [OF assms(2)]
          e(1) _ e(4,6) _ _ assms(5-7)]) (auto simp: e(2,3,5))
qed

lemma read_written:
  assumes "params_ok E p" and "vd_metadata d = writer_metadata p"
    and "bat_chunk_ratio (vd_bat d) = lay_ratio p" and "length (bat_entries (vd_bat d)) = lay_total p"
    and "unat b < unat (lay_count p)" and "f_len f < 2 ^ 63" and "cursor \<le> f_len f"
    and "block_holds p cursor f (entry_of (vd_bat d) (unat b)) src"
  shows "read_block d f b = Inr (expected_block p src)"
proof -
  have cnt: "disk_block_count d = Inr (lay_count p)"
    using lay_count_ratio(5) [OF assms(1)] by (simp add: disk_block_count_def assms(2))
  have nb: "\<not> lay_count p \<le> b" using assms(5) by (simp add: word_le_nat_alt)
  have bs: "disk_block_size d = wp_block_size p"
    by (simp add: disk_block_size_def block_size_def assms(2) writer_metadata_def)
  have "unat b < 2 ^ 62" using assms(5) lay_count_ratio(1) [OF assms(1)] by simp
  then have "has_payload (vd_bat d) b"
    using lay_total_le(2) [OF assms(1,5)] assms(3,4) lay_count_ratio(4) [OF assms(1)]
    by (simp add: has_payload_def)
  from payload_entry_has(1) [OF this]
  have e: "payload_entry (vd_bat d) b = Inr (Some (entry_of (vd_bat d) (unat b)))"
    by (simp add: entry_of_def)
  show ?thesis
  proof (cases src)
    case None
    then show ?thesis
      using assms(8) by (simp add: read_block_def cnt nb e block_holds_def entry_empty
          PayloadState_from_raw_def block_state_defs expected_block_def)
  next
    case (Some s)
    show ?thesis
    proof (cases s)
      case SrcZero
      then show ?thesis
        using assms(8) Some by (simp add: read_block_def cnt nb e block_holds_def entry_state_new bs
            PayloadState_from_raw_def block_state_defs expected_block_def)
    next
      case (SrcBuf buf)
      then obtain off where off: "entry_of (vd_bat d) (unat b) = BatEntry_new PAYLOAD_BLOCK_FULLY_PRESENT off"
          "unat off mod 1048576 = 0" "unat off + length buf \<le> cursor"
          "file_bytes f (unat off) (length buf) = buf" "length buf = unat (wp_block_size p)"
        using assms(8) Some by (auto simp: block_holds_def)
      have "read_exact_at f off (unat (wp_block_size p)) = Inr buf"
        using off assms(6,7) by (simp add: res_simps)
      then show ?thesis
        using off Some SrcBuf by (simp add: read_block_def cnt nb e entry_state_new entry_file_offset_new bs
            PayloadState_from_raw_def block_state_defs expected_block_def)
    qed
  qed
qed

definition last_sources :: "(u64 \<times> block_source) list \<Rightarrow> nat \<Rightarrow> block_source option" where
  "last_sources ws = foldl (\<lambda>c (b, s). c(unat b := Some s)) (\<lambda>_. None) ws"

lemma session_ok:
  assumes "uuid_laws E" and "params_ok E p" and "\<not> wp_fixed p" and "capacity < 2 ^ 63"
    and "\<forall>(b, s)\<in>set ws. unat b < unat (lay_count p) \<and> source_ok p s"
    and "unat (lay_payload_start p)
      + length (filter (\<lambda>(b, s). s \<noteq> SrcZero) ws) * unat (wp_block_size p) \<le> capacity"
  shows "\<exists>w w' f. VhdxWriter_create E pth capacity p = Inr w \<and> write_blocks w ws = Inr w' \<and>
    writer_finish w' = Inr (pth, f) \<and>
    (\<forall>q ro. \<exists>d. VhdxDisk_open E q (Some f) ro = Inr (d, f) \<and> vd_metadata d = writer_metadata p \<and>
      data_write_guid (active_header d) = wp_data_write_guid p \<and>
      disk_block_count d = Inr (lay_count p) \<and>
      (\<forall>b. unat b < unat (lay_count p) \<longrightarrow>
        read_block d f b = Inr (expected_block p (last_sources ws (unat b)))))"
proof -
  obtain w where w: "VhdxWriter_create E pth capacity p = Inr w" "writer_ok E p capacity w (\<lambda>_. None)"
      "w_path w = pth" "unat (w_payload_cursor w) = unat (lay_payload_start p)"
    using create_writer_ok [OF assms(1,2,3) _ assms(4)] assms(6) by fastforce
  obtain w' where w': "write_blocks w ws = Inr w'" "w_path w' = pth" "writer_ok E p capacity w' (last_sources ws)"
    using write_blocks_ok [OF w(2) assms(5)] assms(6) w(3,4) by (auto simp: last_sources_def)
  obtain f where f: "writer_finish w' = Inr (pth, f)" "base_ok E p f" "f_len f = unat (w_payload_cursor w')"
      "file_bytes f (unat (lay_bat_offset p)) (unat (lay_bat_length p)) =
        Bat_encode (w_bat w') @ replicate (unat (lay_bat_length p) - lay_total p * 8) 0"
      "\<forall>k<unat (lay_count p). block_holds p (unat (w_payload_cursor w')) f (entry_of (w_bat w') k) (last_sources ws k)"
    using finish_ok [OF w'(3)] w'(2) by auto
  have t: "bat_chunk_ratio (w_bat w') = lay_ratio p" "bat_block_count (w_bat w') = lay_count p"
      "length (bat_entries (w_bat w')) = lay_total p" "f_len f < 2 ^ 63"
    using w'(3) f(3) by (simp_all add: writer_ok_def)
  have "\<exists>d. VhdxDisk_open E q (Some f) ro = Inr (d, f) \<and> vd_metadata d = writer_metadata p \<and>
      data_write_guid (active_header d) = wp_data_write_guid p \<and>
      disk_block_count d = Inr (lay_count p) \<and>
      (\<forall>b. unat b < unat (lay_count p) \<longrightarrow>
        read_block d f b = Inr (expected_block p (last_sources ws (unat b))))" for q ro
  proof -
    obtain d where d: "VhdxDisk_open E q (Some f) ro = Inr (d, f)" "vd_metadata d = writer_metadata p"
        "vd_bat d = w_bat w'" "data_write_guid (active_header d) = wp_data_write_guid p"
      using open_written [OF assms(1,2) f(2) t(4,1,2,3) f(4)] by blast
    have "read_block d f b = Inr (expected_block p (last_sources ws (unat b)))"
      if "unat b < unat (lay_count p)" for b
      using read_written [OF assms(2) d(2) _ _ that t(4)] d(3) t f(3,5) that by auto
    moreover have "disk_block_count d = Inr (lay_count p)"
      using lay_count_ratio(5) [OF assms(2)] d(2) by (simp add: disk_block_count_def)
    ultimately show ?thesis using d by blast
  qed
  then show ?thesis using w(1) w'(1) f(1) by blast
qed


text \<open>
  Chunked writes: splitting a payload write into chunks leaves exactly the file that
  one write of the whole buffer leaves, whatever the chunk size, as long as the volume
  has the room.
\<close>

lemma chunked_write_is_one_write:
  assumes "unat off + length buf < 2 ^ 63" and "unat off + length buf \<le> max (f_len (w_file w)) (f_max (w_file w))"
  shows "write_payload_buf (set_chunked_write_size w n) off buf =
    bindR (write_all_at (w_file w) off buf) (\<lambda>f. Inr (set_chunked_write_size w n\<lparr>w_file := f\<rparr>))"
proof -
  have "write_all_at (w_file w) off buf = Inr (patch (w_file w) (unat off) buf)"
    using assms by (auto simp: res_simps)
  then show ?thesis
    using write_payload_buf_eq [of off buf "set_chunked_write_size w n"] assms
    by (simp add: set_chunked_write_size_def)
qed

section \<open>Concrete instances\<close>

definition small_params :: writer_params where
  "small_params = \<lparr>wp_virtual_disk_size = 3145728, wp_block_size = 1048576, wp_logical_sector_size = 512,
     wp_physical_sector_size = 4096, wp_fixed = False, wp_parent_locator = None, wp_log_size = 1048576,
     wp_data_write_guid = 11, wp_file_write_guid = 12, wp_page_83_data = 13\<rparr>"

lemma small_params_ok: "params_ok E small_params"
  by (simp add: params_ok_def small_params_def)

lemma small_lay: "lay_count small_params = 3" "unat (lay_payload_start small_params) = 4194304"
  by (simp_all add: lay_count_def lay_payload_start_def lay_bat_offset_def lay_metadata_offset_def
      lay_bat_length_def lay_total_def lay_ratio_def small_params_def div_ceil_def align_up_def offset_defs
      nat_payload_index_def push_bit_eq_mult Let_def max_def word_le_nat_alt)


theorem chunked_write_is_one_write_witness:
  "\<exists>w w'. VhdxWriter_create ref_externs ''out.vhdx'' 8388608 small_params = Inr w \<and>
    write_payload_buf (set_chunked_write_size w 4096) 4194304 (replicate 10000 1) = Inr w' \<and>
    file_bytes (w_file w') 4194304 10000 = replicate 10000 1"
proof -
  have "\<not> wp_fixed small_params" by (simp add: small_params_def)
  then obtain w where w: "VhdxWriter_create ref_externs ''out.vhdx'' 8388608 small_params = Inr w"
      "writer_ok ref_externs small_params 8388608 w (\<lambda>_. None)"
    using create_writer_ok [OF ref_uuid_laws small_params_ok, of 8388608] by (auto simp: small_lay)
  then have max: "f_max (w_file w) = 8388608" by (simp add: writer_ok_def)
  have "write_all_at (w_file w) 4194304 (replicate 10000 1) =
      Inr (patch (w_file w) 4194304 (replicate 10000 1))"
    using max by (simp add: res_simps le_max_iff_disj)
  then have "write_payload_buf (set_chunked_write_size w 4096) 4194304 (replicate 10000 1) =
      Inr (set_chunked_write_size w 4096\<lparr>w_file := patch (w_file w) 4194304 (replicate 10000 1)\<rparr>)"
    using chunked_write_is_one_write [of 4194304 "replicate 10000 1" w 4096] max by (simp add: le_max_iff_disj)
  with w(1) show ?thesis by (auto simp: file_bytes_patch_same)
qed

end
