(* ===== verification/Vhdx_Sink.thy ===== *)
theory Vhdx_Sink
  imports Vhdx_IO
begin

text \<open>
  The output streams of the forward-only code, \<open>W: Write\<close> in the source: a component takes
  the \<open>write_all\<close> of its stream as an argument.  The locale \<open>byte_sink\<close> is what it relies
  on.  It is interpreted on \<open>Vec<u8>\<close>, which the tests of the source write to, and on a
  file handle with its position, which is what the archive is written through.  The
  parameters of the zstd encoder, which is not part of the source, are here too.
\<close>

type_synonym 's put = "'s \<Rightarrow> bytes \<Rightarrow> 's res"

locale byte_sink =
  fixes put :: "'s put" and contents :: "'s \<Rightarrow> bytes"
  assumes put_contents: "put s bs = Inr s' \<Longrightarrow> contents s' = contents s @ bs"
begin

lemma put_put:
  "bindR (put s bs) (\<lambda>s'. put s' cs) = Inr s'' \<Longrightarrow> contents s'' = contents s @ bs @ cs"
  by (auto simp: res_simps dest!: put_contents)

end

definition vec_put :: "bytes put" where
  "vec_put v bs = Inr (v @ bs)"

interpretation vec_sink: byte_sink vec_put id
  by unfold_locales (simp add: vec_put_def)

text \<open>A file and the position of its handle; \<open>handle_contents\<close> is the file up to the position.\<close>

definition handle_put :: "(dfile \<times> nat) put" where
  "handle_put h bs = (case h of (f, pos) \<Rightarrow>
     if bs = [] \<or> pos + length bs \<le> max (f_len f) (f_max f) then Inr (patch f pos bs, pos + length bs)
     else Inl (Io NoSpace))"

definition handle_contents :: "dfile \<times> nat \<Rightarrow> bytes" where
  "handle_contents h = map (fbyte (fst h)) [0..<snd h]"

interpretation handle_sink: byte_sink handle_put handle_contents
proof
  fix h bs h'
  assume "handle_put h bs = Inr h'"
  then have h': "h' = (patch (fst h) (snd h) bs, snd h + length bs)"
    by (auto simp: handle_put_def split: prod.splits if_splits)
  have "fbyte (patch f p bs) i = (if i < p then fbyte f i else bs ! (i - p))" if "i < p + length bs" for f p i
    using that by (auto simp: fbyte_def f_data_patch)
  then show "handle_contents h' = handle_contents h @ bs"
    unfolding h' handle_contents_def by (intro nth_equalityI) (auto simp: nth_append)
qed

record zstd_params =
  zp_level :: "32 word"
  zp_threads :: u32

definition ZstdParams_new :: "32 word \<Rightarrow> u32 \<Rightarrow> zstd_params" where
  "ZstdParams_new level threads = \<lparr>zp_level = level, zp_threads = threads\<rparr>"

end
