(* ===== verification/Vhdx_Events.thy ===== *)
theory Vhdx_Events
  imports Prelude
begin

text \<open>
  The progress events of \<open>flatten.rs\<close> and \<open>merge.rs\<close>.  The callback \<open>on_event\<close> of an
  operation only observes, so the model returns the list of the events in the order of the
  calls.  A run that fails returns its error alone, without the events before it.
\<close>

section \<open>The events\<close>

datatype flatten_event =
    Started (fe_total_blocks: u64) (fe_block_size: u32) (fe_total_bytes: u64)
  | BlockDone (fe_index: u64) (fe_bytes: u64) (fe_wrote_bytes: bool)
  | Finished
  | ScanStarted u64
  | ScanProgress u64
  | ScanFinished u64 u64

datatype merge_event =
    MergeStarted (me_total_blocks: u64) (me_block_size: u32) (me_total_bytes: u64)
  | MergeBlockDone (me_index: u64) (me_bytes: u64) (me_wrote_bytes: bool)
  | MergeFinished

section \<open>Saturating arithmetic\<close>

definition saturating_add :: "u64 \<Rightarrow> u64 \<Rightarrow> u64" where
  "saturating_add a b = (if a + b < a then - 1 else a + b)"

definition saturating_mul :: "u64 \<Rightarrow> u64 \<Rightarrow> u64" where
  "saturating_mul a b = (if unat a * unat b < 2 ^ 64 then a * b else - 1)"

lemma unat_max_u64: "unat (- 1 :: u64) = 18446744073709551615"
  by (simp add: unsigned_minus_1_eq_mask mask_eq_exp_minus_1)

lemma saturating_add_nat: "unat (saturating_add a b) = min (unat a + unat b) 18446744073709551615"
proof (cases "unat a + unat b < 18446744073709551616")
  case True
  then have "unat (a + b) = unat a + unat b" by (rule unat_add_u64)
  then show ?thesis using True by (simp add: saturating_add_def word_less_nat_alt)
next
  case False
  have "unat (a + b) = (unat a + unat b) mod 18446744073709551616" by (simp add: unat_word_ariths)
  also have "\<dots> = unat a + unat b - 18446744073709551616"
    using False unat_u64_lt [of a] unat_u64_lt [of b] by (simp only: le_mod_geq [of 18446744073709551616 "unat a + unat b"] mod_less not_less)
  finally have "unat (a + b) = unat a + unat b - 18446744073709551616" .
  then have "unat (a + b) < unat a" using False unat_u64_lt [of b] unat_u64_lt [of a] by linarith
  then have "a + b < a" by (simp add: word_less_nat_alt)
  then show ?thesis using False by (simp add: saturating_add_def unat_max_u64)
qed

lemma saturating_mul_nat: "unat (saturating_mul a b) = min (unat a * unat b) 18446744073709551615"
  by (simp add: saturating_mul_def unat_word_ariths unat_max_u64)

section \<open>The events of the blocks\<close>

text \<open>One event per block, from block \<open>blk\<close> on, with whether bytes were written.\<close>

fun block_events :: "(u64 \<Rightarrow> u64 \<Rightarrow> bool \<Rightarrow> 'e) \<Rightarrow> u64 \<Rightarrow> u64 \<Rightarrow> bool list \<Rightarrow> 'e list" where
  "block_events mk bs blk [] = []"
| "block_events mk bs blk (wrote # flags) = mk blk bs wrote # block_events mk bs (blk + 1) flags"

lemma length_block_events [simp]: "length (block_events mk bs blk flags) = length flags"
  by (induction flags arbitrary: blk) simp_all

lemma filter_not_id: "length (filter id flags) + length (filter Not flags) = length flags"
  by (induction flags) auto

lemma wrote_counts:
  assumes "length wrote = unat (n :: u64)"
  shows "word_of_nat (length (filter id wrote)) + word_of_nat (length (filter Not wrote)) = n"
proof -
  have "(word_of_nat (length (filter id wrote) + length (filter Not wrote)) :: u64) = n"
    unfolding filter_not_id assms by simp
  then show ?thesis by simp
qed

text \<open>The events of the pass that writes the \<open>n\<close> blocks of size \<open>bs\<close>.\<close>

definition write_events :: "u64 \<Rightarrow> u32 \<Rightarrow> bool list \<Rightarrow> flatten_event list" where
  "write_events n bs wrote =
    Started n bs (saturating_mul n (ucast bs)) # block_events BlockDone (ucast bs) 0 wrote @ [Finished]"

definition merge_events :: "u64 \<Rightarrow> u32 \<Rightarrow> bool list \<Rightarrow> merge_event list" where
  "merge_events n bs wrote =
    MergeStarted n bs (saturating_mul n (ucast bs)) # block_events MergeBlockDone (ucast bs) 0 wrote @ [MergeFinished]"

end
