(* ===== verification/Vhdx_Flatten_Output.thy ===== *)
theory Vhdx_Flatten_Output
  imports Vhdx_Flatten Vhdx_Writer Vhdx_Sink Vhdx_Events
begin

text \<open>
  \<open>flatten.rs\<close>, the body of \<open>flatten_with_progress\<close> from the opened links on: the checks
  that the links agree, the output file, and the loop over the blocks, with the progress
  events in the order they are sent.  \<open>set_ntfs_compression\<close> is the argument \<open>ntfs\<close>, and the
  identifiers \<open>Uuid::new_v4\<close> draws are arguments too.
\<close>

section \<open>The driver\<close>

datatype flatten_subformat = Dynamic | Fixed

record flatten_options =
  fo_subformat :: flatten_subformat
  fo_skip_fsck :: bool
  fo_elide_zero_blocks :: bool
  fo_compress_ntfs :: bool
  fo_compress_zstd :: "zstd_params option"

definition FlattenOptions_default :: flatten_options where
  "FlattenOptions_default = \<lparr>fo_subformat = Dynamic, fo_skip_fsck = False, fo_elide_zero_blocks = True,
     fo_compress_ntfs = False, fo_compress_zstd = None\<rparr>"

record flatten_report =
  fr_leaf :: path
  fr_output :: path
  fr_blocks_total :: u64
  fr_blocks_written :: u64
  fr_blocks_zero :: u64
  fr_compressed_output :: "path option"
  fr_bytes_uncompressed :: u64
  fr_bytes_compressed :: u64

fun check_links :: "u64 \<Rightarrow> u32 \<Rightarrow> (vhdx_disk \<times> dfile) list \<Rightarrow> unit res" where
  "check_links vds ls [] = Inr ()"
| "check_links vds ls (l # links) =
    (if disk_virtual_size (fst l) \<noteq> vds
     then Inl (InvalidStructure ''virtual disk size mismatch in chain'')
     else if logical_sector_size (vd_metadata (fst l)) \<noteq> ls
     then Inl (InvalidStructure ''logical sector size mismatch in chain'')
     else check_links vds ls links)"

definition flatten_params :: "uuid \<Rightarrow> uuid \<Rightarrow> flatten_options \<Rightarrow> vhdx_disk \<Rightarrow> writer_params" where
  "flatten_params g1 g2 opts leaf =
    \<lparr>wp_virtual_disk_size = disk_virtual_size leaf, wp_block_size = disk_block_size leaf,
     wp_logical_sector_size = logical_sector_size (vd_metadata leaf),
     wp_physical_sector_size = physical_sector_size (vd_metadata leaf),
     wp_fixed = (fo_subformat opts = Fixed), wp_parent_locator = None, wp_log_size = 1024 * 1024,
     wp_data_write_guid = g1, wp_file_write_guid = g2, wp_page_83_data = page_83_data (vd_metadata leaf)\<rparr>"

text \<open>
  \<open>own\<close> tells the paths that name the output file: a link opened through such a path reads
  what the writer has written so far.
\<close>

definition seen :: "(path \<Rightarrow> bool) \<Rightarrow> dfile \<Rightarrow> vhdx_disk \<times> dfile \<Rightarrow> vhdx_disk \<times> dfile" where
  "seen own out l = (if own (vd_path (fst l)) then (fst l, out) else l)"

text \<open>The loop over the blocks \<open>blk\<close>, \<dots>, \<open>blk + n - 1\<close>, with the two counters of the report and the events.\<close>

fun flatten_blocks ::
    "flatten_options \<Rightarrow> (path \<Rightarrow> bool) \<Rightarrow> (vhdx_disk \<times> dfile) list \<Rightarrow> u64 \<Rightarrow> u64 \<Rightarrow> nat \<Rightarrow> u64 \<Rightarrow> nat
      \<Rightarrow> vhdx_writer \<times> u64 \<times> u64 \<times> flatten_event list
      \<Rightarrow> (vhdx_writer \<times> u64 \<times> u64 \<times> flatten_event list) res" where
  "flatten_blocks opts own links leaf_bs ss spb blk 0 st = Inr st"
| "flatten_blocks opts own links leaf_bs ss spb blk (Suc n) (w, written, zero, evs) =
    bindR (merge_block (map (seen own (w_file w)) links) blk leaf_bs ss spb) (\<lambda>composite.
    let elide = fo_elide_zero_blocks opts \<and> fo_subformat opts \<noteq> Fixed \<and> is_all_zero composite in
    bindR (write_block w blk (if elide then SrcZero else SrcBuf composite)) (\<lambda>w.
    bindR (if \<not> elide \<and> fo_compress_ntfs opts then reopen w (Some (w_file w)) else Inr w) (\<lambda>w.
    flatten_blocks opts own links leaf_bs ss spb (blk + 1) n
      (w, if elide then written else written + 1, if elide then zero + 1 else zero,
       evs @ [BlockDone blk leaf_bs (\<not> elide)]))))"

definition flatten_links ::
    "externs \<Rightarrow> (path \<Rightarrow> unit res) \<Rightarrow> uuid \<Rightarrow> uuid \<Rightarrow> nat \<Rightarrow> path \<Rightarrow> path \<Rightarrow> flatten_options \<Rightarrow> (path \<Rightarrow> bool)
      \<Rightarrow> (vhdx_disk \<times> dfile) list \<Rightarrow> (flatten_report \<times> path \<times> dfile \<times> flatten_event list) res" where
  "flatten_links E ntfs g1 g2 capacity leaf_path output_path opts own links =
    (case links of
       [] \<Rightarrow> Inl (Panic ''index out of bounds'')
     | (leaf, leaf_file) # parents \<Rightarrow>
         bindR (disk_block_count leaf) (\<lambda>bcount.
         bindR (check_links (disk_virtual_size leaf) (logical_sector_size (vd_metadata leaf)) parents) (\<lambda>_.
         let params = flatten_params g1 g2 opts leaf in
         bindR (if fo_compress_ntfs opts then ntfs output_path else Inr ()) (\<lambda>_.
         bindR (VhdxWriter_create E output_path capacity params) (\<lambda>w.
         let w = (if fo_compress_ntfs opts then set_chunked_write_size w (push_bit 20 1) else w);
             leaf_bs = ucast (disk_block_size leaf) :: u64;
             sector_size = ucast (logical_sector_size (vd_metadata leaf)) :: u64 in
         if sector_size = 0 then Inl (Panic ''attempt to divide by zero'')
         else
           bindR (flatten_blocks opts own links leaf_bs sector_size (unat (leaf_bs div sector_size)) 0
             (unat bcount) (w, 0, 0, [Started bcount (disk_block_size leaf) (saturating_mul bcount leaf_bs)]))
             (\<lambda>(w, written, zero, evs).
           bindR (writer_finish w) (\<lambda>(out, f).
           Inr (\<lparr>fr_leaf = leaf_path, fr_output = output_path, fr_blocks_total = bcount,
             fr_blocks_written = written, fr_blocks_zero = zero,
             fr_compressed_output = None, fr_bytes_uncompressed = 0, fr_bytes_compressed = 0\<rparr>, out, f, evs @ [Finished]))))))))"

section \<open>The loop\<close>

lemma reopen_same [simp]: "reopen w (Some (w_file w)) = Inr w"
  by (simp add: reopen_def)

lemma writer_ok_chunked:
  "writer_ok E p capacity w c \<Longrightarrow> writer_ok E p capacity (set_chunked_write_size w n) c"
  by (simp add: writer_ok_def set_chunked_write_size_def)

definition flat_source :: "flatten_options \<Rightarrow> bytes \<Rightarrow> block_source" where
  "flat_source opts buf =
    (if fo_elide_zero_blocks opts \<and> fo_subformat opts \<noteq> Fixed \<and> is_all_zero buf then SrcZero else SrcBuf buf)"

lemma seen_none: "\<forall>l\<in>set links. \<not> own (vd_path (fst l)) \<Longrightarrow> map (seen own f) links = links"
  by (induction links) (simp_all add: seen_def)

lemma flatten_blocks_ok:
  assumes "writer_ok E p capacity w c" and "unat blk + n \<le> unat (lay_count p)"
    and "unat (w_payload_cursor w) + n * unat (wp_block_size p) \<le> capacity"
    and "\<And>b. unat b < unat (lay_count p) \<Longrightarrow>
      \<exists>buf. merge_block links b leaf_bs ss spb = Inr buf \<and> length buf = unat (wp_block_size p) \<and> Q (unat b) buf"
    and own: "\<forall>l\<in>set links. \<not> own (vd_path (fst l))"
  shows "\<exists>w' k z flags. flatten_blocks opts own links leaf_bs ss spb blk n (w, written, zero, evs) =
      Inr (w', written + k, zero + z, evs @ block_events BlockDone leaf_bs blk flags) \<and>
    length flags = n \<and> k = word_of_nat (length (filter id flags)) \<and> z = word_of_nat (length (filter Not flags)) \<and>
    w_path w' = w_path w \<and>
    (\<exists>c'. writer_ok E p capacity w' c' \<and>
      (\<forall>j. if unat blk \<le> j \<and> j < unat blk + n then \<exists>buf. c' j = Some (flat_source opts buf) \<and>
          length buf = unat (wp_block_size p) \<and> Q j buf
        else c' j = c j))"
  using assms(1-3)
proof (induction n arbitrary: blk w c written zero evs)
  case 0
  then show ?case by (auto intro!: exI [of _ c])
next
  case (Suc n)
  have blk: "unat blk < unat (lay_count p)" using Suc.prems(2) by simp
  obtain buf where buf: "merge_block links blk leaf_bs ss spb = Inr buf" "length buf = unat (wp_block_size p)"
      "Q (unat blk) buf"
    using assms(4) [OF blk] by blast
  define s where "s = flat_source opts buf"
  have s: "source_ok p s" by (simp add: s_def flat_source_def source_ok_def buf(2))
  obtain w1 where w1: "write_block w blk s = Inr w1" "writer_ok E p capacity w1 (c(unat blk := Some s))"
      "w_path w1 = w_path w"
      "unat (w_payload_cursor w1) = unat (w_payload_cursor w) + (if s = SrcZero then 0 else unat (wp_block_size p))"
    using write_block_ok [OF Suc.prems(1) blk s] Suc.prems(3) by auto
  have "unat blk + 1 < 18446744073709551616" using blk unat_u64_lt [of "lay_count p"] by linarith
  then have blk1: "unat (blk + 1) = unat blk + 1" by (simp add: unat_add_u64)
  define elide where "elide = (s = SrcZero)"
  let ?written = "if elide then written else written + 1" and ?zero = "if elide then zero + 1 else zero"
  let ?evs = "evs @ [BlockDone blk leaf_bs (\<not> elide)]"
  have step: "flatten_blocks opts own links leaf_bs ss spb blk (Suc n) (w, written, zero, evs) =
      flatten_blocks opts own links leaf_bs ss spb (blk + 1) n (w1, ?written, ?zero, ?evs)"
    using w1(1) buf(1) by (auto simp: Let_def seen_none [OF own] s_def elide_def flat_source_def split: if_splits)
  have room: "unat (w_payload_cursor w1) + n * unat (wp_block_size p) \<le> capacity"
    using Suc.prems(3) w1(4) by (auto split: if_splits)
  have "unat (blk + 1) + n \<le> unat (lay_count p)" using Suc.prems(2) blk1 by simp
  from Suc.IH [OF w1(2) this room, of ?written ?zero ?evs]
  obtain w' k z flags c' where r: "flatten_blocks opts own links leaf_bs ss spb (blk + 1) n (w1, ?written, ?zero, ?evs) =
        Inr (w', ?written + k, ?zero + z, ?evs @ block_events BlockDone leaf_bs (blk + 1) flags)"
      "length flags = n \<and> k = word_of_nat (length (filter id flags)) \<and> z = word_of_nat (length (filter Not flags))"
      "w_path w' = w_path w1"
      "writer_ok E p capacity w' c'"
      "\<And>j. if unat (blk + 1) \<le> j \<and> j < unat (blk + 1) + n then \<exists>buf. c' j = Some (flat_source opts buf) \<and>
          length buf = unat (wp_block_size p) \<and> Q j buf
        else c' j = (c(unat blk := Some s)) j"
    by blast
  have "if unat blk \<le> j \<and> j < unat blk + Suc n then \<exists>buf. c' j = Some (flat_source opts buf) \<and>
          length buf = unat (wp_block_size p) \<and> Q j buf
        else c' j = c j" for j
    using r(5) [of j] buf(2,3) by (cases "j = unat blk") (auto simp: blk1 s_def split: if_splits)
  moreover have "?written + k = written + word_of_nat (length (filter id ((\<not> elide) # flags)))"
      "?zero + z = zero + word_of_nat (length (filter Not ((\<not> elide) # flags)))"
      "?evs @ block_events BlockDone leaf_bs (blk + 1) flags = evs @ block_events BlockDone leaf_bs blk ((\<not> elide) # flags)"
    using r(2) by auto
  moreover have "length ((\<not> elide) # flags) = Suc n" using r(2) by simp
  ultimately show ?case
    unfolding step using r(1,3,4) w1(3) by metis
qed

section \<open>The output\<close>

definition link_agrees :: "vhdx_disk \<Rightarrow> vhdx_disk \<times> dfile \<Rightarrow> bool" where
  "link_agrees leaf l \<longleftrightarrow> disk_ok l \<and> disk_virtual_size (fst l) = disk_virtual_size leaf \<and>
     logical_sector_size (vd_metadata (fst l)) = logical_sector_size (vd_metadata leaf) \<and>
     unat (logical_sector_size (vd_metadata leaf)) dvd link_size l \<and>
     (\<forall>b. unat b < link_count l \<longrightarrow> (\<exists>r. link_read l b = Inr r))"

lemma check_links_ok:
  "\<forall>l\<in>set links. link_agrees leaf l \<Longrightarrow>
    check_links (disk_virtual_size leaf) (logical_sector_size (vd_metadata leaf)) links = Inr ()"
  by (induction links) (auto simp: link_agrees_def)

text \<open>What the flattened file holds, block by block.\<close>

definition holds_chain :: "(vhdx_disk \<times> dfile) list \<Rightarrow> nat \<Rightarrow> nat \<Rightarrow> nat \<Rightarrow> bytes \<Rightarrow> bool" where
  "holds_chain links sz bs b buf \<longleftrightarrow> length buf = bs \<and>
     (\<forall>s<bs div sz. bslice buf (s * sz) (s * sz + sz) = chain_sector links sz (b * bs + s * sz))"

lemma flat_source_block:
  assumes "length buf = unat (wp_block_size p)"
  shows "expected_block p (Some (flat_source opts buf)) = Full buf"
proof -
  have "buf = replicate (length buf) 0" if "is_all_zero buf"
    using that by (auto simp: is_all_zero_def list_all_iff intro: replicate_eqI)
  then show ?thesis
    using assms by (auto simp: expected_block_def flat_source_def)
qed

lemma chain_blocks_read:
  fixes leaf :: vhdx_disk
  defines "bs \<equiv> unat (disk_block_size leaf)" and "sz \<equiv> unat (logical_sector_size (vd_metadata leaf))"
  assumes agrees: "\<forall>l\<in>set links. link_agrees leaf l" "(leaf, leaf_file) \<in> set links"
    and pos: "0 < sz" "0 < bs" "bs \<le> 268435456" and b26: "unat b < 67108864"
  shows "\<exists>buf. merge_block links b (ucast (disk_block_size leaf)) (ucast (logical_sector_size (vd_metadata leaf)))
      (bs div sz) = Inr buf \<and> length buf = bs \<and> holds_chain links sz bs (unat b) buf"
proof -
  let ?ss = "ucast (logical_sector_size (vd_metadata leaf)) :: u64" and ?lbs = "ucast (disk_block_size leaf) :: u64"
  let ?n = "bs div sz"
  have u: "unat ?ss = sz" "unat ?lbs = bs" by (simp_all add: sz_def bs_def)
  have ss: "?ss \<noteq> 0" using pos(1) u(1) by (metis less_irrefl unat_0)
  have dv: "sz dvd bs" using agrees by (auto simp: link_agrees_def link_size_def sz_def bs_def)
  then have n: "0 < ?n" "unat ?lbs = ?n * unat ?ss"
    using dvd_imp_le [OF dv pos(2)] pos(1) dv unfolding u by (simp_all add: div_greater_zero_iff)
  have "unat b * bs \<le> 67108864 * 268435456" using b26 pos(3) by (intro mult_le_mono) simp_all
  then have small: "unat b * bs \<le> 18014398509481984" by simp
  have "(unat b * ?n + ?n) * sz = unat b * bs + bs"
    using dv by (simp add: add_mult_distrib mult.assoc)
  moreover have "unat b * bs + bs + link_size l < 18446744073709551616" for l
    using small pos(3) unat_u32_lt [of "disk_block_size (fst l)"] unfolding link_size_def by linarith
  ultimately have "link_fits (unat ?ss) (unat b * ?n) ?n l" if "l \<in> set links" for l
    using agrees(1) that by (simp add: link_fits_def link_agrees_def u sz_def [symmetric])
  then have fits: "\<forall>l\<in>set links. link_fits (unat ?ss) (unat b * ?n) ?n l" by blast
  have room: "unat b * unat ?lbs < 2 ^ 64" using small u by simp
  have reads: "\<forall>l\<in>set links. \<forall>b. unat b < link_count l \<longrightarrow> (\<exists>r. link_read l b = Inr r)"
    using agrees(1) by (auto simp: link_agrees_def)
  show ?thesis
    using merge_block_reads [OF fits n(2,1) ss room reads] unfolding holds_chain_def u by blast
qed

text \<open>A session that wrote every block, once finished, delivers the blocks.\<close>

lemma finish_delivers:
  assumes "uuid_laws E" and p: "params_ok E p" and w: "writer_ok E p capacity w c"
    and c: "\<And>j. j < unat (lay_count p) \<Longrightarrow>
      \<exists>buf. c j = Some (flat_source opts buf) \<and> length buf = unat (wp_block_size p) \<and> P j buf"
  shows "\<exists>f. writer_finish w = Inr (w_path w, f) \<and>
    (\<forall>q ro. \<exists>d. VhdxDisk_open E q (Some f) ro = Inr (d, f) \<and> vd_metadata d = writer_metadata p \<and>
      (\<forall>b. unat b < unat (lay_count p) \<longrightarrow> (\<exists>buf. read_block d f b = Inr (Full buf) \<and> P (unat b) buf)))"
proof -
  obtain f where f: "writer_finish w = Inr (w_path w, f)" "base_ok E p f" "f_len f = unat (w_payload_cursor w)"
      "file_bytes f (unat (lay_bat_offset p)) (unat (lay_bat_length p)) =
        Bat_encode (w_bat w) @ replicate (unat (lay_bat_length p) - lay_total p * 8) 0"
      "\<forall>k<unat (lay_count p). block_holds p (unat (w_payload_cursor w)) f (entry_of (w_bat w) k) (c k)"
    using finish_ok [OF w] by auto
  have t: "bat_chunk_ratio (w_bat w) = lay_ratio p" "bat_block_count (w_bat w) = lay_count p"
      "length (bat_entries (w_bat w)) = lay_total p" "f_len f < 2 ^ 63"
    using w f(3) by (simp_all add: writer_ok_def)
  have "\<exists>d. VhdxDisk_open E q (Some f) ro = Inr (d, f) \<and> vd_metadata d = writer_metadata p \<and>
      (\<forall>b. unat b < unat (lay_count p) \<longrightarrow> (\<exists>buf. read_block d f b = Inr (Full buf) \<and> P (unat b) buf))" for q ro
  proof -
    obtain d where d: "VhdxDisk_open E q (Some f) ro = Inr (d, f)" "vd_metadata d = writer_metadata p"
        "vd_bat d = w_bat w"
      using open_written [OF assms(1,2) f(2) t(4,1,2,3) f(4)] by blast
    have "\<exists>buf. read_block d f b = Inr (Full buf) \<and> P (unat b) buf" if b: "unat b < unat (lay_count p)" for b
    proof -
      obtain buf where buf: "c (unat b) = Some (flat_source opts buf)" "length buf = unat (wp_block_size p)" "P (unat b) buf"
        using c [OF b] by blast
      have "read_block d f b = Inr (expected_block p (c (unat b)))"
        using read_written [OF p d(2) _ _ b t(4)] d(3) t f(3,5) b by auto
      then show ?thesis using buf flat_source_block [OF buf(2)] by simp
    qed
    with d(1,2) show ?thesis by blast
  qed
  with f(1) show ?thesis by blast
qed

lemma flatten_links_ok:
  fixes leaf :: vhdx_disk and opts :: flatten_options and g1 g2 :: uuid
  defines "p \<equiv> flatten_params g1 g2 opts leaf"
  assumes "uuid_laws E" and "links = (leaf, leaf_file) # parents" and "params_ok E p"
    and "fo_subformat opts = Dynamic" and "\<forall>l\<in>set links. link_agrees leaf l"
    and "fo_compress_ntfs opts \<longrightarrow> ntfs out = Inr ()" and "capacity < 2 ^ 63"
    and "unat (lay_payload_start p) + unat (lay_count p) * unat (disk_block_size leaf) \<le> capacity"
    and own: "\<forall>l\<in>set links. \<not> own (vd_path (fst l))"
  shows "\<exists>rep f wrote. flatten_links E ntfs g1 g2 capacity lp out opts own links =
      Inr (rep, out, f, write_events (lay_count p) (disk_block_size leaf) wrote) \<and>
    length wrote = unat (lay_count p) \<and> fr_blocks_total rep = lay_count p \<and>
    fr_blocks_written rep = word_of_nat (length (filter id wrote)) \<and>
    fr_blocks_zero rep = word_of_nat (length (filter Not wrote)) \<and>
    (\<forall>q ro. \<exists>d. VhdxDisk_open E q (Some f) ro = Inr (d, f) \<and> vd_metadata d = writer_metadata p \<and>
      (\<forall>b. unat b < unat (lay_count p) \<longrightarrow> (\<exists>buf. read_block d f b = Inr (Full buf) \<and>
        holds_chain links (unat (logical_sector_size (vd_metadata leaf))) (unat (disk_block_size leaf)) (unat b) buf)))"
proof -
  let ?bs = "unat (disk_block_size leaf)" and ?sz = "unat (logical_sector_size (vd_metadata leaf))"
  let ?ss = "ucast (logical_sector_size (vd_metadata leaf)) :: u64"
  let ?lbs = "ucast (disk_block_size leaf) :: u64"
  let ?n = "?bs div ?sz"
  have pf: "wp_block_size p = disk_block_size leaf" "wp_virtual_disk_size p = disk_virtual_size leaf"
      "\<not> wp_fixed p" "wp_logical_sector_size p = logical_sector_size (vd_metadata leaf)"
    using assms(5) by (simp_all add: p_def flatten_params_def)
  have sz: "0 < ?sz" "0 < ?bs" "?bs \<le> 268435456"
    using assms(4) by (simp_all add: params_ok_def pf)
  have ss: "?ss \<noteq> 0" using sz(1) by (simp flip: unat_gt_0 [of ?ss])
  have "disk_block_size leaf \<noteq> 0" using sz(2) by (simp add: unat_gt_0)
  then have cnt: "disk_block_count leaf = Inr (lay_count p)"
    by (simp add: disk_block_count_def block_count_def lay_count_def pf disk_block_size_def disk_virtual_size_def)
  have leaf: "link_agrees leaf (leaf, leaf_file)" using assms(3,6) by simp
  then have dv: "?sz dvd ?bs" by (simp add: link_agrees_def link_size_def)
  then have bs: "unat ?lbs = ?n * unat ?ss" by simp
  obtain w where w: "VhdxWriter_create E out capacity p = Inr w" "writer_ok E p capacity w (\<lambda>_. None)"
      "w_path w = out" "unat (w_payload_cursor w) = unat (lay_payload_start p)"
    using create_writer_ok [OF assms(2,4) pf(3) _ assms(8)] assms(9) by fastforce
  define w0 where "w0 = (if fo_compress_ntfs opts then set_chunked_write_size w (push_bit 20 1) else w)"
  have w0: "writer_ok E p capacity w0 (\<lambda>_. None)" "w_path w0 = out"
      "unat (w_payload_cursor w0) = unat (lay_payload_start p)"
    using w writer_ok_chunked [OF w(2)] by (simp_all add: w0_def set_chunked_write_size_def)
  have merge: "\<exists>buf. merge_block links b ?lbs ?ss ?n = Inr buf \<and> length buf = unat (wp_block_size p) \<and>
      holds_chain links ?sz ?bs (unat b) buf" if b: "unat b < unat (lay_count p)" for b
    using chain_blocks_read [OF assms(6), of leaf_file b] assms(3) sz b lay_count_ratio(1) [OF assms(4)] by (simp add: pf)
  have room: "unat (w_payload_cursor w0) + unat (lay_count p) * unat (wp_block_size p) \<le> capacity"
    using assms(9) w0(3) by (simp add: pf)
  let ?started = "Started (lay_count p) (disk_block_size leaf) (saturating_mul (lay_count p) ?lbs)"
  obtain w' k z wrote c' where run: "flatten_blocks opts own links ?lbs ?ss ?n 0 (unat (lay_count p)) (w0, 0, 0, [?started]) =
        Inr (w', 0 + k, 0 + z, [?started] @ block_events BlockDone ?lbs 0 wrote)"
      "length wrote = unat (lay_count p) \<and> k = word_of_nat (length (filter id wrote)) \<and>
        z = word_of_nat (length (filter Not wrote))"
      "w_path w' = w_path w0" "writer_ok E p capacity w' c'"
      "\<And>j. if unat (0 :: u64) \<le> j \<and> j < unat (0 :: u64) + unat (lay_count p)
        then \<exists>buf. c' j = Some (flat_source opts buf) \<and>
          length buf = unat (wp_block_size p) \<and> holds_chain links ?sz ?bs j buf
        else c' j = None"
    using flatten_blocks_ok [OF w0(1) _ room merge own, of 0 opts 0 0 "[?started]"] by auto
  have "\<exists>buf. c' j = Some (flat_source opts buf) \<and> length buf = unat (wp_block_size p) \<and> holds_chain links ?sz ?bs j buf"
    if "j < unat (lay_count p)" for j
    using run(5) [of j] that by simp
  from finish_delivers [OF assms(2,4) run(4) this] obtain f where f: "writer_finish w' = Inr (out, f)"
      "\<forall>q ro. \<exists>d. VhdxDisk_open E q (Some f) ro = Inr (d, f) \<and> vd_metadata d = writer_metadata p \<and>
        (\<forall>b. unat b < unat (lay_count p) \<longrightarrow> (\<exists>buf. read_block d f b = Inr (Full buf) \<and> holds_chain links ?sz ?bs (unat b) buf))"
    using run(3) w0(2) by auto
  have "flatten_links E ntfs g1 g2 capacity lp out opts own links =
      Inr (\<lparr>fr_leaf = lp, fr_output = out, fr_blocks_total = lay_count p, fr_blocks_written = k,
        fr_blocks_zero = z,
        fr_compressed_output = None, fr_bytes_uncompressed = 0, fr_bytes_compressed = 0\<rparr>, out, f,
        write_events (lay_count p) (disk_block_size leaf) wrote)"
    using cnt check_links_ok [of parents leaf] assms(3,6,7) w(1) ss run(1) f(1)
    by (simp add: flatten_links_def Let_def p_def [symmetric] w0_def [symmetric] unat_div write_events_def)
  then show ?thesis using run(2) f(2) by auto
qed

text \<open>
  Flattening preserves the disk: flattening a chain of links that agree on disk and
  sector size and can be read, to a path that is none of theirs, onto a volume with enough
  room, succeeds; the report
  counts every block once; the output opens as a standalone disk of the leaf's geometry
  without a parent, and every sector of every block it delivers is the one of the first
  link, from the leaf upwards, that holds it, zeros where none does, with or without the
  elision of zero blocks and the NTFS mode.
\<close>

lemma flatten_output_is_chain:
  fixes leaf :: vhdx_disk and opts :: flatten_options and g1 g2 :: uuid
  defines "p \<equiv> flatten_params g1 g2 opts leaf"
  assumes "uuid_laws E" and "links = (leaf, leaf_file) # parents" and "params_ok E p"
    and "fo_subformat opts = Dynamic" and "\<forall>l\<in>set links. link_agrees leaf l"
    and "fo_compress_ntfs opts \<Longrightarrow> ntfs out = Inr ()" and "capacity < 2 ^ 63"
    and "unat (lay_payload_start p) + unat (lay_count p) * unat (disk_block_size leaf) \<le> capacity"
    and own: "\<forall>l\<in>set links. \<not> own (vd_path (fst l))"
  shows "\<exists>rep f evs. flatten_links E ntfs g1 g2 capacity lp out opts own links = Inr (rep, out, f, evs) \<and>
    fr_blocks_total rep = lay_count p \<and> fr_blocks_written rep + fr_blocks_zero rep = lay_count p \<and>
    (\<forall>q ro. \<exists>d. VhdxDisk_open E q (Some f) ro = Inr (d, f) \<and> vd_metadata d = writer_metadata p \<and>
      (\<forall>b. unat b < unat (lay_count p) \<longrightarrow> (\<exists>buf. read_block d f b = Inr (Full buf) \<and>
        holds_chain links (unat (logical_sector_size (vd_metadata leaf))) (unat (disk_block_size leaf)) (unat b) buf)))"
proof -
  have ntfs: "fo_compress_ntfs opts \<longrightarrow> ntfs out = Inr ()" using assms(7) by blast
  show ?thesis
    using flatten_links_ok [where lp = lp and ntfs = ntfs and out = out and own = own,
        OF assms(2-6) [unfolded p_def] ntfs assms(8) assms(9) [unfolded p_def] assms(10)] wrote_counts
    unfolding p_def by metis
qed

theorem flatten_output_is_chain_witness:
  "\<exists>links rep f evs d buf. length links = 2 \<and>
    flatten_links ref_externs (\<lambda>_. Inr ()) 1 2 8388608 ''leaf.avhdx'' ''flat.vhdx''
      (FlattenOptions_default\<lparr>fo_skip_fsck := True\<rparr>) (\<lambda>_. False)
      links = Inr (rep, ''flat.vhdx'', f, evs) \<and>
    VhdxDisk_open ref_externs ''flat.vhdx'' (Some f) False = Inr (d, f) \<and>
    read_block d f 0 = Inr (Full buf) \<and> holds_chain links 512 1048576 0 buf \<and>
    chain_sector links 512 512 = replicate 512 7"
proof -
  obtain f1 d1 f2 d2 where
      md: "vd_metadata d1 = small_metadata False" "vd_metadata d2 = small_metadata False"
      "disk_block_size d1 = 1048576"
    and reads: "link_read (d1, f1) 0 = Inr Absent" "link_read (d1, f1) 1 = Inr Absent"
      "link_read (d2, f2) 0 = Inr (Full chain_payload)" "link_read (d2, f2) 1 = Inr (Full (replicate 1048576 0))"
    and geo: "\<forall>l\<in>{(d1, f1), (d2, f2)}. disk_ok l \<and> link_size l = 1048576 \<and> link_count l = 2"
    using small_chain by auto
  let ?links = "[(d1, f1), (d2, f2)]"
  let ?opts = "(FlattenOptions_default\<lparr>fo_skip_fsck := True\<rparr>)"
  let ?p = "flatten_params 1 2 ?opts d1"
  have ls: "logical_sector_size (vd_metadata d1) = 512" by (simp add: md small_metadata_def)
  have p: "?p = small_params\<lparr>wp_virtual_disk_size := 2097152, wp_data_write_guid := 1,
      wp_file_write_guid := 2, wp_page_83_data := 77\<rparr>"
    by (simp add: flatten_params_def small_params_def md(3) disk_virtual_size_def FlattenOptions_default_def)
       (simp add: md small_metadata_def)
  have ok: "params_ok ref_externs ?p"
    unfolding p by (simp add: params_ok_def small_params_def)
  have lay: "lay_count ?p = 2" "unat (lay_payload_start ?p) = 4194304"
    unfolding p by (simp_all add: lay_count_def lay_payload_start_def lay_bat_offset_def lay_metadata_offset_def
      lay_bat_length_def lay_total_def lay_ratio_def small_params_def div_ceil_def align_up_def offset_defs
      nat_payload_index_def push_bit_eq_mult Let_def max_def word_le_nat_alt)
  have good: "\<exists>r. link_read l b = Inr r" if "l \<in> set ?links" "unat b < link_count l" for l b
    using that reads geo by (auto intro: small_chain_reads)
  have agrees: "\<forall>l\<in>set ?links. link_agrees d1 l"
    using geo good by (auto simp: link_agrees_def disk_virtual_size_def md small_metadata_def)
  have sub: "fo_subformat FlattenOptions_default = Dynamic" "\<not> fo_compress_ntfs FlattenOptions_default"
    by (simp_all add: FlattenOptions_default_def)
  obtain rep f evs where r: "flatten_links ref_externs (\<lambda>_. Inr ()) 1 2 8388608 ''leaf.avhdx'' ''flat.vhdx''
        ?opts (\<lambda>_. False) ?links = Inr (rep, ''flat.vhdx'', f, evs)"
      "\<forall>q ro. \<exists>d. VhdxDisk_open ref_externs q (Some f) ro = Inr (d, f) \<and> vd_metadata d = writer_metadata ?p \<and>
        (\<forall>b. unat b < unat (lay_count ?p) \<longrightarrow> (\<exists>buf. read_block d f b = Inr (Full buf) \<and>
          holds_chain ?links (unat (logical_sector_size (vd_metadata d1))) (unat (disk_block_size d1)) (unat b) buf))"
    using flatten_output_is_chain [OF ref_uuid_laws refl ok _ agrees, of "\<lambda>_. Inr ()" "''flat.vhdx''" 8388608 "\<lambda>_. False" "''leaf.avhdx''"]
    by (auto simp: lay md(3) sub)
  obtain d where "VhdxDisk_open ref_externs ''flat.vhdx'' (Some f) False = Inr (d, f)"
      and d: "\<forall>b. unat b < unat (lay_count ?p) \<longrightarrow> (\<exists>buf. read_block d f b = Inr (Full buf) \<and>
          holds_chain ?links (unat (logical_sector_size (vd_metadata d1))) (unat (disk_block_size d1)) (unat b) buf)"
    using r(2) [rule_format, of "''flat.vhdx''" False] by blast
  moreover obtain buf where "read_block d f 0 = Inr (Full buf)" "holds_chain ?links 512 1048576 0 buf"
    using d [rule_format, of 0] by (auto simp: lay ls md(3))
  moreover have "chain_sector ?links 512 512 = replicate 512 7"
    using reads geo by (simp add: link_content_def bslice_def chain_payload_def)
  ultimately show ?thesis using r(1) by (intro exI [of _ ?links]) auto
qed

end
