(* ===== verification/Vhdx_Contents.thy ===== *)
theory Vhdx_Contents
  imports Vhdx_Writer
begin

text \<open>
  What the block allocation table and the bytes of a file say a block holds, without the
  handles and readers of \<open>disk.rs\<close>: the terms in which the operations that place blocks
  themselves, the merge and the streaming writer, are described.
\<close>

section \<open>What a table and a file say a block holds\<close>

abbreviation is_present :: "bat_entry \<Rightarrow> bool" where
  "is_present e \<equiv> PayloadState_from_raw (entry_state e) = FullyPresent"

abbreviation off_of :: "bat_entry \<Rightarrow> nat" where
  "off_of e \<equiv> unat (entry_file_offset e)"

definition block_content :: "nat \<Rightarrow> dfile \<Rightarrow> bat_entry \<Rightarrow> block_read option" where
  "block_content bs f e = (case PayloadState_from_raw (entry_state e) of
     FullyPresent \<Rightarrow> Some (Full (file_bytes f (off_of e) bs))
   | Zero \<Rightarrow> Some (Full (replicate bs 0))
   | NotPresent \<Rightarrow> Some Absent | Unmapped \<Rightarrow> Some Absent | Undefined \<Rightarrow> Some Absent
   | _ \<Rightarrow> None)"

definition table_ok :: "u64 \<Rightarrow> u64 \<Rightarrow> nat \<Rightarrow> bat \<Rightarrow> bool" where
  "table_ok cr n len t \<longleftrightarrow> bat_chunk_ratio t = cr \<and> bat_block_count t = n \<and> length (bat_entries t) = len \<and>
     (\<forall>k. unat k < unat n \<longrightarrow> has_payload t k)"

lemma entry_of_payload:
  assumes "table_ok cr n len t" and "unat b < unat n"
  shows "payload_entry t b = Inr (Some (entry_of t (unat b)))"
    and "\<exists>t'. set_payload_entry t b e = Inr t' \<and> table_ok cr n len t' \<and>
      (\<forall>k. entry_of t' k = (if k = unat b then e else entry_of t k))"
proof -
  have p: "has_payload t b" using assms by (simp add: table_ok_def)
  show "payload_entry t b = Inr (Some (entry_of t (unat b)))"
    using payload_entry_has(1) [OF p] by (simp add: entry_of_def)
  show "\<exists>t'. set_payload_entry t b e = Inr t' \<and> table_ok cr n len t' \<and>
      (\<forall>k. entry_of t' k = (if k = unat b then e else entry_of t k))"
    using payload_entry_has(2) [OF p, of e] p assms(1)
    by (auto simp: table_ok_def has_payload_def entry_of_def nat_payload_index_inj nth_list_update)
qed

lemma offset_aligned: "unat (entry_file_offset e) mod 1048576 = 0"
proof -
  have "take_bit 20 (entry_file_offset e) = 0"
    by (rule bit_eqI) (auto simp: entry_file_offset_def bit_simps)
  moreover have "unat (take_bit 20 (entry_file_offset e)) = unat (entry_file_offset e) mod 2 ^ 20"
    unfolding unsigned_take_bit_eq by (rule take_bit_eq_mod)
  ultimately show ?thesis by simp
qed

lemma new_present:
  assumes "unat off mod 1048576 = 0"
  shows "is_present (BatEntry_new PAYLOAD_BLOCK_FULLY_PRESENT off)"
    and "entry_file_offset (BatEntry_new PAYLOAD_BLOCK_FULLY_PRESENT off) = off"
  using assms entry_state_new [of 6] entry_file_offset_new [of off]
  by (simp_all add: block_state_defs PayloadState_from_raw_def)

lemma block_content_frame:
  assumes "block_content bs f e = Some r" and "is_present e \<Longrightarrow> file_bytes g (off_of e) bs = file_bytes f (off_of e) bs"
  shows "block_content bs g e = Some r"
  using assms by (auto simp: block_content_def split: payload_state.splits)

lemma read_block_content:
  assumes "disk_wf d" and "table_ok (bat_chunk_ratio (vd_bat d)) (bat_block_count (vd_bat d)) len (vd_bat d)"
    and "unat b < unat (bat_block_count (vd_bat d))"
    and "block_content (unat (disk_block_size d)) f (entry_of (vd_bat d) (unat b)) = Some r"
    and "is_present (entry_of (vd_bat d) (unat b)) \<Longrightarrow>
      off_of (entry_of (vd_bat d) (unat b)) + unat (disk_block_size d) \<le> f_len f"
    and "f_len f < 2 ^ 63"
  shows "read_block d f b = Inr r"
proof -
  have e: "payload_entry (vd_bat d) b = Inr (Some (entry_of (vd_bat d) (unat b)))"
    by (rule entry_of_payload(1) [OF assms(2,3)])
  have c: "disk_block_count d = Inr (bat_block_count (vd_bat d))" by (rule disk_wf_count [OF assms(1)])
  have "\<not> bat_block_count (vd_bat d) \<le> b" using assms(3) by (simp add: word_le_nat_alt)
  moreover have "read_exact_at f (entry_file_offset (entry_of (vd_bat d) (unat b))) (unat (disk_block_size d)) =
      Inr (file_bytes f (off_of (entry_of (vd_bat d) (unat b))) (unat (disk_block_size d)))"
    if "is_present (entry_of (vd_bat d) (unat b))"
    using assms(3,5,6) that by (auto simp: read_exact_at_ok)
  ultimately show ?thesis
    using assms(4) by (auto simp: read_block_def c e block_content_def split: payload_state.splits)
qed

section \<open>Blocks of which a part is present\<close>

text \<open>
  A partially present block has a payload and a range of bits in the bitmap of its chunk:
  \<open>bitmap_range\<close> is where in the file, for \<open>spb\<close> sectors in a block.
\<close>

abbreviation is_partial :: "bat_entry \<Rightarrow> bool" where
  "is_partial e \<equiv> PayloadState_from_raw (entry_state e) = PartiallyPresent"

abbreviation holds_data :: "bat_entry \<Rightarrow> bool" where
  "holds_data e \<equiv> is_present e \<or> is_partial e"

definition bitmap_range :: "bat \<Rightarrow> nat \<Rightarrow> nat \<Rightarrow> nat \<times> nat" where
  "bitmap_range t spb k = (case sector_bitmap_entry t (word_of_nat k) of
     Inr (Some e) \<Rightarrow>
       (unat (entry_file_offset e + word_of_nat (unat (word_of_nat k mod bat_chunk_ratio t) * spb div 8)), (spb + 7) div 8)
   | _ \<Rightarrow> (0, 0))"

definition bitmap_usable :: "bat \<Rightarrow> nat \<Rightarrow> nat \<Rightarrow> bool" where
  "bitmap_usable t spb k \<longleftrightarrow> unat (word_of_nat k mod bat_chunk_ratio t) * spb mod 8 = 0 \<and>
     (case sector_bitmap_entry t (word_of_nat k) of
        Inr (Some e) \<Rightarrow> SectorBitmapState_from_raw (entry_state e) = SbPresent
      | _ \<Rightarrow> False)"

definition content_at :: "nat \<Rightarrow> nat \<Rightarrow> dfile \<Rightarrow> bat \<Rightarrow> nat \<Rightarrow> block_read option" where
  "content_at bs spb f t k =
    (if is_partial (entry_of t k)
     then if bitmap_usable t spb k
       then Some (Partial (file_bytes f (off_of (entry_of t k)) bs)
         (file_bytes f (fst (bitmap_range t spb k)) (snd (bitmap_range t spb k))))
       else None
     else block_content bs f (entry_of t k))"

lemma content_at_frame:
  assumes "content_at bs spb f t k = Some r"
    and "holds_data (entry_of t k) \<Longrightarrow>
      file_bytes g (off_of (entry_of t k)) bs = file_bytes f (off_of (entry_of t k)) bs"
    and "is_partial (entry_of t k) \<Longrightarrow> file_bytes g (fst (bitmap_range t spb k)) (snd (bitmap_range t spb k)) =
      file_bytes f (fst (bitmap_range t spb k)) (snd (bitmap_range t spb k))"
  shows "content_at bs spb g t k = Some r"
  using assms block_content_frame [of bs f "entry_of t k" r g] by (auto simp: content_at_def split: if_splits)

lemma content_at_length:
  assumes "content_at bs spb f t k = Some r" and "r = Full data \<or> r = Partial data bm"
  shows "length data = bs"
  using assms by (auto simp: content_at_def block_content_def split: if_splits payload_state.splits)

text \<open>An update of a payload entry leaves the bitmaps of all blocks alone.\<close>

lemma set_payload_keeps_bitmaps:
  assumes "has_payload t b" and "has_payload t j" and "set_payload_entry t b e = Inr t'"
  shows "sector_bitmap_entry t' j = sector_bitmap_entry t j"
proof -
  let ?cr = "bat_chunk_ratio t"
  have t': "t' = t\<lparr>bat_entries := (bat_entries t)[nat_payload_index (unat b) (unat ?cr) := e]\<rparr>"
    using payload_entry_has(2) [OF assms(1), of e] assms(3) by simp
  have j: "index_ok j ?cr" using assms(2) by (simp add: has_payload_def)
  then obtain idx where idx: "sector_bitmap_index j ?cr = Inr idx" "unat idx = nat_bitmap_index (unat j) (unat ?cr)"
    using sector_bitmap_index_nat by blast
  have "0 < unat ?cr" using j by (simp add: index_ok_def unat_gt_0)
  then have "nat_payload_index (unat b) (unat ?cr) \<noteq> unat idx" unfolding idx(2) by (rule nat_indices_disjoint)
  then show ?thesis by (simp add: t' sector_bitmap_entry_def idx(1) entry_at_def)
qed

lemma table_update:
  assumes t: "table_ok cr n len t" and b: "unat b < unat n"
  obtains t' where "set_payload_entry t b e = Inr t'" and "table_ok cr n len t'"
    and "\<And>k. entry_of t' k = (if k = unat b then e else entry_of t k)"
    and "\<And>k. k < unat n \<Longrightarrow> bitmap_range t' spb k = bitmap_range t spb k"
    and "\<And>k f. k < unat n \<Longrightarrow> k \<noteq> unat b \<Longrightarrow> content_at bs spb f t' k = content_at bs spb f t k"
proof -
  obtain t' where t': "set_payload_entry t b e = Inr t'" "table_ok cr n len t'"
      "\<And>k. entry_of t' k = (if k = unat b then e else entry_of t k)"
    using entry_of_payload(2) [OF t b] by blast
  have cr: "bat_chunk_ratio t' = bat_chunk_ratio t" using t t'(2) by (simp add: table_ok_def)
  have same: "sector_bitmap_entry t' (word_of_nat k) = sector_bitmap_entry t (word_of_nat k)" if k: "k < unat n" for k
  proof -
    have "unat (word_of_nat k :: u64) = k" using k unat_u64_lt [of n] by (intro unat_of_nat_u64) linarith
    then have "has_payload t (word_of_nat k)" "has_payload t b" using t b k by (auto simp: table_ok_def)
    then show "sector_bitmap_entry t' (word_of_nat k) = sector_bitmap_entry t (word_of_nat k)"
      using t'(1) by (intro set_payload_keeps_bitmaps)
  qed
  have range: "bitmap_range t' spb k = bitmap_range t spb k" "bitmap_usable t' spb k = bitmap_usable t spb k"
    if "k < unat n" for k
    by (simp_all add: bitmap_range_def bitmap_usable_def same [OF that] cr split: sum.split option.split)
  show ?thesis by (rule that [OF t']) (simp_all add: content_at_def range t'(3))
qed

lemma read_at_inside:
  "unat off + n \<le> f_len f \<Longrightarrow> f_len f < 2 ^ 63 \<Longrightarrow> read_at f off n = Inr (file_bytes f (unat off) n)"
  by (simp add: read_at_def seek_def)

lemma read_block_at:
  assumes wf: "disk_wf d" and t: "table_ok (bat_chunk_ratio (vd_bat d)) (bat_block_count (vd_bat d)) len (vd_bat d)"
    and b: "unat b < unat (bat_block_count (vd_bat d))"
    and spb: "spb = unat (disk_block_size d) div unat (logical_sector_size (vd_metadata d))"
    and c: "content_at (unat (disk_block_size d)) spb f (vd_bat d) (unat b) = Some r"
    and fit: "holds_data (entry_of (vd_bat d) (unat b)) \<Longrightarrow>
      off_of (entry_of (vd_bat d) (unat b)) + unat (disk_block_size d) \<le> f_len f"
      "is_partial (entry_of (vd_bat d) (unat b)) \<Longrightarrow>
        fst (bitmap_range (vd_bat d) spb (unat b)) + snd (bitmap_range (vd_bat d) spb (unat b)) \<le> f_len f"
    and len: "f_len f < 2 ^ 63"
  shows "read_block d f b = Inr r"
proof (cases "is_partial (entry_of (vd_bat d) (unat b))")
  case False
  then show ?thesis
    using c fit(1) len by (intro read_block_content [OF wf t b]) (auto simp: content_at_def)
next
  case True
  let ?e = "entry_of (vd_bat d) (unat b)" and ?cr = "bat_chunk_ratio (vd_bat d)"
  let ?bs = "unat (disk_block_size d)"
  have e: "payload_entry (vd_bat d) b = Inr (Some ?e)" by (rule entry_of_payload(1) [OF t b])
  obtain se where se: "sector_bitmap_entry (vd_bat d) b = Inr (Some se)"
      "SectorBitmapState_from_raw (entry_state se) = SbPresent" "unat (b mod ?cr) * spb mod 8 = 0"
    using c True by (auto simp: content_at_def bitmap_usable_def split: if_splits sum.splits option.splits)
  define at' where "at' = entry_file_offset se + word_of_nat (unat (b mod ?cr) * spb div 8)"
  have range: "bitmap_range (vd_bat d) spb (unat b) = (unat at', (spb + 7) div 8)"
    by (simp add: bitmap_range_def se(1) at'_def)
  have r: "r = Partial (file_bytes f (off_of ?e) ?bs) (file_bytes f (unat at') ((spb + 7) div 8))"
    using c True by (auto simp: content_at_def range split: if_splits)
  have nz: "bat_block_count (vd_bat d) \<noteq> 0" using b by auto
  have lss: "logical_sector_size (vd_metadata d) \<noteq> 0" by (rule disk_wf_sector [OF wf nz])
  have cr: "?cr \<noteq> 0" "chunk_ratio (vd_metadata d) = Inr ?cr" using wf nz by (simp_all add: disk_wf_def)
  have sectors: "unat ((ucast (disk_block_size d) :: u64) div ucast (logical_sector_size (vd_metadata d))) = spb"
    by (simp add: spb unat_div)
  have "read_at f at' ((spb + 7) div 8) = Inr (file_bytes f (unat at') ((spb + 7) div 8))"
    using fit(2) [OF True] range len by (intro read_at_inside) simp_all
  then have bitmap: "read_sector_bitmap d f b = Inr (file_bytes f (unat at') ((spb + 7) div 8))"
    using se lss cr by (simp add: read_sector_bitmap_def sectors Let_def at'_def)
  have "read_exact_at f (entry_file_offset ?e) ?bs = Inr (file_bytes f (off_of ?e) ?bs)"
    using fit(1) True len by (simp add: read_exact_at_ok)
  moreover have "\<not> bat_block_count (vd_bat d) \<le> b" using b by (simp add: word_le_nat_alt)
  ultimately show ?thesis
    using True se bitmap by (simp add: read_block_def disk_wf_count [OF wf] e r)
qed

section \<open>Files made by the writer\<close>

text \<open>The file a session leaves, on a volume of 8 MiB, as later sections open it.\<close>

lemma session_file:
  assumes "params_ok ref_externs p" and "\<not> wp_fixed p"
    and "\<forall>(b, s)\<in>set ws. unat b < unat (lay_count p) \<and> source_ok p s"
    and "unat (lay_payload_start p) + length (filter (\<lambda>(b, s). s \<noteq> SrcZero) ws) * unat (wp_block_size p) \<le> 8388608"
  obtains f where "\<And>q ro. \<exists>d. VhdxDisk_open ref_externs q (Some f) ro = Inr (d, f) \<and> vd_metadata d = writer_metadata p \<and>
    data_write_guid (active_header d) = wp_data_write_guid p \<and> disk_block_count d = Inr (lay_count p) \<and>
    (\<forall>b. unat b < unat (lay_count p) \<longrightarrow> read_block d f b = Inr (expected_block p (last_sources ws (unat b))))"
proof -
  obtain w w' f where "VhdxWriter_create ref_externs ''x'' 8388608 p = Inr w" "write_blocks w ws = Inr w'"
    and f: "\<forall>q ro. \<exists>d. VhdxDisk_open ref_externs q (Some f) ro = Inr (d, f) \<and> vd_metadata d = writer_metadata p \<and>
      data_write_guid (active_header d) = wp_data_write_guid p \<and> disk_block_count d = Inr (lay_count p) \<and>
      (\<forall>b. unat b < unat (lay_count p) \<longrightarrow> read_block d f b = Inr (expected_block p (last_sources ws (unat b))))"
    using session_ok [OF ref_uuid_laws assms(1,2) _ assms(3,4), of "''x''"] by auto
  show ?thesis by (rule that [of f]) (use f in blast)
qed

end
