(* ===== verification/Vhdx_Zst_Writer.thy ===== *)
theory Vhdx_Zst_Writer
  imports Vhdx_Contents Vhdx_Sink
begin

text \<open>
  \<open>zst_writer.rs\<close>: the forward-only writer, whose image has the table behind the payload.
  The stream it writes to is the argument \<open>put\<close>.  An operation that is called on the writer
  takes and returns the record \<open>zst_writer\<close>; the local functions of the source carry the
  stream and the cursor.
\<close>

section \<open>Layout and table\<close>

record layout =
  ly_block_size :: u64
  ly_log_offset :: u64
  ly_log_size :: u64
  ly_metadata_offset :: u64
  ly_metadata_length :: u64
  ly_payload_start :: u64
  ly_bat_offset :: u64
  ly_bat_length :: u64
  ly_non_zero_blocks :: u64
  ly_total_size :: u64

definition Layout_compute :: "writer_params \<Rightarrow> u64 \<Rightarrow> nat \<Rightarrow> layout" where
  "Layout_compute params non_zero_blocks total_entries =
    (let block_size = ucast (wp_block_size params);
         log_off = MIB;
         log_size = align_up (wp_log_size params) MIB;
         metadata_offset = log_off + log_size;
         metadata_length = MIB;
         payload_start = metadata_offset + metadata_length;
         payload_end = payload_start + non_zero_blocks * block_size;
         bat_offset = align_up payload_end MIB;
         bat_bytes_needed = word_of_nat total_entries * 8;
         bat_length = align_up (max bat_bytes_needed MIB) MIB;
         total_size = bat_offset + bat_length in
     \<lparr>ly_block_size = block_size, ly_log_offset = log_off, ly_log_size = log_size,
      ly_metadata_offset = metadata_offset, ly_metadata_length = metadata_length,
      ly_payload_start = payload_start, ly_bat_offset = bat_offset, ly_bat_length = bat_length,
      ly_non_zero_blocks = non_zero_blocks, ly_total_size = total_size\<rparr>)"

text \<open>The loop of \<open>build_bat_for_layout\<close>, from block \<open>blk\<close> on, with \<open>seq\<close> payload blocks placed.\<close>

fun place_blocks :: "u64 \<Rightarrow> u64 \<Rightarrow> bool list \<Rightarrow> u64 \<Rightarrow> u64 \<Rightarrow> bat \<Rightarrow> (bat \<times> u64) res" where
  "place_blocks payload_start bs [] blk seq b = Inr (b, seq)"
| "place_blocks payload_start bs (is_zero # flags) blk seq b =
    (if is_zero then
       bindR (set_payload_entry b blk (BatEntry_new PAYLOAD_BLOCK_ZERO 0)) (\<lambda>b.
       place_blocks payload_start bs flags (blk + 1) seq b)
     else
       let off = payload_start + seq * bs in
       bindR (set_payload_entry b blk (BatEntry_new PAYLOAD_BLOCK_FULLY_PRESENT off)) (\<lambda>b.
       place_blocks payload_start bs flags (blk + 1) (seq + 1) b))"

definition build_bat_for_layout ::
    "u64 \<Rightarrow> u64 \<Rightarrow> bool \<Rightarrow> u64 \<Rightarrow> u64 \<Rightarrow> bool list \<Rightarrow> (bat \<times> u64) res" where
  "build_bat_for_layout bcount ratio has_parent payload_start bs is_zero =
    bindR (total_bat_entries bcount ratio has_parent) (\<lambda>total_entries.
    place_blocks payload_start bs (take (unat bcount) is_zero) 0 0
      \<lparr>bat_entries = replicate total_entries BatEntry_empty, bat_chunk_ratio = ratio,
       bat_block_count = bcount\<rparr>)"

section \<open>The writer\<close>

record 's zst_writer =
  zw_out :: 's
  zw_cursor :: u64
  zw_layout :: layout
  zw_bat :: bat
  zw_expected :: u64
  zw_written :: u64

definition stream_block :: "'s put \<Rightarrow> 's \<times> u64 \<Rightarrow> bytes \<Rightarrow> ('s \<times> u64) res" where
  "stream_block put st buf =
    bindR (put (fst st) buf) (\<lambda>out. Inr (out, snd st + word_of_nat (length buf)))"

text \<open>The loop of \<open>write_zeros\<close>, in pieces of at most 64 KiB.\<close>

function zero_pieces :: "'s put \<Rightarrow> 's \<Rightarrow> nat \<Rightarrow> 's res" where
  "zero_pieces put out remaining =
    (if remaining = 0 then Inr out
     else
       let n = min remaining (64 * 1024) in
       bindR (put out (replicate n 0)) (\<lambda>out. zero_pieces put out (remaining - n)))"
  by pat_completeness auto
termination by (relation "measure (\<lambda>(put, out, remaining). remaining)") auto

declare zero_pieces.simps [simp del]

definition write_zeros :: "'s put \<Rightarrow> 's \<times> u64 \<Rightarrow> u64 \<Rightarrow> ('s \<times> u64) res" where
  "write_zeros put st len =
    (if len = 0 then Inr st
     else bindR (zero_pieces put (fst st) (unat len)) (\<lambda>out. Inr (out, snd st + len)))"

definition pad_to :: "'s put \<Rightarrow> 's \<times> u64 \<Rightarrow> u64 \<Rightarrow> ('s \<times> u64) res" where
  "pad_to put st target = (if snd st = target then Inr st else write_zeros put st (target - snd st))"

definition zst_regions :: "layout \<Rightarrow> region_table" where
  "zst_regions layout = \<lparr>rt_checksum_ok = True, rt_entries =
    [\<lparr>re_guid = REGION_GUID_METADATA, re_file_offset = ly_metadata_offset layout,
      re_length = ucast (ly_metadata_length layout), re_required = True\<rparr>,
     \<lparr>re_guid = REGION_GUID_BAT, re_file_offset = ly_bat_offset layout,
      re_length = ucast (ly_bat_length layout), re_required = True\<rparr>]\<rparr>"

definition ZstStreamWriter_begin :: "externs \<Rightarrow> 's put \<Rightarrow> 's \<Rightarrow> writer_params \<Rightarrow> bat \<Rightarrow> layout \<Rightarrow> 's zst_writer res" where
  "ZstStreamWriter_begin E put out params b layout =
    (let fti = bput 0 FILE_TYPE_SIGNATURE (replicate (unat FILE_TYPE_IDENTIFIER_SIZE) 0);
         h1 = writer_header params (ly_log_offset layout) 1;
         h2 = h1\<lparr>sequence_number := 2\<rparr> in
     bindR (stream_block put (out, 0) fti) (\<lambda>st.
     bindR (stream_block put st (Header_encode E h1)) (\<lambda>st.
     bindR (stream_block put st (Header_encode E h2)) (\<lambda>st.
     bindR (RegionTable_encode E (zst_regions layout)) (\<lambda>region_buf.
     bindR (stream_block put st region_buf) (\<lambda>st.
     bindR (stream_block put st region_buf) (\<lambda>st.
     bindR (pad_to put st (ly_log_offset layout)) (\<lambda>st.
     bindR (write_zeros put st (ly_log_size layout)) (\<lambda>st.
     bindR (Metadata_encode E (writer_metadata params) (ly_metadata_length layout)) (\<lambda>metadata_buf.
     bindR (stream_block put st metadata_buf) (\<lambda>(out, cursor).
     Inr \<lparr>zw_out = out, zw_cursor = cursor, zw_layout = layout, zw_bat = b,
       zw_expected = ly_non_zero_blocks layout, zw_written = 0\<rparr>)))))))))))"

definition write_payload_block :: "'s put \<Rightarrow> 's zst_writer \<Rightarrow> bytes \<Rightarrow> 's zst_writer res" where
  "write_payload_block put w buf =
    (if zw_written w \<ge> zw_expected w
     then Inl (InvalidStructure ''more payload blocks than the layout was sized for'')
     else
       bindR (stream_block put (zw_out w, zw_cursor w) buf) (\<lambda>(out, cursor).
       Inr (w\<lparr>zw_out := out, zw_cursor := cursor, zw_written := zw_written w + 1\<rparr>)))"

definition zst_finish :: "'s put \<Rightarrow> 's zst_writer \<Rightarrow> 's res" where
  "zst_finish put w =
    (if zw_written w \<noteq> zw_expected w
     then Inl (InvalidStructure ''fewer payload blocks than expected'')
     else
       bindR (pad_to put (zw_out w, zw_cursor w) (ly_bat_offset (zw_layout w))) (\<lambda>st.
       bindR (bat_region_buf (zw_bat w) (ly_bat_length (zw_layout w))) (\<lambda>bat_buf.
       bindR (stream_block put st bat_buf) (\<lambda>(out, cursor). Inr out))))"
section \<open>What a call puts into the stream\<close>

lemma bindR_assoc: "bindR (bindR r k) l = bindR r (\<lambda>x. bindR (k x) l)"
  by (cases r) simp_all

fun puts :: "'s put \<Rightarrow> 's \<Rightarrow> bytes list \<Rightarrow> 's res" where
  "puts put s [] = Inr s"
| "puts put s (b # bs) = bindR (put s b) (\<lambda>s. puts put s bs)"

lemma puts_append: "puts put s (xs @ ys) = bindR (puts put s xs) (\<lambda>s. puts put s ys)"
  by (induction xs arbitrary: s) (simp_all add: bindR_assoc)

context byte_sink
begin

lemma puts_contents: "puts put s bs = Inr s' \<Longrightarrow> contents s' = contents s @ concat bs"
  by (induction bs arbitrary: s) (auto simp: bindR_eq_Inr dest!: put_contents)

end

lemma vec_puts: "puts vec_put v bs = Inr (v @ concat bs)"
  by (induction bs arbitrary: v) (simp_all add: vec_put_def)

text \<open>
  At cursor \<open>c\<close>, the operation puts \<open>bs\<close> into the stream, in whatever pieces, and has the
  result \<open>fin\<close> of the stream when none of the writes fails.
\<close>

definition emits :: "'s put \<Rightarrow> ('s \<times> u64 \<Rightarrow> 'r res) \<Rightarrow> u64 \<Rightarrow> bytes \<Rightarrow> ('s \<Rightarrow> 'r) \<Rightarrow> bool" where
  "emits put act c bs fin \<longleftrightarrow> (\<exists>ps. concat ps = bs \<and> (\<forall>s. act (s, c) = bindR (puts put s ps) (\<lambda>s. Inr (fin s))))"

lemma emits_return: "emits put (\<lambda>st. Inr (fin (fst st))) c [] fin"
  by (auto simp: emits_def intro!: exI [of _ "[]"])

lemma emits_bind:
  assumes "emits put act c b1 (\<lambda>s. (s, c1))" and "emits put rest c1 b2 fin"
  shows "emits put (\<lambda>st. bindR (act st) rest) c (b1 @ b2) fin"
proof -
  obtain p1 p2 where p: "concat p1 = b1" "\<And>s. act (s, c) = bindR (puts put s p1) (\<lambda>s. Inr (s, c1))"
      "concat p2 = b2" "\<And>s. rest (s, c1) = bindR (puts put s p2) (\<lambda>s. Inr (fin s))"
    using assms by (auto simp: emits_def)
  have "bindR (act (s, c)) rest = bindR (puts put s (p1 @ p2)) (\<lambda>s. Inr (fin s))" for s
    by (simp add: p puts_append bindR_assoc)
  then show ?thesis using p by (auto simp: emits_def intro!: exI [of _ "p1 @ p2"])
qed

lemma emits_block: "emits put (\<lambda>st. stream_block put st buf) c buf (\<lambda>s. (s, c + word_of_nat (length buf)))"
  by (auto simp: emits_def stream_block_def bindR_assoc intro!: exI [of _ "[buf]"])

lemma zero_pieces_puts: "\<exists>ps. concat ps = replicate n 0 \<and> (\<forall>s. zero_pieces put s n = puts put s ps)"
proof (induction n rule: less_induct)
  case (less n)
  show ?case
  proof (cases "n = 0")
    case True
    then show ?thesis by (auto simp: zero_pieces.simps intro!: exI [of _ "[]"])
  next
    case False
    let ?k = "min n 65536"
    obtain ps where ps: "concat ps = replicate (n - ?k) 0" "\<And>s. zero_pieces put s (n - ?k) = puts put s ps"
      using less [of "n - ?k"] False by auto
    have "zero_pieces put s n = puts put s (replicate ?k 0 # ps)" for s
      using False by (subst zero_pieces.simps) (simp add: ps Let_def)
    moreover have "concat (replicate ?k 0 # ps) = replicate n 0"
      using ps(1) by (simp flip: replicate_add)
    ultimately show ?thesis by blast
  qed
qed

lemma emits_zeros: "emits put (\<lambda>st. write_zeros put st len) c (replicate (unat len) 0) (\<lambda>s. (s, c + len))"
proof -
  obtain ps where "concat ps = replicate (unat len) 0" "\<And>s. zero_pieces put s (unat len) = puts put s ps"
    using zero_pieces_puts by blast
  then have "emits put (\<lambda>st. bindR (zero_pieces put (fst st) (unat len)) (\<lambda>s. Inr (s, snd st + len))) c
      (replicate (unat len) 0) (\<lambda>s. (s, c + len))"
    by (auto simp: emits_def intro!: exI [of _ ps])
  then show ?thesis
    by (cases "len = 0") (auto simp: emits_def write_zeros_def intro!: exI [of _ "[]"])
qed

lemma emits_pad:
  assumes "unat c \<le> unat target"
  shows "emits put (\<lambda>st. pad_to put st target) c (replicate (unat target - unat c) 0) (\<lambda>s. (s, target))"
proof (cases "c = target")
  case True
  then show ?thesis by (auto simp: emits_def pad_to_def intro!: exI [of _ "[]"])
next
  case False
  have "unat (target - c) = unat target - unat c" using assms by (simp add: unat_sub_u64)
  then show ?thesis
    using emits_zeros [of put "target - c" c] False by (simp add: emits_def pad_to_def)
qed
lemma emits_end: "emits put (\<lambda>(s, c'). Inr (fin s c')) c [] (\<lambda>s. fin s c)"
  by (auto simp: emits_def intro!: exI [of _ "[]"])

section \<open>The layout of the parameters\<close>

lemma zst_layout:
  assumes "params_ok E p" and "unat nz \<le> unat (lay_count p)"
  defines "L \<equiv> Layout_compute p nz (lay_total p)"
  shows "ly_block_size L = ucast (wp_block_size p)" and "ly_log_offset L = MIB"
    and "MIB + ly_log_size L = lay_metadata_offset p" and "unat (ly_log_size L) = unat (lay_metadata_offset p) - 1048576"
    and "ly_metadata_offset L = lay_metadata_offset p"
    and "ly_metadata_length L = MIB" and "ly_payload_start L = lay_bat_offset p" and "ly_bat_length L = lay_bat_length p"
    and "ly_non_zero_blocks L = nz"
    and "unat (ly_bat_offset L) = unat (lay_bat_offset p) + unat nz * unat (wp_block_size p)"
    and "unat (ly_bat_offset L) mod 1048576 = 0"
    and "unat (ly_total_size L) = unat (ly_bat_offset L) + unat (lay_bat_length p)"
    and "unat (ly_total_size L) < 2 ^ 62"
proof -
  note lay = lay_bounds [OF assms(1)]
  let ?bs = "unat (wp_block_size p)"
  show "ly_block_size L = ucast (wp_block_size p)" "ly_log_offset L = MIB" "MIB + ly_log_size L = lay_metadata_offset p"
    "ly_metadata_offset L = lay_metadata_offset p"
    "ly_metadata_length L = MIB" "ly_payload_start L = lay_bat_offset p" "ly_bat_length L = lay_bat_length p"
    "ly_non_zero_blocks L = nz"
    by (simp_all add: L_def Layout_compute_def Let_def lay_metadata_offset_def lay_bat_offset_def lay_bat_length_def)
  have "unat (wp_log_size p) \<le> 4294967296" using assms(1) by (simp add: params_ok_def)
  then show "unat (ly_log_size L) = unat (lay_metadata_offset p) - 1048576"
    using align_up_MIB [of "wp_log_size p"]
    by (simp add: L_def Layout_compute_def Let_def lay_metadata_offset_def unat_add_u64)
  have bs: "?bs mod 1048576 = 0" "?bs \<le> 268435456" using assms(1) by (simp_all add: params_ok_def)
  have "unat nz \<le> 67108864" using assms(2) lay_count_ratio(1) [OF assms(1)] by linarith
  then have prod: "unat nz * ?bs \<le> 67108864 * 268435456" using bs(2) by (rule mult_le_mono)
  then have m: "unat (nz * ucast (wp_block_size p)) = unat nz * ?bs"
    by (subst unat_mult_u64) simp_all
  have e: "unat (lay_bat_offset p + nz * ucast (wp_block_size p)) = unat (lay_bat_offset p) + unat nz * ?bs"
    using m prod lay(3,4) by (subst unat_add_u64) simp_all
  have al: "(unat (lay_bat_offset p) + unat nz * ?bs) mod 1048576 = 0"
    using lay(11) bs(1) by (metis add_0 mod_0 mod_add_eq mod_mult_right_eq mult_0_right)
  have up: "unat (align_up n MIB) = unat n" if "unat n mod 1048576 = 0" "unat n < 2 ^ 62" for n
  proof -
    have "unat n + 1048576 < 18446744073709551616" using that(2) by simp
    note a = align_up_MIB [OF this]
    have "(unat (align_up n MIB) - unat n) mod 1048576 = 0"
      using a(2) that(1) by (metis mod_0_imp_dvd dvd_diff_nat dvd_imp_mod_0)
    then show ?thesis using a(1,3) by (metis add_diff_cancel_left' le_add_diff_inverse less_diff_conv2 mod_less nat_add_left_cancel_less add_0_right)
  qed
  have b: "ly_bat_offset L = align_up (lay_bat_offset p + nz * ucast (wp_block_size p)) MIB"
    by (simp add: L_def Layout_compute_def Let_def lay_metadata_offset_def lay_bat_offset_def)
  show bo: "unat (ly_bat_offset L) = unat (lay_bat_offset p) + unat nz * ?bs"
    unfolding b using up [of "lay_bat_offset p + nz * ucast (wp_block_size p)"] e al prod lay(3,4) by simp
  then show "unat (ly_bat_offset L) mod 1048576 = 0" using al by simp
  have t: "ly_total_size L = ly_bat_offset L + lay_bat_length p"
    by (simp add: L_def Layout_compute_def Let_def lay_bat_length_def)
  show "unat (ly_total_size L) = unat (ly_bat_offset L) + unat (lay_bat_length p)"
    unfolding t using bo prod lay(3,4,9) by (subst unat_add_u64) simp_all
  then show "unat (ly_total_size L) < 2 ^ 62" using bo prod lay(3,4,9) by simp
qed

definition zst_head :: "externs \<Rightarrow> writer_params \<Rightarrow> bytes \<Rightarrow> bytes \<Rightarrow> bytes" where
  "zst_head E p tab mb =
    (bput 0 FILE_TYPE_SIGNATURE (replicate 65536 0) @ Header_encode E (writer_header p MIB 1) @
     Header_encode E (writer_header p MIB 2) @ tab @ tab @ replicate 720896 0 @
     replicate (unat (lay_metadata_offset p) - 1048576) 0 @ mb)"

lemma begin_puts:
  assumes E: "uuid_laws E" and p: "params_ok E p" and nz: "unat nz \<le> unat (lay_count p)"
  defines "L \<equiv> Layout_compute p nz (lay_total p)"
  assumes tab: "RegionTable_encode E (zst_regions L) = Inr tab" "length tab = 65536"
    and mb: "Metadata_encode E (writer_metadata p) MIB = Inr mb" "length mb = 1048576"
  shows "\<exists>ps. concat ps = zst_head E p tab mb \<and> (\<forall>out. ZstStreamWriter_begin E put out p b L =
    bindR (puts put out ps) (\<lambda>out. Inr \<lparr>zw_out = out, zw_cursor = lay_bat_offset p, zw_layout = L, zw_bat = b,
      zw_expected = nz, zw_written = 0\<rparr>))"
proof -
  note ly = zst_layout [OF p nz, folded L_def]
  let ?fti = "bput 0 FILE_TYPE_SIGNATURE (replicate 65536 0)"
  let ?h1 = "writer_header p MIB 1" and ?h2 = "writer_header p MIB 2"
  let ?rec = "\<lambda>out cursor. \<lparr>zw_out = out, zw_cursor = cursor, zw_layout = L, zw_bat = b, zw_expected = nz, zw_written = 0\<rparr>"
  let ?act = "\<lambda>st. bindR (stream_block put st ?fti) (\<lambda>st. bindR (stream_block put st (Header_encode E ?h1)) (\<lambda>st.
    bindR (stream_block put st (Header_encode E ?h2)) (\<lambda>st. bindR (stream_block put st tab) (\<lambda>st.
    bindR (stream_block put st tab) (\<lambda>st. bindR (pad_to put st MIB) (\<lambda>st. bindR (write_zeros put st (ly_log_size L)) (\<lambda>st.
    bindR (stream_block put st mb) (\<lambda>(out, cursor). Inr (?rec out cursor)))))))))"
  have fti: "length ?fti = 65536" by (simp add: length_put)
  have cur: "unat (0 + word_of_nat (length ?fti) + word_of_nat (length (Header_encode E ?h1)) +
      word_of_nat (length (Header_encode E ?h2)) + word_of_nat (length tab) + word_of_nat (length tab) :: u64) = 327680"
    using E by (simp add: fti tab(2))
  have "emits put ?act 0 (?fti @ Header_encode E ?h1 @ Header_encode E ?h2 @ tab @ tab @
      replicate (unat MIB - 327680) 0 @ replicate (unat (ly_log_size L)) 0 @ mb @ [])
      (\<lambda>s. ?rec s (MIB + ly_log_size L + word_of_nat (length mb)))"
    unfolding cur [symmetric]
    by (intro emits_bind [OF emits_block] emits_bind [OF emits_pad] emits_bind [OF emits_zeros] emits_end) (rule ord_eq_le_trans [OF cur], simp)
  moreover have "MIB + ly_log_size L + word_of_nat (length mb) = lay_bat_offset p"
  proof -
    have "word_of_nat (length mb) = MIB" by (simp add: mb(2) offset_defs)
    then show ?thesis by (simp only: ly(3) lay_bat_offset_def)
  qed
  ultimately have "emits put ?act 0 (zst_head E p tab mb) (\<lambda>s. ?rec s (lay_bat_offset p))"
    by (simp add: zst_head_def ly(4))
  moreover have "ZstStreamWriter_begin E put out p b L = ?act (out, 0)" for out
  proof -
    have k: "unat FILE_TYPE_IDENTIFIER_SIZE = 65536" "?h1\<lparr>sequence_number := 2\<rparr> = ?h2"
      by (simp_all add: offset_defs writer_header_def)
    show ?thesis
      by (simp only: ZstStreamWriter_begin_def Let_def k ly(2,6,9) tab(1) mb(1) bindR_simps)
  qed
  ultimately show ?thesis by (simp add: emits_def)
qed
section \<open>A session\<close>

fun write_payload_blocks :: "'s put \<Rightarrow> 's zst_writer \<Rightarrow> bytes list \<Rightarrow> 's zst_writer res" where
  "write_payload_blocks put w [] = Inr w"
| "write_payload_blocks put w (b # bufs) =
    bindR (write_payload_block put w b) (\<lambda>w. write_payload_blocks put w bufs)"

definition zst_session :: "externs \<Rightarrow> 's put \<Rightarrow> 's \<Rightarrow> writer_params \<Rightarrow> bat \<Rightarrow> layout \<Rightarrow> bytes list \<Rightarrow> 's res" where
  "zst_session E put out p b L bufs =
    bindR (ZstStreamWriter_begin E put out p b L) (\<lambda>w.
    bindR (write_payload_blocks put w bufs) (zst_finish put))"

lemma payload_puts:
  assumes "unat (zw_written w) + length bufs \<le> unat (zw_expected w)"
  shows "write_payload_blocks put w bufs = bindR (puts put (zw_out w) bufs) (\<lambda>out. Inr (w\<lparr>zw_out := out,
    zw_cursor := zw_cursor w + word_of_nat (length (concat bufs)), zw_written := zw_written w + word_of_nat (length bufs)\<rparr>))"
  using assms
proof (induction bufs arbitrary: w)
  case (Cons b bufs)
  have lt: "\<not> zw_expected w \<le> zw_written w" using Cons.prems by (simp add: word_le_nat_alt)
  have "unat (zw_written w) + 1 < 18446744073709551616"
    using Cons.prems unat_u64_lt [of "zw_expected w"] unfolding list.size by linarith
  then have one: "unat (zw_written w + 1) = unat (zw_written w) + 1" by (simp add: unat_add_u64)
  have "write_payload_blocks put w (b # bufs) = bindR (put (zw_out w) b) (\<lambda>out. write_payload_blocks put
      (w\<lparr>zw_out := out, zw_cursor := zw_cursor w + word_of_nat (length b), zw_written := zw_written w + 1\<rparr>) bufs)"
    using lt by (simp add: write_payload_block_def stream_block_def bindR_assoc)
  also have "\<dots> = bindR (put (zw_out w) b) (\<lambda>out. bindR (puts put out bufs) (\<lambda>out. Inr (w\<lparr>zw_out := out,
      zw_cursor := zw_cursor w + word_of_nat (length b) + word_of_nat (length (concat bufs)),
      zw_written := zw_written w + 1 + word_of_nat (length bufs)\<rparr>)))"
    using Cons.prems one by (subst Cons.IH) simp_all
  finally show ?case by (simp add: bindR_assoc algebra_simps)
qed simp

lemma finish_puts:
  assumes "zw_written w = zw_expected w" and "zw_cursor w = ly_bat_offset (zw_layout w)"
    and "bat_region_buf (zw_bat w) (ly_bat_length (zw_layout w)) = Inr buf"
  shows "zst_finish put w = puts put (zw_out w) [buf]"
  using assms by (cases "put (zw_out w) buf") (simp_all add: zst_finish_def pad_to_def stream_block_def)

lemma length_concat_blocks: "\<forall>b\<in>set bufs. length b = n \<Longrightarrow> length (concat bufs) = length bufs * n"
  by (induction bufs) simp_all

lemma session_puts:
  assumes E: "uuid_laws E" and p: "params_ok E p" and nz: "unat nz \<le> unat (lay_count p)"
  defines "L \<equiv> Layout_compute p nz (lay_total p)"
  assumes tab: "RegionTable_encode E (zst_regions L) = Inr tab" "length tab = 65536"
    and mb: "Metadata_encode E (writer_metadata p) MIB = Inr mb" "length mb = 1048576"
    and bufs: "length bufs = unat nz" "\<forall>b\<in>set bufs. length b = unat (wp_block_size p)"
    and buf: "bat_region_buf b (lay_bat_length p) = Inr buf"
  shows "\<exists>ps. concat ps = zst_head E p tab mb @ concat bufs @ buf \<and> (\<forall>out. zst_session E put out p b L bufs = puts put out ps)"
proof -
  note ly = zst_layout [OF p nz, folded L_def]
  obtain ps where ps: "concat ps = zst_head E p tab mb" "\<And>out. ZstStreamWriter_begin E put out p b L =
    bindR (puts put out ps) (\<lambda>out. Inr \<lparr>zw_out = out, zw_cursor = lay_bat_offset p, zw_layout = L, zw_bat = b,
      zw_expected = nz, zw_written = 0\<rparr>)"
    using begin_puts [OF E p nz tab [unfolded L_def] mb, folded L_def] by blast
  have "length (concat bufs) = unat nz * unat (wp_block_size p)"
    unfolding bufs(1) [symmetric] using bufs(2) by (rule length_concat_blocks)
  then have len: "unat (lay_bat_offset p) + length (concat bufs) = unat (ly_bat_offset L)" using ly(10) by simp
  then have "length (concat bufs) < 18446744073709551616" using unat_u64_lt [of "ly_bat_offset L"] by linarith
  then have "unat (word_of_nat (length (concat bufs)) :: u64) = length (concat bufs)" by (rule unat_of_nat_u64)
  then have "unat (lay_bat_offset p + word_of_nat (length (concat bufs))) = unat (ly_bat_offset L)"
    using len unat_u64_lt [of "ly_bat_offset L"] by (subst unat_add_u64) simp_all
  then have cur: "lay_bat_offset p + word_of_nat (length (concat bufs)) = ly_bat_offset L"
    by (simp add: word_unat_eq_iff)
  have "zst_session E put out p b L bufs = puts put out (ps @ bufs @ [buf])" for out
  proof -
    let ?w = "\<lambda>out. \<lparr>zw_out = out, zw_cursor = lay_bat_offset p, zw_layout = L, zw_bat = b, zw_expected = nz, zw_written = 0\<rparr>"
    have "bindR (write_payload_blocks put (?w out) bufs) (zst_finish put) = puts put out (bufs @ [buf])" for out
    proof -
      have "bindR (write_payload_blocks put (?w out) bufs) (zst_finish put) = bindR (puts put out bufs) (\<lambda>out. zst_finish put
          ((?w out)\<lparr>zw_cursor := ly_bat_offset L, zw_written := nz\<rparr>))"
        using bufs(1) by (subst payload_puts) (simp_all add: bindR_assoc cur)
      also have "\<dots> = bindR (puts put out bufs) (\<lambda>out. puts put out [buf])"
        using buf by (subst finish_puts) (simp_all add: ly(8))
      finally show ?thesis by (simp only: puts_append)
    qed
    then show ?thesis by (simp add: zst_session_def ps(2) bindR_assoc puts_append)
  qed
  then show ?thesis using ps(1) by (intro exI [of _ "ps @ bufs @ [buf]"]) simp
qed
section \<open>The table\<close>

text \<open>The number of payload blocks before block \<open>k\<close>.\<close>

definition rank :: "bool list \<Rightarrow> nat \<Rightarrow> nat" where
  "rank flags k = length (filter Not (take k flags))"

lemma rank_simps [simp]: "rank flags 0 = 0" "rank (z # flags) (Suc k) = (if z then rank flags k else Suc (rank flags k))"
  by (simp_all add: rank_def)

lemma rank_less: "k < length flags \<Longrightarrow> \<not> flags ! k \<Longrightarrow> rank flags k < length (filter Not flags)"
proof (induction flags arbitrary: k)
  case (Cons z flags)
  then show ?case by (cases k) auto
qed simp

definition placed :: "u64 \<Rightarrow> u64 \<Rightarrow> bool list \<Rightarrow> u64 \<Rightarrow> nat \<Rightarrow> bat_entry" where
  "placed start bs flags seq k =
    (if flags ! k then BatEntry_new PAYLOAD_BLOCK_ZERO 0
     else BatEntry_new PAYLOAD_BLOCK_FULLY_PRESENT (start + (seq + word_of_nat (rank flags k)) * bs))"

lemma placed_Cons: "placed start bs (z # flags) seq (Suc j) = placed start bs flags (if z then seq else seq + 1) j"
  by (simp add: placed_def algebra_simps)

lemma place_blocks_ok:
  assumes "table_ok cr n len b" and "unat blk + length flags \<le> unat n"
  shows "\<exists>b'. place_blocks start bs flags blk seq b = Inr (b', seq + word_of_nat (length (filter Not flags))) \<and>
    table_ok cr n len b' \<and>
    (\<forall>k. entry_of b' k = (if unat blk \<le> k \<and> k < unat blk + length flags then placed start bs flags seq (k - unat blk)
      else entry_of b k))"
  using assms
proof (induction flags arbitrary: blk seq b)
  case Nil
  then show ?case by auto
next
  case (Cons z flags)
  have blk: "unat blk < unat n" using Cons.prems(2) by simp
  then have "unat blk + 1 < 18446744073709551616" using unat_u64_lt [of n] by linarith
  then have blk1: "unat (blk + 1) = unat blk + 1" by (simp add: unat_add_u64)
  let ?e = "if z then BatEntry_new PAYLOAD_BLOCK_ZERO 0 else BatEntry_new PAYLOAD_BLOCK_FULLY_PRESENT (start + seq * bs)"
  let ?seq = "if z then seq else seq + 1"
  obtain b1 where b1: "set_payload_entry b blk ?e = Inr b1" "table_ok cr n len b1"
      "\<And>k. entry_of b1 k = (if k = unat blk then ?e else entry_of b k)"
    using entry_of_payload(2) [OF Cons.prems(1) blk, of ?e] by blast
  have "unat (blk + 1) + length flags \<le> unat n" using Cons.prems(2) blk1 by simp
  from Cons.IH [OF b1(2) this, of ?seq] obtain b2 where b2:
      "place_blocks start bs flags (blk + 1) ?seq b1 = Inr (b2, ?seq + word_of_nat (length (filter Not flags)))"
      "table_ok cr n len b2"
      "\<And>k. entry_of b2 k = (if unat (blk + 1) \<le> k \<and> k < unat (blk + 1) + length flags
        then placed start bs flags ?seq (k - unat (blk + 1)) else entry_of b1 k)"
    by blast
  have "place_blocks start bs (z # flags) blk seq b = Inr (b2, seq + word_of_nat (length (filter Not (z # flags))))"
    using b1(1) b2(1) by (cases z) (simp_all add: algebra_simps)
  moreover have "entry_of b2 k = (if unat blk \<le> k \<and> k < unat blk + length (z # flags)
      then placed start bs (z # flags) seq (k - unat blk) else entry_of b k)" for k
  proof -
    consider "k = unat blk" | j where "k = unat blk + Suc j" | "k < unat blk"
      by (metis add_Suc_right less_imp_Suc_add linorder_neqE_nat)
    then show ?thesis
    proof cases
      case 2
      then show ?thesis by (simp add: b2(3) b1(3) blk1 placed_Cons)
    qed (simp_all add: b2(3) b1(3) blk1 placed_def)
  qed
  ultimately show ?case using b2(2) by blast
qed

lemma build_bat_ok:
  assumes p: "params_ok E p" and flags: "length flags = unat (lay_count p)"
  shows "\<exists>b. build_bat_for_layout (lay_count p) (lay_ratio p) (wp_parent_locator p \<noteq> None) start bs flags =
      Inr (b, word_of_nat (length (filter Not flags))) \<and>
    table_ok (lay_ratio p) (lay_count p) (lay_total p) b \<and>
    (\<forall>k < unat (lay_count p). entry_of b k = placed start bs flags 0 k)"
proof -
  have "has_payload (blank_bat p) k" if "unat k < unat (lay_count p)" for k
  proof -
    have "unat k < 2 ^ 62" using that lay_count_ratio(1) [OF p] by simp
    then show ?thesis
      using lay_total_le(2) [OF p that] lay_count_ratio(4) [OF p] by (simp add: has_payload_def blank_bat_def)
  qed
  then have t: "table_ok (lay_ratio p) (lay_count p) (lay_total p) (blank_bat p)"
    by (simp add: table_ok_def blank_bat_def)
  obtain b where b: "place_blocks start bs flags 0 0 (blank_bat p) = Inr (b, 0 + word_of_nat (length (filter Not flags)))"
      "table_ok (lay_ratio p) (lay_count p) (lay_total p) b"
      "\<And>k. entry_of b k = (if unat (0 :: u64) \<le> k \<and> k < unat (0 :: u64) + length flags
        then placed start bs flags 0 (k - unat (0 :: u64)) else entry_of (blank_bat p) k)"
    using place_blocks_ok [OF t, of 0 flags start bs 0] flags by auto
  then show ?thesis
    using flags lay_count_ratio(7) [OF p] unfolding build_bat_for_layout_def
    by (intro exI [of _ b]) (simp add: blank_bat_def)
qed
section \<open>The image\<close>

lemma zst_regions_layout:
  assumes p: "params_ok E p" and nz: "unat nz \<le> unat (lay_count p)"
  defines "L \<equiv> Layout_compute p nz (lay_total p)"
  defines "rt \<equiv> (zst_regions L)\<lparr>rt_checksum_ok := True\<rparr>"
  shows "validate_layout rt = Inr ()"
    and "\<exists>e. RegionTable_bat rt = Some e \<and> re_file_offset e = ly_bat_offset L \<and>
      unat (re_length e) = unat (lay_bat_length p)"
    and "\<exists>e. RegionTable_metadata rt = Some e \<and> re_file_offset e = lay_metadata_offset p \<and>
      unat (re_length e) = 1048576"
proof -
  note lay = lay_bounds [OF p] and ly = zst_layout [OF p nz, folded L_def]
  have len: "unat (ucast (lay_bat_length p) :: u32) = unat (lay_bat_length p)"
    using lay(9) by (simp add: unsigned_ucast_eq take_bit_nat_eq_self)
  then have rt32: "(ucast (ucast (lay_bat_length p) :: u32) :: u64) = lay_bat_length p"
    by (simp add: word_unat_eq_iff)
  have mib: "(ucast (ucast MIB :: u32) :: u64) = MIB" "unat (ucast MIB :: u32) = 1048576"
    by (simp_all add: offset_defs)
  have "unat (lay_metadata_offset p + MIB) = unat (lay_bat_offset p)"
    using lay(3,4) by (simp add: unat_add_u64)
  then have m: "lay_metadata_offset p + MIB = lay_bat_offset p" by (simp add: word_unat_eq_iff)
  have "unat (lay_metadata_offset p) < unat (ly_bat_offset L)" "unat (lay_bat_offset p) \<le> unat (ly_bat_offset L)"
    using lay(4) ly(10) by simp_all
  then have le: "(lay_metadata_offset p, lay_bat_offset p) \<le>
      (ly_bat_offset L, ly_bat_offset L + lay_bat_length p)" and b: "\<not> ly_bat_offset L < lay_bat_offset p"
    by (simp_all add: less_eq_prod_def word_less_nat_alt)
  have al: "x mod 1048576 = 0" if "unat x mod 1048576 = 0" for x :: u64
    using that by (simp add: unat_mod flip: unat_eq_zero)
  have "MIB mod 1048576 = 0" by (rule al) simp
  then show "validate_layout rt = Inr ()"
    using le b al lay(1,6) ly(11)
    by (simp add: rt_def validate_layout_def zst_regions_def ly(5,6,8) rt32 mib m Let_def)
  show "\<exists>e. RegionTable_bat rt = Some e \<and> re_file_offset e = ly_bat_offset L \<and>
      unat (re_length e) = unat (lay_bat_length p)"
    by (simp add: rt_def zst_regions_def RegionTable_bat_def RegionTable_find_def len ly(8)
        REGION_GUID_BAT_def REGION_GUID_METADATA_def)
  show "\<exists>e. RegionTable_metadata rt = Some e \<and> re_file_offset e = lay_metadata_offset p \<and>
      unat (re_length e) = 1048576"
    by (simp add: rt_def zst_regions_def RegionTable_metadata_def RegionTable_find_def mib ly(5,6))
qed

text \<open>The file that holds given bytes.\<close>

definition file_of :: "bytes \<Rightarrow> dfile" where
  "file_of bs = \<lparr>f_data = (\<lambda>i. if i < length bs then bs ! i else 0), f_len = length bs, f_max = length bs\<rparr>"

lemma file_of_slice:
  assumes "bs = xs @ ys @ zs" and "length xs = off" and "length ys = n"
  shows "file_bytes (file_of bs) off n = ys"
  using assms by (intro nth_equalityI) (auto simp: nth_file_bytes file_of_def nth_append)

lemma f_len_file_of [simp]: "f_len (file_of bs) = length bs"
  by (simp add: file_of_def)

lemma concat_block:
  assumes "\<forall>b\<in>set bufs. length b = n" and "j < length bufs"
  shows "concat bufs = concat (take j bufs) @ bufs ! j @ concat (drop (Suc j) bufs)"
    and "length (concat (take j bufs)) = j * n"
proof -
  show "concat bufs = concat (take j bufs) @ bufs ! j @ concat (drop (Suc j) bufs)"
    using id_take_nth_drop [OF assms(2)] by (metis concat.simps(2) concat_append)
  have "\<forall>b\<in>set (take j bufs). length b = n" using assms(1) by (meson in_set_takeD)
  then show "length (concat (take j bufs)) = j * n"
    using length_concat_blocks [of "take j bufs" n] assms(2) by simp
qed

lemma zst_image_parts:
  fixes payload buf :: bytes
  assumes E: "uuid_laws E" and p: "params_ok E p" and tab: "length tab = 65536" and mb: "length mb = 1048576"
  defines "o1 \<equiv> unat (lay_metadata_offset p) + 1048576"
  defines "img \<equiv> zst_head E p tab mb @ payload @ buf"
  shows "length img = o1 + length payload + length buf"
    and "file_bytes (file_of img) 0 8 = FILE_TYPE_SIGNATURE"
    and "file_bytes (file_of img) 65536 65536 = Header_encode E (writer_header p MIB 1)"
    and "file_bytes (file_of img) 131072 65536 = Header_encode E (writer_header p MIB 2)"
    and "file_bytes (file_of img) 196608 65536 = tab" and "file_bytes (file_of img) 262144 65536 = tab"
    and "file_bytes (file_of img) (unat (lay_metadata_offset p)) 1048576 = mb"
    and "file_bytes (file_of img) o1 (length payload) = payload"
    and "file_bytes (file_of img) (o1 + length payload) (length buf) = buf"
proof -
  let ?z = "replicate 720896 0 @ replicate (unat (lay_metadata_offset p) - 1048576) (0 :: u8)"
  let ?h1 = "Header_encode E (writer_header p MIB 1)" and ?h2 = "Header_encode E (writer_header p MIB 2)"
  define fti where "fti = bput 0 FILE_TYPE_SIGNATURE (replicate 65536 0)"
  have fti: "length fti = 65536" "fti = FILE_TYPE_SIGNATURE @ drop 8 fti" "length (FILE_TYPE_SIGNATURE) = 8"
    by (simp_all add: fti_def length_put bput_def)
  have h: "length ?h1 = 65536" "length ?h2 = 65536" using E by simp_all
  have mo: "1048576 \<le> unat (lay_metadata_offset p)" using lay_bounds(2) [OF p] by simp
  have img: "img = fti @ ?h1 @ ?h2 @ tab @ tab @ ?z @ mb @ payload @ buf"
    by (simp add: img_def zst_head_def fti_def)
  note lens = fti(1) h tab mb o1_def
  have part: "file_bytes (file_of img) off n = ys" if "img = xs @ ys @ zs" "length xs = off" "length ys = n" for xs ys zs off n
    using file_of_slice [OF that] .
  show "length img = o1 + length payload + length buf" using mo by (simp add: img lens)
  show "file_bytes (file_of img) 0 8 = FILE_TYPE_SIGNATURE"
    by (rule part [of "[]" _ "drop 8 fti @ ?h1 @ ?h2 @ tab @ tab @ ?z @ mb @ payload @ buf"])
      (use fti(2,3) img in \<open>simp_all flip: append_assoc\<close>)
  show "file_bytes (file_of img) 65536 65536 = ?h1" by (rule part [of fti]) (simp_all add: img lens)
  show "file_bytes (file_of img) 131072 65536 = ?h2" by (rule part [of "fti @ ?h1"]) (simp_all add: img lens)
  show "file_bytes (file_of img) 196608 65536 = tab" by (rule part [of "fti @ ?h1 @ ?h2"]) (simp_all add: img lens)
  show "file_bytes (file_of img) 262144 65536 = tab" by (rule part [of "fti @ ?h1 @ ?h2 @ tab"]) (simp_all add: img lens)
  show "file_bytes (file_of img) (unat (lay_metadata_offset p)) 1048576 = mb"
    by (rule part [of "fti @ ?h1 @ ?h2 @ tab @ tab @ ?z"]) (use mo in \<open>simp_all add: img lens\<close>)
  show "file_bytes (file_of img) o1 (length payload) = payload"
    by (rule part [of "fti @ ?h1 @ ?h2 @ tab @ tab @ ?z @ mb"]) (use mo in \<open>simp_all add: img lens\<close>)
  show "file_bytes (file_of img) (o1 + length payload) (length buf) = buf"
    by (rule part [of "fti @ ?h1 @ ?h2 @ tab @ tab @ ?z @ mb @ payload" _ "[]"]) (use mo in \<open>simp_all add: img lens\<close>)
qed

lemma zst_image_open:
  assumes E: "uuid_laws E" and p: "params_ok E p" and nz: "unat nz \<le> unat (lay_count p)"
  defines "L \<equiv> Layout_compute p nz (lay_total p)"
  assumes tab: "RegionTable_encode E (zst_regions L) = Inr tab" "length tab = 65536"
    and mb: "Metadata_encode E (writer_metadata p) MIB = Inr mb" "length mb = 1048576"
    and payload: "length payload = unat nz * unat (wp_block_size p)"
    and t: "bat_chunk_ratio b = lay_ratio p" "bat_block_count b = lay_count p" "length (bat_entries b) = lay_total p"
    and buf: "bat_region_buf b (lay_bat_length p) = Inr buf"
  defines "img \<equiv> zst_head E p tab mb @ payload @ buf"
  shows "length img = unat (ly_total_size L)"
    and "file_bytes (file_of img) (unat (lay_bat_offset p)) (length payload) = payload"
    and "\<exists>d. VhdxDisk_open E pth (Some (file_of img)) ro = Inr (d, file_of img) \<and> vd_metadata d = writer_metadata p \<and>
      vd_bat d = b \<and> data_write_guid (active_header d) = wp_data_write_guid p"
proof -
  note lay = lay_bounds [OF p] and ly = zst_layout [OF p nz, folded L_def]
  let ?mo = "unat (lay_metadata_offset p)" and ?bo = "unat (ly_bat_offset L)"
  note P = zst_image_parts [OF E p tab(2) mb(2), where payload = payload and buf = buf, folded img_def]
  have mo: "1048576 \<le> ?mo" using lay(2) by simp
  have tb: "buf = Bat_encode b @ replicate (unat (lay_bat_length p) - lay_total p * 8) 0"
    using bat_region_buf_ok [OF p t(3)] buf by simp
  then have lb: "length buf = unat (lay_bat_length p)" using lay(8) t(3) by simp
  have bo: "?bo = ?mo + 1048576 + length payload" using ly(10) lay(4) payload by simp
  show len: "length img = unat (ly_total_size L)" unfolding ly(12) bo using P(1) by (simp add: lb)
  show "file_bytes (file_of img) (unat (lay_bat_offset p)) (length payload) = payload"
    using P(8) unfolding lay(4) .
  have bt: "file_bytes (file_of img) ?bo (unat (lay_bat_length p)) = Bat_encode b @ replicate (unat (lay_bat_length p) - lay_total p * 8) 0"
    using P(9) unfolding bo lb tb [symmetric] .
  obtain be me where e: "RegionTable_bat ((zst_regions L)\<lparr>rt_checksum_ok := True\<rparr>) = Some be"
      "re_file_offset be = ly_bat_offset L" "unat (re_length be) = unat (lay_bat_length p)"
      "RegionTable_metadata ((zst_regions L)\<lparr>rt_checksum_ok := True\<rparr>) = Some me"
      "re_file_offset me = lay_metadata_offset p" "unat (re_length me) = 1048576"
    using zst_regions_layout(2,3) [OF p nz] unfolding L_def by blast
  have fits: "?bo + unat (lay_bat_length p) \<le> length img" "?mo + 1048576 \<le> length img" "327680 \<le> length img"
      "length img < 2 ^ 63"
    using len ly(12,13) bo mo by simp_all
  have "length (rt_entries (zst_regions L)) \<le> 2047" by (simp add: zst_regions_def)
  then show "\<exists>d. VhdxDisk_open E pth (Some (file_of img)) ro = Inr (d, file_of img) \<and> vd_metadata d = writer_metadata p \<and>
      vd_bat d = b \<and> data_write_guid (active_header d) = wp_data_write_guid p"
    using P(2-7) fits mb(1) bt
    by (intro open_image [OF E p _ _ _ _ _ tab(1) _ _ _ zst_regions_layout(1) [OF p nz, folded L_def]
          e(1) _ e(4,6) _ _ t(1-3)]) (simp_all add: e(2,3,5))
qed
lemma placed_content:
  assumes p: "params_ok E p" and bufs: "\<forall>b\<in>set bufs. length b = unat (wp_block_size p)" "length bufs = length (filter Not flags)"
    and flags: "length flags = unat (lay_count p)" and k: "k < length flags"
    and f: "file_bytes f (unat (lay_bat_offset p)) (length (concat bufs)) = concat bufs"
      "unat (lay_bat_offset p) + length (concat bufs) \<le> f_len f"
  defines "e \<equiv> placed (lay_bat_offset p) (ucast (wp_block_size p)) flags 0 k"
  shows "block_content (unat (wp_block_size p)) f e =
      Some (Full (if flags ! k then replicate (unat (wp_block_size p)) 0 else bufs ! rank flags k))"
    and "is_present e \<Longrightarrow> off_of e + unat (wp_block_size p) \<le> f_len f"
proof -
  let ?bs = "unat (wp_block_size p)" and ?start = "unat (lay_bat_offset p)" and ?r = "rank flags k"
  note lay = lay_bounds [OF p]
  have bs: "?bs mod 1048576 = 0" "?bs \<le> 268435456" using p by (simp_all add: params_ok_def)
  have "block_content ?bs f e = Some (Full (if flags ! k then replicate ?bs 0 else bufs ! ?r)) \<and>
      (is_present e \<longrightarrow> off_of e + ?bs \<le> f_len f)"
  proof (cases "flags ! k")
    case True
    then show ?thesis
      by (simp add: e_def placed_def block_content_def entry_state_new PayloadState_from_raw_def block_state_defs)
  next
    case False
    have r: "?r < length bufs" using rank_less [OF k False] bufs(2) by simp
    have "length bufs \<le> length flags" using bufs(2) length_filter_le [of Not flags] by simp
    then have small: "?r < 67108864" using r flags lay_count_ratio(1) [OF p] by linarith
    have prod: "?r * ?bs \<le> 67108864 * 268435456" using small bs(2) by (intro mult_le_mono) simp_all
    let ?off = "lay_bat_offset p + (0 + word_of_nat ?r) * ucast (wp_block_size p)"
    have m: "unat ((0 + word_of_nat ?r) * ucast (wp_block_size p) :: u64) = ?r * ?bs"
      using prod small by (subst unat_mult_u64) (simp_all add: unat_of_nat_u64)
    have off: "unat ?off = ?start + ?r * ?bs"
      using m prod lay(3,4) by (subst unat_add_u64) simp_all
    have al: "unat ?off mod 1048576 = 0"
      unfolding off using lay(11) bs(1) by (metis add_0 mod_0 mod_add_eq mod_mult_right_eq mult_0_right)
    note c = concat_block [OF bufs(1) r]
    have len: "length (bufs ! ?r) = ?bs" using bufs(1) r by simp
    have fit: "?r * ?bs + ?bs \<le> length (concat bufs)"
      using mult_le_mono1 [of "Suc ?r" "length bufs" ?bs] r length_concat_blocks [OF bufs(1)] by simp
    have "file_bytes f (?start + ?r * ?bs) ?bs = bufs ! ?r"
    proof (rule nth_equalityI)
      fix i assume i: "i < length (file_bytes f (?start + ?r * ?bs) ?bs)"
      then have i: "i < ?bs" by simp
      have "f_data f (?start + (?r * ?bs + i)) = concat bufs ! (?r * ?bs + i)"
        using nth_file_bytes [of "?r * ?bs + i" "length (concat bufs)" f ?start] f(1) fit i by simp
      also have "\<dots> = bufs ! ?r ! i"
        using i len by (subst c(1)) (simp add: nth_append c(2))
      finally show "file_bytes f (?start + ?r * ?bs) ?bs ! i = bufs ! ?r ! i"
        using i by (simp add: nth_file_bytes add.assoc)
    qed (simp add: len)
    moreover have e: "e = BatEntry_new PAYLOAD_BLOCK_FULLY_PRESENT ?off" using False by (simp add: e_def placed_def)
    ultimately show ?thesis
      using new_present [OF al] False fit f(2) unfolding e block_content_def by (simp only: off) simp
  qed
  then show "block_content ?bs f e = Some (Full (if flags ! k then replicate ?bs 0 else bufs ! ?r))"
    "is_present e \<Longrightarrow> off_of e + ?bs \<le> f_len f" by blast+
qed
lemma zst_stream_ok:
  fixes put :: "'s put"
  assumes E: "uuid_laws E" and p: "params_ok E p" and flags: "length flags = unat (lay_count p)"
    and bufs: "\<forall>b\<in>set bufs. length b = unat (wp_block_size p)" "length bufs = length (filter Not flags)"
  defines "nz \<equiv> word_of_nat (length bufs)"
  defines "L \<equiv> Layout_compute p nz (lay_total p)"
  shows "\<exists>b img ps. build_bat_for_layout (lay_count p) (lay_ratio p) (wp_parent_locator p \<noteq> None)
      (ly_payload_start L) (ly_block_size L) flags = Inr (b, nz) \<and>
    concat ps = img \<and> (\<forall>out. zst_session E put out p b L bufs = puts put out ps) \<and>
    length img = unat (ly_total_size L) \<and>
    (\<forall>q ro. \<exists>d. VhdxDisk_open E q (Some (file_of img)) ro = Inr (d, file_of img) \<and> vd_metadata d = writer_metadata p \<and>
      data_write_guid (active_header d) = wp_data_write_guid p \<and>
      (\<forall>k. unat k < unat (lay_count p) \<longrightarrow> read_block d (file_of img) k =
        Inr (Full (if flags ! unat k then replicate (unat (wp_block_size p)) 0 else bufs ! rank flags (unat k)))))"
proof -
  let ?bs = "unat (wp_block_size p)"
  have le: "length bufs \<le> unat (lay_count p)" using bufs(2) flags length_filter_le [of Not flags] by simp
  then have "length bufs < 18446744073709551616" using unat_u64_lt [of "lay_count p"] by linarith
  then have n: "unat nz = length bufs" unfolding nz_def by (rule unat_of_nat_u64)
  have nz: "unat nz \<le> unat (lay_count p)" using le n by simp
  note ly = zst_layout [OF p nz, folded L_def]
  obtain b where b: "build_bat_for_layout (lay_count p) (lay_ratio p) (wp_parent_locator p \<noteq> None)
      (lay_bat_offset p) (ucast (wp_block_size p)) flags = Inr (b, nz)"
      "table_ok (lay_ratio p) (lay_count p) (lay_total p) b"
      "\<forall>k < unat (lay_count p). entry_of b k = placed (lay_bat_offset p) (ucast (wp_block_size p)) flags 0 k"
    using build_bat_ok [OF p flags] unfolding nz_def bufs(2) by blast
  have t: "bat_chunk_ratio b = lay_ratio p" "bat_block_count b = lay_count p" "length (bat_entries b) = lay_total p"
    using b(2) by (simp_all add: table_ok_def)
  obtain tab where tab: "RegionTable_encode E (zst_regions L) = Inr tab" "length tab = 65536"
    using region_table_roundtrip_parse [OF E, of "zst_regions L"] by (auto simp: zst_regions_def)
  obtain mb where mb: "Metadata_encode E (writer_metadata p) MIB = Inr mb" "length mb = 1048576"
    using writer_metadata_encode [OF E p] by blast
  obtain buf where buf: "bat_region_buf b (lay_bat_length p) = Inr buf"
    using bat_region_buf_ok [OF p t(3)] by blast
  define img where "img = zst_head E p tab mb @ concat bufs @ buf"
  obtain ps where ps: "concat ps = img" "\<forall>out. zst_session E put out p b L bufs = puts put out ps"
    using session_puts [OF E p nz tab [unfolded L_def] mb n [symmetric] bufs(1) buf, folded L_def] unfolding img_def by blast
  have pl: "length (concat bufs) = unat nz * ?bs"
    unfolding n using length_concat_blocks [OF bufs(1)] .
  note image = zst_image_open [OF E p nz tab [unfolded L_def] mb pl t buf, folded L_def img_def]
  have fit: "unat (lay_bat_offset p) + length (concat bufs) \<le> length img" "length img < 2 ^ 63"
    using image(1) pl ly(10,12,13) by simp_all
  have "\<exists>d. VhdxDisk_open E q (Some (file_of img)) ro = Inr (d, file_of img) \<and> vd_metadata d = writer_metadata p \<and>
      data_write_guid (active_header d) = wp_data_write_guid p \<and>
      (\<forall>k. unat k < unat (lay_count p) \<longrightarrow> read_block d (file_of img) k =
        Inr (Full (if flags ! unat k then replicate ?bs 0 else bufs ! rank flags (unat k))))" for q ro
  proof -
    obtain d where d: "VhdxDisk_open E q (Some (file_of img)) ro = Inr (d, file_of img)"
        "vd_metadata d = writer_metadata p" "vd_bat d = b" "data_write_guid (active_header d) = wp_data_write_guid p"
      using image(3) by blast
    have bs: "disk_block_size d = wp_block_size p" by (simp add: disk_block_size_def d(2) block_size_def writer_metadata_def)
    have "read_block d (file_of img) k =
        Inr (Full (if flags ! unat k then replicate ?bs 0 else bufs ! rank flags (unat k)))"
      if k: "unat k < unat (lay_count p)" for k
    proof -
      have kf: "unat k < length flags" using k flags by simp
      have e: "entry_of (vd_bat d) (unat k) = placed (lay_bat_offset p) (ucast (wp_block_size p)) flags 0 (unat k)"
        using b(3) k d(3) by simp
      have fl: "unat (lay_bat_offset p) + length (concat bufs) \<le> f_len (file_of img)" using fit(1) by simp
      note c = placed_content [OF p bufs flags kf image(2) fl, folded e]
      show ?thesis
        using c fit(2) b(2) k t
        by (intro read_block_content [OF open_wf(1) [OF d(1)], where len = "lay_total p"]) (simp_all add: d(3) bs)
    qed
    with d show ?thesis by blast
  qed
  then show ?thesis
    using b(1) ps image(1) by (intro exI [of _ b] exI [of _ img] exI [of _ ps]) (simp add: ly(1,7))
qed

text \<open>
  C9 (streamed image): for parameters of a usable size, one flag per block and one buffer
  of block size for each block that is not flagged as zero, the table is built, the session
  of begin, one write per buffer and finish succeeds on a \<open>Vec\<close>, the image has the length the
  layout announced, and a file that holds it opens as a disk with the metadata of the
  parameters, each flagged block reading as zeros and each other as its buffer.
\<close>

theorem streamed_image_reads_back:
  fixes p :: writer_params
  assumes "uuid_laws E" and "params_ok E p" and "length flags = unat (lay_count p)"
    and "\<forall>b\<in>set bufs. length b = unat (wp_block_size p)" and "length bufs = length (filter Not flags)"
  defines "L \<equiv> Layout_compute p (word_of_nat (length bufs)) (lay_total p)"
  shows "\<exists>b img. build_bat_for_layout (lay_count p) (lay_ratio p) (wp_parent_locator p \<noteq> None)
      (ly_payload_start L) (ly_block_size L) flags = Inr (b, word_of_nat (length bufs)) \<and>
    zst_session E vec_put [] p b L bufs = Inr img \<and> length img = unat (ly_total_size L) \<and>
    (\<forall>q ro. \<exists>d. VhdxDisk_open E q (Some (file_of img)) ro = Inr (d, file_of img) \<and> vd_metadata d = writer_metadata p \<and>
      (\<forall>k. unat k < unat (lay_count p) \<longrightarrow> read_block d (file_of img) k =
        Inr (Full (if flags ! unat k then replicate (unat (wp_block_size p)) 0 else bufs ! rank flags (unat k)))))"
proof -
  obtain b img ps where s: "build_bat_for_layout (lay_count p) (lay_ratio p) (wp_parent_locator p \<noteq> None)
      (ly_payload_start L) (ly_block_size L) flags = Inr (b, word_of_nat (length bufs))"
    "concat ps = img" "\<forall>out. zst_session E vec_put out p b L bufs = puts vec_put out ps"
    "length img = unat (ly_total_size L)"
    "\<forall>q ro. \<exists>d. VhdxDisk_open E q (Some (file_of img)) ro = Inr (d, file_of img) \<and> vd_metadata d = writer_metadata p \<and>
      data_write_guid (active_header d) = wp_data_write_guid p \<and>
      (\<forall>k. unat k < unat (lay_count p) \<longrightarrow> read_block d (file_of img) k =
        Inr (Full (if flags ! unat k then replicate (unat (wp_block_size p)) 0 else bufs ! rank flags (unat k))))"
    using zst_stream_ok [OF assms(1-5), of vec_put] unfolding L_def by blast
  have "zst_session E vec_put [] p b L bufs = Inr img" using s(2,3) by (simp add: vec_puts)
  then show ?thesis using s(1,4,5) by blast
qed

theorem streamed_image_reads_back_witness:
  "\<exists>b img d. zst_session ref_externs vec_put [] small_params b (Layout_compute small_params 1 3)
      [replicate 1048576 5] = Inr img \<and>
    VhdxDisk_open ref_externs ''a.vhdx'' (Some (file_of img)) False = Inr (d, file_of img) \<and>
    read_block d (file_of img) 0 = Inr (Full (replicate 1048576 0)) \<and>
    read_block d (file_of img) 1 = Inr (Full (replicate 1048576 5))"
proof -
  have tot: "lay_total small_params = 3"
    by (simp add: lay_total_def small_lay)
       (simp add: lay_ratio_def small_params_def nat_payload_index_def push_bit_eq_mult)
  have bs: "unat (wp_block_size small_params) = 1048576" by (simp add: small_params_def)
  obtain b img where s: "zst_session ref_externs vec_put [] small_params b (Layout_compute small_params 1 3)
      [replicate 1048576 5] = Inr img"
    "\<forall>q ro. \<exists>d. VhdxDisk_open ref_externs q (Some (file_of img)) ro = Inr (d, file_of img) \<and>
      vd_metadata d = writer_metadata small_params \<and> (\<forall>k. unat k < 3 \<longrightarrow> read_block d (file_of img) k =
        Inr (Full (if [True, False, True] ! unat k then replicate 1048576 0 else [replicate 1048576 5] ! rank [True, False, True] (unat k))))"
    using streamed_image_reads_back [OF ref_uuid_laws small_params_ok, of "[True, False, True]" "[replicate 1048576 5]"]
    unfolding bs tot small_lay by auto
  obtain d where d: "VhdxDisk_open ref_externs ''a.vhdx'' (Some (file_of img)) False = Inr (d, file_of img)"
      "\<forall>k. unat k < 3 \<longrightarrow> read_block d (file_of img) k =
        Inr (Full (if [True, False, True] ! unat k then replicate 1048576 0 else [replicate 1048576 5] ! rank [True, False, True] (unat k)))"
    using s(2) by blast
  have "read_block d (file_of img) 0 = Inr (Full (replicate 1048576 0))"
    "read_block d (file_of img) 1 = Inr (Full (replicate 1048576 5))"
    using d(2) [rule_format, of 0] d(2) [rule_format, of 1] by (simp_all add: rank_def)
  then show ?thesis using s(1) d(1) by blast
qed

lemma payload_blocks_count:
  assumes "write_payload_blocks put w bufs = Inr w'" and "unat (zw_written w) \<le> unat (zw_expected w)"
  shows "zw_expected w' = zw_expected w \<and> unat (zw_written w') = unat (zw_written w) + length bufs \<and>
    unat (zw_written w') \<le> unat (zw_expected w)"
  using assms
proof (induction bufs arbitrary: w)
  case (Cons b bufs)
  then obtain w1 where w1: "write_payload_block put w b = Inr w1" "write_payload_blocks put w1 bufs = Inr w'"
    by (auto simp: bindR_eq_Inr)
  then have lt: "unat (zw_written w) < unat (zw_expected w)"
    by (auto simp: write_payload_block_def word_le_nat_alt split: if_splits)
  then have "unat (zw_written w) + 1 < 18446744073709551616"
    using unat_u64_lt [of "zw_expected w"] by linarith
  then have "unat (zw_written w + 1) = unat (zw_written w) + 1" by (simp add: unat_add_u64)
  then have "zw_expected w1 = zw_expected w" "unat (zw_written w1) = unat (zw_written w) + 1"
    using w1(1) by (auto simp: write_payload_block_def bindR_eq_Inr split: if_splits prod.splits)
  with Cons.IH [OF w1(2)] lt show ?case by simp
qed simp

text \<open>
  Payload count: whatever the stream and the layout, a session that succeeds has passed
  exactly the number of payload blocks the layout announced, so that the table, which was
  placed before the payload, is where the region table says; with any other number one of
  the writes or the finish fails.
\<close>

lemma session_count_enforced:
  assumes "zst_session E put out p b L bufs = Inr out'"
  shows "length bufs = unat (ly_non_zero_blocks L)"
proof -
  obtain w w' where w: "ZstStreamWriter_begin E put out p b L = Inr w" "write_payload_blocks put w bufs = Inr w'"
      "zst_finish put w' = Inr out'"
    using assms by (auto simp: zst_session_def bindR_eq_Inr)
  have "zw_written w = 0" "zw_expected w = ly_non_zero_blocks L"
    using w(1) by (auto simp: ZstStreamWriter_begin_def Let_def bindR_eq_Inr)
  moreover have "zw_written w' = zw_expected w'" using w(3) by (auto simp: zst_finish_def split: if_splits)
  ultimately show ?thesis using payload_blocks_count [OF w(2)] by simp
qed

theorem session_count_enforced_witness:
  "\<exists>b img. zst_session ref_externs vec_put [] small_params b (Layout_compute small_params 1 3) [replicate 1048576 5] = Inr img \<and>
    length [replicate 1048576 (5 :: u8)] = unat (ly_non_zero_blocks (Layout_compute small_params 1 3))"
proof -
  have tot: "lay_total small_params = 3"
    by (simp add: lay_total_def small_lay)
       (simp add: lay_ratio_def small_params_def nat_payload_index_def push_bit_eq_mult)
  have bs: "unat (wp_block_size small_params) = 1048576" by (simp add: small_params_def)
  obtain b ps where s: "\<forall>out. zst_session ref_externs vec_put out small_params b (Layout_compute small_params 1 3)
      [replicate 1048576 5] = puts vec_put out ps"
    using zst_stream_ok [OF ref_uuid_laws small_params_ok, of "[True, False, True]" "[replicate 1048576 5]" vec_put]
    unfolding bs tot small_lay by auto
  then have "zst_session ref_externs vec_put [] small_params b (Layout_compute small_params 1 3) [replicate 1048576 5] =
      Inr (concat ps)" by (simp add: vec_puts)
  with session_count_enforced [OF this] show ?thesis by blast
qed

end
