(* ===== verification/Vhdx_Tar.thy ===== *)
theory Vhdx_Tar
  imports Vhdx_Sink
begin

text \<open>
  \<open>tar_header.rs\<close>: the ustar header of the one entry of an archive, its end marker and the
  padding of entries.  \<open>tar_number\<close>, \<open>tar_name\<close> and \<open>tar_checksum_ok\<close> are the format as a
  reader of archives sees it: NUL-terminated octal numbers, or base 256 when the high bit
  of the first byte is set, and a checksum that counts its own field as spaces.
\<close>

section \<open>Octal formatting\<close>

definition TAR_BLOCK_SIZE :: nat where "TAR_BLOCK_SIZE = 512"
definition TAR_HEADER_SIZE :: nat where "TAR_HEADER_SIZE = TAR_BLOCK_SIZE"
definition TAR_EOF_SIZE :: nat where "TAR_EOF_SIZE = 2 * TAR_BLOCK_SIZE"
definition NAME_LEN :: nat where "NAME_LEN = 100"
definition MAX_OCTAL_SIZE :: u64 where "MAX_OCTAL_SIZE = 0x1FFFFFFFF"

text \<open>\<open>format!("{:o}")\<close>: the octal digits, at least one; \<open>fmt_octal w\<close> pads with zeros to \<open>w\<close>.\<close>

fun octal :: "nat \<Rightarrow> nat list" where
  "octal n = (if n < 8 then [n] else octal (n div 8) @ [n mod 8])"

declare octal.simps [simp del]

definition digit_bytes :: "nat list \<Rightarrow> bytes" where
  "digit_bytes ds = map (\<lambda>d. word_of_nat (48 + d)) ds"

definition fmt_octal :: "nat \<Rightarrow> nat \<Rightarrow> bytes" where
  "fmt_octal w n = replicate (w - length (octal n)) 48 @ digit_bytes (octal n)"

section \<open>Fields\<close>

text \<open>
  The new contents of a field of \<open>len\<close> bytes.  The first \<open>off\<close> bytes are filled with zeros,
  \<open>n\<close> digits follow, and the last byte is NUL.
\<close>

definition write_octal_field :: "nat \<Rightarrow> u64 \<Rightarrow> bytes" where
  "write_octal_field len value =
    (let width = len - 1; s = fmt_octal width (unat value);
         n = min (length s) width; off = width - n
     in replicate off 48 @ drop (length s - n) s @ [0])"

definition to_be_bytes :: "u64 \<Rightarrow> bytes" where
  "to_be_bytes x = rev (write_u64 x)"

definition write_size_field :: "u64 \<Rightarrow> bytes res" where
  "write_size_field sz =
    (if sz \<le> MAX_OCTAL_SIZE then
       let s = fmt_octal 11 (unat sz) in
       if length s \<noteq> 11 then Inl (Panic ''copy_from_slice: source slice length does not match'')
       else Inr (s @ [0])
     else Inr (0x80 # replicate 3 0 @ to_be_bytes sz))"

section \<open>The header\<close>

text \<open>The header up to the checksum, which is still eight spaces, in the order of the code.\<close>

definition ustar_fields :: "bytes \<Rightarrow> u64 \<Rightarrow> u64 \<Rightarrow> bytes res" where
  "ustar_fields name sz mtime =
    bindR (write_size_field sz) (\<lambda>size_field.
    let h = replicate TAR_HEADER_SIZE 0;
        h = bput 0 name h;
        h = bput 100 (write_octal_field 8 420) h;
        h = bput 108 (write_octal_field 8 0) h;
        h = bput 116 (write_octal_field 8 0) h;
        h = bput 124 size_field h;
        h = bput 136 (write_octal_field 12 mtime) h;
        h = bput 148 (replicate 8 32) h;
        h = bput 156 [48] h;
        h = bput 257 (ascii ''ustar'' @ [0]) h;
        h = bput 263 (ascii ''00'') h;
        h = bput 265 (ascii ''root'') h;
        h = bput 297 (ascii ''root'') h;
        h = bput 329 (write_octal_field 8 0) h;
        h = bput 337 (write_octal_field 8 0) h
    in Inr h)"

definition header_sum :: "bytes \<Rightarrow> u32" where
  "header_sum h = foldl (\<lambda>a b. a + ucast b) 0 h"

definition ustar_header :: "bytes \<Rightarrow> u64 \<Rightarrow> u64 \<Rightarrow> bytes res" where
  "ustar_header name sz mtime =
    (if length name > NAME_LEN then Inl (Unsupported ''tar entry filename longer than 100 bytes is not supported'')
     else
       bindR (ustar_fields name sz mtime) (\<lambda>h.
       let chk = fmt_octal 6 (unat (header_sum h)) in
       if length chk \<noteq> 6 then Inl (Panic ''copy_from_slice: source slice length does not match'')
       else Inr (bput 155 [32] (bput 154 [0] (bput 148 chk h)))))"

definition write_ustar_header :: "'s put \<Rightarrow> 's \<Rightarrow> bytes \<Rightarrow> u64 \<Rightarrow> u64 \<Rightarrow> 's res" where
  "write_ustar_header put out name sz mtime =
    bindR (ustar_header name sz mtime) (\<lambda>h. put out h)"

definition write_ustar_eof :: "'s put \<Rightarrow> 's \<Rightarrow> 's res" where
  "write_ustar_eof put out = put out (replicate TAR_EOF_SIZE 0)"

definition padding_to_block :: "u64 \<Rightarrow> u64" where
  "padding_to_block sz =
    (let r = sz mod word_of_nat TAR_BLOCK_SIZE in if r = 0 then 0 else word_of_nat TAR_BLOCK_SIZE - r)"

section \<open>What a reader of archives finds\<close>

definition octal_value :: "bytes \<Rightarrow> nat" where
  "octal_value bs = digits_val 8 (map (\<lambda>b. unat b - 48) (takeWhile (\<lambda>b. 48 \<le> b \<and> b < 56) bs))"

definition tar_number :: "bytes \<Rightarrow> nat" where
  "tar_number field =
    (case field of [] \<Rightarrow> 0
     | b # rest \<Rightarrow> if b = 0x80 then le_val (rev rest) else octal_value field)"

definition tar_name :: "bytes \<Rightarrow> bytes" where
  "tar_name h = takeWhile (\<lambda>b. b \<noteq> 0) (bslice h 0 100)"

definition tar_checksum_ok :: "bytes \<Rightarrow> bool" where
  "tar_checksum_ok h \<longleftrightarrow>
    octal_value (bslice h 148 156) = sum_list (map unat (bput 148 (replicate 8 32) h))"

text \<open>Octal formatting is fixed-width digits, padded or cut to the width of the field.\<close>

lemma octal_digits: "octal n = digits 8 (length (octal n)) n \<and> n < 8 ^ length (octal n) \<and> octal n \<noteq> []"
proof (induction n rule: octal.induct)
  case (1 n)
  show ?case
  proof (cases "n < 8")
    case True
    then show ?thesis by (simp add: octal.simps [of n])
  next
    case False
    have "n < 8 * 8 ^ length (octal (n div 8))"
      using "1.IH" [OF False] by (auto simp: less_mult_imp_div_less mult.commute div_less_iff_less_mult)
    with False "1.IH" show ?thesis by (subst (1 2 3 4) octal.simps) simp
  qed
qed

lemma drop_digits: "drop k (digits b (k + j) n) = digits b j n"
proof (induction j arbitrary: n)
  case (Suc j)
  then show ?case by simp
qed simp

lemma pad_digits: "n < b ^ j \<Longrightarrow> digits b (k + j) n = replicate k 0 @ digits b j n"
proof (induction j arbitrary: n)
  case 0
  have "digits b k 0 = replicate k 0" by (induction k) (simp_all add: replicate_append_same)
  with 0 show ?case by simp
next
  case (Suc j)
  then have "n div b < b ^ j" by (simp add: less_mult_imp_div_less mult.commute)
  with Suc.IH show ?case by simp
qed

lemma fmt_octal_digits:
  "fmt_octal w n = digit_bytes (digits 8 (max w (length (octal n))) n)"
proof -
  let ?l = "length (octal n)"
  have o: "octal n = digits 8 ?l n" "n < 8 ^ ?l" using octal_digits by blast+
  have "digits 8 ((w - ?l) + ?l) n = replicate (w - ?l) 0 @ digits 8 ?l n"
    by (rule pad_digits [OF o(2)])
  moreover have "(w - ?l) + ?l = max w ?l" by (simp add: max_def)
  ultimately show ?thesis
    using o(1) by (simp add: fmt_octal_def digit_bytes_def)
qed

lemma length_octal_le:
  assumes "n < 8 ^ w" and "0 < w"
  shows "length (octal n) \<le> w"
  using assms
proof (induction n arbitrary: w rule: octal.induct)
  case (1 n)
  show ?case
  proof (cases "n < 8")
    case True
    with "1.prems" show ?thesis by (simp add: octal.simps [of n])
  next
    case False
    then obtain v where w: "w = Suc v" "0 < v"
      using "1.prems" by (cases w; cases "w - 1") auto
    then have "n div 8 < 8 ^ v" using "1.prems"(1) by (simp add: less_mult_imp_div_less mult.commute)
    with False w "1.IH" show ?thesis by (subst octal.simps) simp
  qed
qed

lemma fmt_octal_fits: "n < 8 ^ w \<Longrightarrow> 0 < w \<Longrightarrow> fmt_octal w n = digit_bytes (digits 8 w n)"
  using length_octal_le [of n w] by (simp add: fmt_octal_digits max_def)

lemma write_octal_field_digits:
  "write_octal_field len v = digit_bytes (digits 8 (len - 1) (unat v)) @ [0]"
proof -
  define w l where "w = len - 1" and "l = length (octal (unat v))"
  have cut: "drop (max w l - w) (digits 8 (max w l) (unat v)) = digits 8 w (unat v)"
    using drop_digits [of "max w l - w" 8 w "unat v"] by simp
  have "fmt_octal w (unat v) = digit_bytes (digits 8 (max w l) (unat v))"
    by (simp only: fmt_octal_digits l_def)
  moreover have "length (digit_bytes ds) = length ds" for ds by (simp add: digit_bytes_def)
  moreover have "drop k (digit_bytes ds) = digit_bytes (drop k ds)" for k ds
    by (simp only: digit_bytes_def drop_map)
  moreover have "max w l - (max w l - w) = w" "min (max w l) w = w" by simp_all
  ultimately show ?thesis
    unfolding write_octal_field_def Let_def w_def [symmetric] by (simp add: cut)
qed

lemma octal_value_digits:
  "octal_value (digit_bytes (digits 8 k n) @ 0 # rest) = n mod 8 ^ k"
proof -
  have d: "unat (word_of_nat (48 + d) :: u8) = 48 + d" if "d < 8" for d
    using that by (simp add: unat_of_nat del: of_nat_add)
  have all: "48 \<le> b \<and> b < 56" if "b \<in> set (digit_bytes (digits 8 k n))" for b
  proof -
    from that obtain e where e: "e < 8" "b = word_of_nat (48 + e)"
      by (auto simp: digit_bytes_def dest: digits_bound [of 8, rotated])
    then show ?thesis using d [OF e(1)] by (simp add: word_le_nat_alt word_less_nat_alt)
  qed
  have "takeWhile (\<lambda>b. 48 \<le> b \<and> b < 56) (digit_bytes (digits 8 k n) @ 0 # rest) = digit_bytes (digits 8 k n)"
    using all by (subst takeWhile_append2) auto
  moreover have "map (\<lambda>b. unat b - 48) (digit_bytes (digits 8 k n)) = digits 8 k n"
  proof -
    have "map (\<lambda>b. unat b - 48) (digit_bytes ds) = ds" if "\<forall>d\<in>set ds. d < 8" for ds
      using that by (induction ds) (simp_all add: digit_bytes_def d del: of_nat_add)
    then show ?thesis using digits_bound [of 8 _ k n] by simp
  qed
  ultimately show ?thesis by (simp add: octal_value_def digits_val_digits)
qed

lemma length_digit_bytes [simp]: "length (digit_bytes ds) = length ds"
  by (simp add: digit_bytes_def)

lemma length_write_octal_field [simp]: "0 < len \<Longrightarrow> length (write_octal_field len v) = len"
  by (simp add: write_octal_field_digits)

lemma digit_bytes_hd:
  assumes "0 < k"
  obtains b bs where "digit_bytes (digits 8 k n) = b # bs" and "b \<noteq> 0x80"
proof -
  have "digits 8 k n \<noteq> []" using assms by (metis length_digits less_numeral_extra(3) list.size(3))
  then obtain d ds where ds: "digits 8 k n = d # ds" by (cases "digits 8 k n") auto
  then have "d < 8" using digits_bound [of 8 d k n] by simp
  then have "unat (word_of_nat (48 + d) :: u8) = 48 + d" by (simp add: unat_of_nat del: of_nat_add)
  then have "unat (word_of_nat (48 + d) :: u8) \<noteq> unat (0x80 :: u8)"
    using \<open>d < 8\<close> by (simp del: of_nat_add)
  then have "(word_of_nat (48 + d) :: u8) \<noteq> 0x80" by metis
  with ds show ?thesis by (intro that) (simp_all add: digit_bytes_def del: of_nat_add)
qed

text \<open>The octal fields and the size field read back.\<close>

lemma tar_number_octal: "1 < len \<Longrightarrow> tar_number (write_octal_field len v) = unat v mod 8 ^ (len - 1)"
proof -
  assume "1 < len"
  then obtain b bs where b: "digit_bytes (digits 8 (len - 1) (unat v)) = b # bs" "b \<noteq> 0x80"
    using digit_bytes_hd [of "len - 1" "unat v"] by auto
  have "tar_number (write_octal_field len v) = octal_value (write_octal_field len v)"
    using b by (simp add: tar_number_def write_octal_field_digits)
  also have "\<dots> = unat v mod 8 ^ (len - 1)"
    using octal_value_digits [of "len - 1" "unat v" "[]"] by (simp add: write_octal_field_digits)
  finally show ?thesis .
qed

lemma le_val_zeros: "le_val (bs @ replicate k 0) = le_val bs"
proof (induction bs)
  case Nil
  show ?case by (induction k) simp_all
qed simp

lemma write_size_field_reads:
  obtains fld where "write_size_field sz = Inr fld" and "length fld = 12" and "tar_number fld = unat sz"
proof (cases "sz \<le> MAX_OCTAL_SIZE")
  case True
  then have lt: "unat sz < 8 ^ 11" by (simp add: MAX_OCTAL_SIZE_def word_le_nat_alt)
  have s: "fmt_octal 11 (unat sz) = digit_bytes (digits 8 11 (unat sz))"
    by (rule fmt_octal_fits [OF lt]) simp
  have "fmt_octal 11 (unat sz) @ [0] = write_octal_field 12 sz"
    by (simp add: s write_octal_field_digits)
  with True s lt show ?thesis
    by (intro that [of "write_octal_field 12 sz"])
       (simp_all add: write_size_field_def Let_def tar_number_octal)
next
  case False
  then show ?thesis
    by (intro that [of "0x80 # replicate 3 0 @ to_be_bytes sz"])
       (simp_all add: write_size_field_def tar_number_def to_be_bytes_def le_val_zeros
         write_u64_def le_val_le_bytes unat_mod_u64 del: replicate.simps)
qed

section \<open>The header as a whole\<close>

lemma slice_split:
  "lo \<le> mid \<Longrightarrow> mid \<le> hi \<Longrightarrow> bslice buf lo hi = bslice buf lo mid @ bslice buf mid hi"
  using take_add [of "mid - lo" "hi - mid" "drop lo buf"] by (simp add: bslice_def)

text \<open>A buffer filled field by field: a field reads back when no later field overlaps it.\<close>

definition put_all :: "(nat \<times> 'a list) list \<Rightarrow> 'a list \<Rightarrow> 'a list" where
  "put_all fs buf = foldl (\<lambda>b (off, s). bput off s b) buf fs"

definition fits :: "nat \<Rightarrow> (nat \<times> 'a list) list \<Rightarrow> bool" where
  "fits n fs = list_all (\<lambda>(off, s). off + length s \<le> n) fs"

lemma length_put_all: "fits n fs \<Longrightarrow> length buf = n \<Longrightarrow> length (put_all fs buf) = n"
  by (induction fs arbitrary: buf) (auto simp: fits_def put_all_def length_put)

lemma put_all_skip:
  "fits n fs \<Longrightarrow> length buf = n \<Longrightarrow> list_all (\<lambda>(off, s). hi \<le> off \<or> off + length s \<le> lo) fs \<Longrightarrow>
    bslice (put_all fs buf) lo hi = bslice buf lo hi"
  by (induction fs arbitrary: buf)
    (auto simp: fits_def put_all_def length_put slice_put_before slice_put_after)

lemma put_all_nth:
  assumes "k < length fs" and "fs ! k = (off, s)" and "fits n fs" and "length buf = n"
    and "list_all (\<lambda>(o', s'). off + length s \<le> o' \<or> o' + length s' \<le> off) (drop (Suc k) fs)"
    and "hi = off + length s"
  shows "bslice (put_all fs buf) off hi = s"
proof -
  let ?b = "put_all (take k fs) buf"
  have fs: "fs = take k fs @ (off, s) # drop (Suc k) fs"
    using assms(1,2) by (metis id_take_nth_drop)
  have "fits n (take k fs @ (off, s) # drop (Suc k) fs)" using assms(3) by (simp only: fs [symmetric])
  then have fit: "fits n (take k fs)" "fits n (drop (Suc k) fs)" "off + length s \<le> n"
    by (simp_all add: fits_def)
  have len: "length ?b = n" using length_put_all [OF fit(1) assms(4)] .
  have "put_all fs buf = put_all (drop (Suc k) fs) (bput off s ?b)"
    by (subst fs) (simp add: put_all_def)
  then have "bslice (put_all fs buf) off hi = bslice (bput off s ?b) off hi"
    using put_all_skip [OF fit(2) _ assms(5), of "bput off s ?b"] fit(3) len assms(6)
    by (simp add: length_put)
  then show ?thesis using fit(3) len assms(6) by (simp add: slice_put_same)
qed

lemma ustar_fields_slices:
  assumes "length name \<le> 100"
  obtains h fld where "ustar_fields name sz mtime = Inr h" and "length h = 512"
    and "tar_number fld = unat sz" and "bslice h 0 100 = name @ replicate (100 - length name) 0"
    and "bslice h 124 136 = fld" and "bslice h 136 148 = write_octal_field 12 mtime"
    and "bslice h 148 156 = replicate 8 32" and "bslice h 156 157 = [48]"
    and "bslice h 257 265 = ascii ''ustar'' @ [0] @ ascii ''00''"
proof -
  obtain fld where fld: "write_size_field sz = Inr fld" "length fld = 12" "tar_number fld = unat sz"
    using write_size_field_reads by metis
  define fs :: "(nat \<times> bytes) list" where "fs = [(0, name), (100, write_octal_field 8 420), (108, write_octal_field 8 0),
    (116, write_octal_field 8 0), (124, fld), (136, write_octal_field 12 mtime), (148, replicate 8 32),
    (156, [48]), (257, ascii ''ustar'' @ [0]), (263, ascii ''00''), (265, ascii ''root''),
    (297, ascii ''root''), (329, write_octal_field 8 0), (337, write_octal_field 8 0)]"
  define base where "base = replicate 512 (0 :: u8)"
  have len0: "length base = 512" by (simp add: base_def)
  have run: "ustar_fields name sz mtime = Inr (put_all fs base)"
    by (simp add: ustar_fields_def fld Let_def put_all_def fs_def base_def TAR_HEADER_SIZE_def
        TAR_BLOCK_SIZE_def del: replicate.simps)
  have fit: "fits 512 fs" using assms fld(2) by (simp add: fits_def fs_def)
  have fit': "fits 512 (tl fs)" using fit by (simp add: fits_def fs_def)
  have nth: "bslice (put_all fs base) off hi = s"
    if "k < length fs" "fs ! k = (off, s)"
      "list_all (\<lambda>(o', s'). off + length s \<le> o' \<or> o' + length s' \<le> off) (drop (Suc k) fs)" "hi = off + length s"
    for k off s hi
    using put_all_nth [OF that(1,2) fit len0 that(3,4)] .
  have "put_all fs base = put_all (tl fs) (bput 0 name base)" by (simp add: put_all_def fs_def)
  moreover have "list_all (\<lambda>(off, s). 100 \<le> off \<or> off + length s \<le> 0) (tl fs)" by (simp add: fs_def)
  ultimately have "bslice (put_all fs base) 0 100 = bslice (bput 0 name base) 0 100"
    using put_all_skip [OF fit', of "bput 0 name base" 100 0] assms len0 by (simp add: length_put)
  also have "\<dots> = name @ replicate (100 - length name) 0"
    using assms by (simp add: bput_def bslice_def base_def)
  finally have name: "bslice (put_all fs base) 0 100 = name @ replicate (100 - length name) 0" .
  have "bslice (put_all fs base) 124 136 = fld" by (rule nth [of 4]) (simp_all add: fs_def fld(2))
  moreover have "bslice (put_all fs base) 136 148 = write_octal_field 12 mtime"
    by (rule nth [of 5]) (simp_all add: fs_def)
  moreover have "bslice (put_all fs base) 148 156 = replicate 8 32"
    by (rule nth [of 6]) (simp_all add: fs_def)
  moreover have "bslice (put_all fs base) 156 157 = [48]"
    by (rule nth [of 7]) (simp_all add: fs_def)
  moreover have "bslice (put_all fs base) 257 263 = ascii ''ustar'' @ [0]"
    by (rule nth [of 8]) (simp_all add: fs_def)
  moreover have "bslice (put_all fs base) 263 265 = ascii ''00''"
    by (rule nth [of 9]) (simp_all add: fs_def)
  moreover have "bslice (put_all fs base) 257 265 =
      bslice (put_all fs base) 257 263 @ bslice (put_all fs base) 263 265"
    by (rule slice_split) simp_all
  ultimately show ?thesis
    using run name fld(3) length_put_all [OF fit len0] that by simp
qed

lemma header_sum_nat:
  assumes "length h \<le> 512"
  shows "unat (header_sum h) = sum_list (map unat h)" and "sum_list (map unat h) < 8 ^ 6"
proof -
  have bound: "sum_list (map unat xs) \<le> 255 * length xs" for xs :: bytes
  proof (induction xs)
    case (Cons x xs)
    have "unat x \<le> 255" using unat_u8_lt [of x] by linarith
    with Cons show ?case by simp
  qed simp
  have "unat (foldl (\<lambda>a b. a + ucast b) s xs) = unat s + sum_list (map unat xs)"
    if "unat s + 255 * length xs < 4294967296" for s :: u32 and xs :: bytes
    using that
  proof (induction xs arbitrary: s)
    case (Cons x xs)
    have u: "unat (ucast x :: u32) = unat x"
      by (simp add: unsigned_ucast_eq take_bit_nat_eq_self_iff order.strict_trans [OF unat_u8_lt])
    have "unat x \<le> 255" using unat_u8_lt [of x] by linarith
    with Cons.prems have "unat (s + ucast x) = unat s + unat x"
      by (simp add: unat_word_ariths u)
    with Cons \<open>unat x \<le> 255\<close> show ?case by simp
  qed simp
  from this [of 0 h] assms show "unat (header_sum h) = sum_list (map unat h)"
    by (simp add: header_sum_def)
  show "sum_list (map unat h) < 8 ^ 6" using bound [of h] assms by simp
qed

lemma ustar_header_reads:
  assumes "length name \<le> 100" and "0 \<notin> set name"
  obtains h where "ustar_header name sz mtime = Inr h" and "length h = 512"
    and "tar_name h = name" and "tar_number (bslice h 124 136) = unat sz"
    and "tar_number (bslice h 136 148) = unat mtime mod 8 ^ 11"
    and "tar_checksum_ok h" and "bslice h 156 157 = [48]"
    and "bslice h 257 265 = ascii ''ustar'' @ [0] @ ascii ''00''"
proof -
  obtain h fld where h: "ustar_fields name sz mtime = Inr h" "length h = 512" "tar_number fld = unat sz"
      "bslice h 0 100 = name @ replicate (100 - length name) 0"
      "bslice h 124 136 = fld" "bslice h 136 148 = write_octal_field 12 mtime"
      "bslice h 148 156 = replicate 8 32" "bslice h 156 157 = [48]"
      "bslice h 257 265 = ascii ''ustar'' @ [0] @ ascii ''00''"
    using ustar_fields_slices [OF assms(1), of sz mtime] by metis
  define chk where "chk = fmt_octal 6 (unat (header_sum h))"
  have chk: "chk = digit_bytes (digits 8 6 (unat (header_sum h)))"
    using header_sum_nat [of h] h(2) unfolding chk_def by (intro fmt_octal_fits) simp_all
  define g where "g = bput 155 [32] (bput 154 [0] (bput 148 chk h))"
  have run: "ustar_header name sz mtime = Inr g"
    using assms(1) h(1) by (simp add: ustar_header_def NAME_LEN_def Let_def g_def chk flip: chk_def)
  have g: "g = bput 148 (chk @ [0, 32]) h"
    using h(2) by (simp add: g_def bput_def chk min_def)
  have len: "length g = 512" using h(2) by (simp add: g buf_simps chk)
  have other: "bslice g lo hi = bslice h lo hi" if "hi \<le> 148 \<or> 156 \<le> lo" for lo hi
    using that h(2) by (auto simp: g buf_simps chk)
  have "bput 148 (replicate 8 32) g = h"
    using h(2,7) put_slice_id [of 148 8 h] by (simp add: g buf_simps chk del: replicate.simps)
  moreover have "octal_value (bslice g 148 156) = sum_list (map unat h)"
    using h(2) header_sum_nat [of h] octal_value_digits [of 6 "unat (header_sum h)" "[32]"]
    by (simp add: g buf_simps chk)
  ultimately have "tar_checksum_ok g" by (simp add: tar_checksum_ok_def)
  moreover have "tar_name g = name"
  proof -
    have "takeWhile (\<lambda>b. b \<noteq> 0) (name @ replicate k 0) = name" for k
      using assms(2) by (subst takeWhile_append2) (auto simp: takeWhile_replicate)
    then show ?thesis using h(4) by (simp add: tar_name_def other)
  qed
  ultimately show ?thesis
    using run len h(3,5,6,8,9) by (intro that [of g]) (simp_all add: other tar_number_octal)
qed

text \<open>
  C34 (tar header): for a name of at most 100 bytes without NUL the header is one block, from
  which a reader of archives gets the name, the exact size over the whole u64 range, the
  modification time as far as eleven octal digits hold it, and a correct checksum; a longer
  name is the error Unsupported, and nothing is written.
\<close>

theorem ustar_header_correct:
  assumes "0 \<notin> set name"
  shows "if length name \<le> 100
    then \<exists>h. write_ustar_header put out name sz mtime = put out h \<and> length h = 512 \<and>
      tar_name h = name \<and> tar_number (bslice h 124 136) = unat sz \<and>
      tar_number (bslice h 136 148) = unat mtime mod 8 ^ 11 \<and> tar_checksum_ok h \<and>
      bslice h 257 265 = ascii ''ustar'' @ [0] @ ascii ''00''
    else \<exists>m. write_ustar_header put out name sz mtime = Inl (Unsupported m)"
proof (cases "length name \<le> 100")
  case True
  obtain h where "ustar_header name sz mtime = Inr h" "length h = 512"
    "tar_name h = name" "tar_number (bslice h 124 136) = unat sz"
    "tar_number (bslice h 136 148) = unat mtime mod 8 ^ 11"
    "tar_checksum_ok h" "bslice h 257 265 = ascii ''ustar'' @ [0] @ ascii ''00''"
    using ustar_header_reads [OF True assms] by metis
  with True show ?thesis by (auto simp: write_ustar_header_def)
next
  case False
  then show ?thesis by (simp add: write_ustar_header_def ustar_header_def NAME_LEN_def)
qed

theorem ustar_header_correct_witness:
  "\<exists>h. write_ustar_header vec_put [] (ascii ''flat.vhdx'') 0x400000000 1700000000 = Inr h \<and>
    length h = 512 \<and> tar_name h = ascii ''flat.vhdx'' \<and> tar_number (bslice h 124 136) = 17179869184 \<and>
    tar_checksum_ok h"
proof -
  have "0 \<notin> set (ascii ''flat.vhdx'')" by (simp add: ascii_def)
  from ustar_header_correct [OF this, of vec_put "[]" "0x400000000" 1700000000]
  show ?thesis by (auto simp: vec_put_def)
qed

text \<open>
  Tar padding: the padding of an entry is the least number of bytes that brings its size
  to a multiple of the block.
\<close>

lemma padding_to_block_least:
  "512 dvd unat sz + unat (padding_to_block sz) \<and> unat (padding_to_block sz) < 512"
proof -
  have m: "unat (sz mod 512) = unat sz mod 512" by (simp add: unat_mod)
  show ?thesis
  proof (cases "sz mod 512 = 0")
    case True
    then have "unat sz mod 512 = 0" using m by simp
    with True show ?thesis
      by (simp add: padding_to_block_def TAR_BLOCK_SIZE_def Let_def mod_0_imp_dvd)
  next
    case False
    then have "unat (512 - sz mod 512) = 512 - unat sz mod 512"
      by (subst unat_sub_u64) (simp_all add: m less_imp_le)
    moreover have "unat sz mod 512 \<noteq> 0" using False m by (metis unat_eq_zero)
    moreover have "512 dvd unat sz + (512 - unat sz mod 512)"
    proof -
      have pad: "512 * q + r + (512 - r) = 512 * (q + 1)" if "r < 512" for q r :: nat
        using that by simp
      have "unat sz + (512 - unat sz mod 512) = 512 * (unat sz div 512 + 1)"
        using pad [of "unat sz mod 512" "unat sz div 512"] by (simp only: mult_div_mod_eq mod_less_divisor zero_less_numeral simp_thms)
      then show ?thesis by (metis dvd_triv_left)
    qed
    ultimately show ?thesis
      using False by (simp add: padding_to_block_def TAR_BLOCK_SIZE_def Let_def)
  qed
qed

end
