(* ===== verification/Vhdx_Path.thy ===== *)
theory Vhdx_Path
  imports Vhdx_Format
begin

text \<open>
  The operations of \<open>std::path\<close> the code uses, on Unix, and the two functions that derive
  names from the output path: \<open>inner_archive_name\<close> of \<open>flatten.rs\<close> and
  \<open>rewrite_to_tar_zst\<close> of the command line.  A path is the bytes of its UTF-8 text, so
  that \<open>to_str\<close> succeeds and \<open>to_string_lossy\<close> is the identity.
\<close>

section \<open>Paths\<close>

fun split_slash :: "string \<Rightarrow> string list" where
  "split_slash [] = [[]]"
| "split_slash (c # cs) =
    (if c = CHR ''/'' then [] # split_slash cs
     else (c # hd (split_slash cs)) # tl (split_slash cs))"

fun join_slash :: "string list \<Rightarrow> string" where
  "join_slash [] = []"
| "join_slash [s] = s"
| "join_slash (s # ss) = s @ CHR ''/'' # join_slash ss"

text \<open>Empty segments and \<open>.\<close> are no components; a leading \<open>.\<close> and the root are kept by \<open>parent\<close>.\<close>

definition skipped :: "string \<Rightarrow> bool" where
  "skipped s \<longleftrightarrow> s = [] \<or> s = ''.''"

definition trim_segments :: "string list \<Rightarrow> string list" where
  "trim_segments ss =
    (case ss of [] \<Rightarrow> [] | s # rest \<Rightarrow> s # rev (dropWhile skipped (rev rest)))"

definition is_absolute :: "path \<Rightarrow> bool" where
  "is_absolute p \<longleftrightarrow> (case p of [] \<Rightarrow> False | c # _ \<Rightarrow> c = CHR ''/'')"

definition file_name :: "path \<Rightarrow> string option" where
  "file_name p =
    (let cs = filter (\<lambda>s. \<not> skipped s) (split_slash p) in
     if cs = [] \<or> last cs = ''..'' then None else Some (last cs))"

definition path_parent :: "path \<Rightarrow> path option" where
  "path_parent p =
    (let ss = trim_segments (split_slash p) in
     if list_all skipped ss then (if ss = [''.''] then Some [] else None)
     else
       let rest = trim_segments (butlast ss)
       in Some (if rest = [[]] then ''/'' else join_slash rest))"

definition path_join :: "path \<Rightarrow> path \<Rightarrow> path" where
  "path_join p q =
    (if is_absolute q then q
     else if p = [] \<or> last p = CHR ''/'' then p @ q
     else p @ CHR ''/'' # q)"

definition file_stem :: "path \<Rightarrow> string option" where
  "file_stem p = map_option (\<lambda>f.
     let after = rev (takeWhile (\<lambda>c. c \<noteq> CHR ''.'') (rev f)) in
     if length after = length f then f
     else let base = take (length f - length after - 1) f
       in if base = [] then f else base) (file_name p)"

definition set_file_name :: "path \<Rightarrow> string \<Rightarrow> path" where
  "set_file_name p n =
    path_join (if file_name p \<noteq> None then (case path_parent p of Some d \<Rightarrow> d | None \<Rightarrow> p) else p) n"

section \<open>Suffixes\<close>

definition lower_char :: "char \<Rightarrow> char" where
  "lower_char c = (if 65 \<le> (of_char c :: nat) \<and> (of_char c :: nat) \<le> 90
     then char_of (of_char c + 32 :: nat) else c)"

definition to_ascii_lowercase :: "string \<Rightarrow> string" where
  "to_ascii_lowercase s = map lower_char s"

definition ends_with :: "string \<Rightarrow> string \<Rightarrow> bool" where
  "ends_with s suf \<longleftrightarrow> length suf \<le> length s \<and> drop (length s - length suf) s = suf"

definition drop_end :: "string \<Rightarrow> nat \<Rightarrow> string" where
  "drop_end s n = take (length s - n) s"

definition inner_archive_name :: "path \<Rightarrow> string" where
  "inner_archive_name output_path =
    (let raw = (case file_name output_path of Some n \<Rightarrow> n | None \<Rightarrow> ''disk.vhdx'');
         lower = to_ascii_lowercase raw;
         name =
           (if ends_with lower ''.tar.zst'' then drop_end raw (length ''.tar.zst'')
            else if ends_with lower ''.zst'' then
              let name = drop_end raw (length ''.zst'') in
              if ends_with (to_ascii_lowercase name) ''.tar'' then drop_end name (length ''.tar'') else name
            else if ends_with lower ''.tar'' then drop_end raw (length ''.tar'')
            else raw)
     in if \<not> ends_with (to_ascii_lowercase name) ''.vhdx''
        then (if name = [] then ''disk'' else name) @ ''.vhdx''
        else name)"

definition rewrite_to_tar_zst :: "path \<Rightarrow> path" where
  "rewrite_to_tar_zst p =
    (let lower = to_ascii_lowercase p in
     if ends_with lower ''.tar.zst'' then p
     else if ends_with lower ''.zst'' then
       let trimmed = drop_end p (length ''.zst'') in
       if ends_with (to_ascii_lowercase trimmed) ''.tar'' then trimmed @ ''.zst''
       else trimmed @ ''.tar.zst''
     else if ends_with lower ''.tar'' then p @ ''.zst''
     else p @ ''.tar.zst'')"

section \<open>Facts on names\<close>

lemma ends_with_append [simp]: "ends_with (s @ suf) suf"
  by (simp add: ends_with_def)

lemma ends_withD: "ends_with s suf \<Longrightarrow> s = drop_end s (length suf) @ suf"
  unfolding ends_with_def drop_end_def by (metis append_take_drop_id)

lemma ends_with_trans: "ends_with s t \<Longrightarrow> ends_with t u \<Longrightarrow> ends_with s u"
  using ends_withD [of s t] ends_withD [of t u]
  by (metis append.assoc ends_with_append)

lemma lower_length [simp]: "length (to_ascii_lowercase s) = length s"
  by (simp add: to_ascii_lowercase_def)

lemma lower_append [simp]: "to_ascii_lowercase (s @ t) = to_ascii_lowercase s @ to_ascii_lowercase t"
  by (simp add: to_ascii_lowercase_def)

lemma lower_drop_end: "to_ascii_lowercase (drop_end s n) = drop_end (to_ascii_lowercase s) n"
  by (simp add: to_ascii_lowercase_def drop_end_def take_map)

lemma lower_suffixes [simp]:
  "to_ascii_lowercase ''.zst'' = ''.zst''" "to_ascii_lowercase ''.tar.zst'' = ''.tar.zst''"
  "to_ascii_lowercase ''.vhdx'' = ''.vhdx''" "to_ascii_lowercase ''.tar'' = ''.tar''"
  "to_ascii_lowercase ''disk'' = ''disk''"
  by (simp_all add: to_ascii_lowercase_def lower_char_def)

lemma rewrite_ends: "ends_with (to_ascii_lowercase (rewrite_to_tar_zst p)) ''.tar.zst''"
proof -
  have tz: "ends_with (s @ ''.zst'') ''.tar.zst''" if "ends_with s ''.tar''" for s
    using ends_withD [OF that] by (metis append.assoc append_Cons append_Nil ends_with_append)
  have "ends_with (s @ ''.tar.zst'') ''.tar.zst''" for s by (rule ends_with_append)
  then show ?thesis
    using tz by (simp add: rewrite_to_tar_zst_def Let_def del: append_Cons)
qed

text \<open>
  Archive name: the output path of a compressed flatten, rewritten, always ends in
  \<open>.tar.zst\<close> up to case, and rewriting it again changes nothing.
\<close>

lemma rewrite_to_tar_zst_correct:
  "ends_with (to_ascii_lowercase (rewrite_to_tar_zst p)) ''.tar.zst'' \<and>
   rewrite_to_tar_zst (rewrite_to_tar_zst p) = rewrite_to_tar_zst p"
  using rewrite_ends [of p] by (simp add: rewrite_to_tar_zst_def [of "rewrite_to_tar_zst p"] Let_def)

lemma split_slash_not_Nil [simp]: "split_slash s \<noteq> []"
  by (cases s) simp_all

lemma split_slash_plain: "CHR ''/'' \<notin> set n \<Longrightarrow> split_slash n = [n]"
  by (induction n) auto

lemma split_slash_segments: "s \<in> set (split_slash p) \<Longrightarrow> CHR ''/'' \<notin> set s"
proof (induction p arbitrary: s)
  case (Cons c cs)
  have "hd (split_slash cs) \<in> set (split_slash cs)" by simp
  moreover have "set (tl (split_slash cs)) \<subseteq> set (split_slash cs)"
    by (cases "split_slash cs") auto
  ultimately show ?case using Cons by (auto split: if_splits)
qed simp

lemma split_slash_append:
  assumes "CHR ''/'' \<notin> set n" and "pre = [] \<or> last pre = CHR ''/''"
  obtains ss where "split_slash (pre @ n) = ss @ [n]"
proof -
  have "last (split_slash (pre @ n)) = n" using assms(2)
  proof (induction pre)
    case Nil
    then show ?case using split_slash_plain [OF assms(1)] by simp
  next
    case (Cons c cs)
    show ?case
    proof (cases "cs = []")
      case True
      with Cons split_slash_plain [OF assms(1)] show ?thesis by simp
    next
      case False
      with Cons.prems have "last cs = CHR ''/''" by simp
      with Cons.IH have "last (split_slash (cs @ n)) = n" by simp
      moreover have "tl (split_slash (cs @ n)) \<noteq> []"
      proof -
        have "2 \<le> length (split_slash (cs @ n))" using \<open>last cs = CHR ''/''\<close> False
          by (induction cs) (auto simp: Suc_le_eq neq_Nil_conv split: if_splits)
        then show ?thesis by (cases "split_slash (cs @ n)") auto
      qed
      ultimately show ?thesis
        by (cases "split_slash (cs @ n)") auto
    qed
  qed
  then show ?thesis using that by (metis append_butlast_last_id split_slash_not_Nil)
qed

lemma file_name_append:
  assumes "CHR ''/'' \<notin> set n" and "pre = [] \<or> last pre = CHR ''/''"
    and "n \<notin> {[], ''.'', ''..''}"
  shows "file_name (pre @ n) = Some n"
proof -
  obtain ss where "split_slash (pre @ n) = ss @ [n]"
    using split_slash_append [OF assms(1,2)] .
  with assms(3) show ?thesis by (simp add: file_name_def Let_def skipped_def)
qed

lemma file_name_no_slash: "file_name p = Some n \<Longrightarrow> CHR ''/'' \<notin> set n \<and> n \<noteq> [] \<and> n \<noteq> ''.'' \<and> n \<noteq> ''..''"
proof -
  assume f: "file_name p = Some n"
  let ?cs = "filter (\<lambda>s. \<not> skipped s) (split_slash p)"
  from f have cs: "?cs \<noteq> []" "n = last ?cs" "n \<noteq> ''..''"
    by (auto simp: file_name_def Let_def split: if_splits)
  then have "n \<in> set ?cs" using last_in_set by blast
  then show ?thesis using cs(3) split_slash_segments by (auto simp: skipped_def)
qed

lemma vhdx_name_plain:
  assumes "CHR ''/'' \<notin> set n" and "ends_with (to_ascii_lowercase n) ''.vhdx''"
  shows "file_name n = Some n"
proof -
  have "n \<notin> {[], ''.'', ''..''}" using assms(2) by (auto simp: ends_with_def)
  then show ?thesis using file_name_append [of n "[]"] assms(1) by simp
qed



end
