(* ===== verification/Vhdx_FS.thy ===== *)
theory Vhdx_FS
  imports Vhdx_IO Vhdx_Path "HOL-Library.Finite_Map"
begin

text \<open>
  The file system the operations on several files work on: the files by canonical name, and
  the resolution of a path to the canonical name it stands for (links, \<open>.\<close> and \<open>..\<close>),
  which operations on files do not change.  An open handle is the canonical name, so that
  two handles on one file see each other's writes.
\<close>

record fsys =
  fs_files :: "(path, dfile) fmap"
  fs_resolve :: "path \<Rightarrow> path"

definition fs_open :: "fsys \<Rightarrow> path \<Rightarrow> dfile option" where
  "fs_open fs p = fmlookup (fs_files fs) (fs_resolve fs p)"

definition path_exists :: "fsys \<Rightarrow> path \<Rightarrow> bool" where
  "path_exists fs p \<longleftrightarrow> fs_open fs p \<noteq> None"

definition canonicalize :: "fsys \<Rightarrow> path \<Rightarrow> path res" where
  "canonicalize fs p = (if path_exists fs p then Inr (fs_resolve fs p) else Inl (Io NotFound))"

definition fs_store :: "fsys \<Rightarrow> path \<Rightarrow> dfile \<Rightarrow> fsys" where
  "fs_store fs p f = fs\<lparr>fs_files := fmupd (fs_resolve fs p) f (fs_files fs)\<rparr>"

definition fs_remove_file :: "fsys \<Rightarrow> path \<Rightarrow> fsys res" where
  "fs_remove_file fs p =
    (if path_exists fs p then Inr (fs\<lparr>fs_files := fmdrop (fs_resolve fs p) (fs_files fs)\<rparr>)
     else Inl (Io NotFound))"

definition fs_rename :: "fsys \<Rightarrow> path \<Rightarrow> path \<Rightarrow> fsys res" where
  "fs_rename fs p q =
    (case fs_open fs p of None \<Rightarrow> Inl (Io NotFound)
     | Some f \<Rightarrow>
         if fs_resolve fs p = fs_resolve fs q then Inr fs
         else Inr (fs\<lparr>fs_files := fmupd (fs_resolve fs q) f (fmdrop (fs_resolve fs p) (fs_files fs))\<rparr>))"

text \<open>An operation on the file at a path: its new contents replace the old ones.\<close>

definition on_file :: "fsys \<Rightarrow> path \<Rightarrow> (dfile \<Rightarrow> (dfile \<times> 'a) res) \<Rightarrow> (fsys \<times> 'a) res" where
  "on_file fs p act =
    bindR (ok_or (fs_open fs p) (Io NotFound)) (\<lambda>f.
    bindR (act f) (\<lambda>(f', x). Inr (fs_store fs p f', x)))"

lemma fs_open_store: "fs_open (fs_store fs p f) q = (if fs_resolve fs q = fs_resolve fs p then Some f else fs_open fs q)"
  by (simp add: fs_open_def fs_store_def)

lemma fs_resolve_store [simp]: "fs_resolve (fs_store fs p f) = fs_resolve fs"
  by (simp add: fs_store_def)

lemma fs_store_files [simp]: "fs_files (fs_store fs p f) = fmupd (fs_resolve fs p) f (fs_files fs)"
  by (simp add: fs_store_def)

lemma path_exists_dom: "path_exists fs p \<longleftrightarrow> fs_resolve fs p \<in> fset (fmdom (fs_files fs))"
  by (simp add: path_exists_def fs_open_def fmdom'_notI fmlookup_dom_iff)

lemma fs_remove_open:
  "fs_remove_file fs p = Inr fs' \<Longrightarrow>
    fs_open fs' q = (if fs_resolve fs q = fs_resolve fs p then None else fs_open fs q)"
  by (auto simp: fs_remove_file_def fs_open_def split: if_splits)

lemma on_file_ok [res_simps]:
  "on_file fs p act = Inr (fs', x) \<longleftrightarrow>
    (\<exists>f f'. fs_open fs p = Some f \<and> act f = Inr (f', x) \<and> fs' = fs_store fs p f')"
  by (auto simp: on_file_def res_simps)

end
