(* ===== verification/Vhdx_Ntfs.thy ===== *)
theory Vhdx_Ntfs
  imports Vhdx_FS Vhdx_Writer
begin

text \<open>
  \<open>compress.rs\<close>: marking the destination for transparent NTFS compression.  On Windows the file
  is emptied and the program \<open>compact.exe\<close> of the operating system is run on it; how that run
  ends is an argument.  Elsewhere the operation is refused.  The text of a message is kept up
  to its interpolated parts, the output of the program among them.
\<close>

text \<open>How a run of the program ends: it could not be started, or it exited.\<close>

datatype command_run = NotStarted io_error | Exited (exit_success: bool)

definition set_ntfs_compression_windows :: "(fsys \<Rightarrow> path \<Rightarrow> command_run) \<Rightarrow> nat \<Rightarrow> fsys \<Rightarrow> path \<Rightarrow> fsys res" where
  "set_ntfs_compression_windows compact_exe capacity fs p =
    (let fs = fs_store fs p (new_file capacity) in
     case compact_exe fs p of
       NotStarted e \<Rightarrow>
         if e = NotFound
         then Inl (Unsupported ''could not enable NTFS compression: `compact.exe` was not found in PATH'')
         else Inl (Io e)
     | Exited success \<Rightarrow>
         if \<not> success then Inl (Unsupported ''could not enable NTFS compression'') else Inr fs)"

definition set_ntfs_compression_other :: "fsys \<Rightarrow> path \<Rightarrow> fsys res" where
  "set_ntfs_compression_other fs p = Inl (Unsupported ''NTFS compression is only available on Windows hosts'')"

lemma set_ntfs_compression_windows_ok:
  "set_ntfs_compression_windows compact_exe capacity fs p = Inr fs' \<longleftrightarrow>
    fs' = fs_store fs p (new_file capacity) \<and> compact_exe fs' p = Exited True"
  by (auto simp: set_ntfs_compression_windows_def Let_def split: command_run.splits if_splits)

end
