(* ===== verification/Vhdx_Log.thy ===== *)
theory Vhdx_Log
  imports Vhdx_Header "HOL-Library.Multiset"
begin

text \<open>
  \<open>log.rs\<close>: scanning the log ring for the active sequence, replaying it onto the file, and
  marking it clean.  An entry that is longer than the ring makes the scan slice beyond
  its buffer, which is a panic.
\<close>

section \<open>Entries\<close>

datatype descriptor =
    ZeroDesc (zero_length: u64) (desc_offset: u64) (desc_seq: u64)
  | DataDesc (trailing_bytes: bytes) (leading_bytes: bytes) (desc_offset: u64) (desc_seq: u64) (data_index: nat)

record log_entry =
  le_sequence_number :: u64
  le_flushed_file_offset :: u64
  le_last_file_offset :: u64
  le_descriptors :: "descriptor list"
  le_data_sectors :: "bytes list"
  le_byte_len :: nat

text \<open>
  The descriptor loop from offset \<open>off\<close> on, for \<open>n\<close> more descriptors; \<open>k\<close> counts the data
  descriptors seen.
\<close>

fun parse_descriptors :: "bytes \<Rightarrow> u64 \<Rightarrow> nat \<Rightarrow> nat \<Rightarrow> nat \<Rightarrow> (descriptor list \<times> nat) option" where
  "parse_descriptors buf seq off k 0 = Some ([], k)"
| "parse_descriptors buf seq off k (Suc n) =
    (if off + 32 > length buf then None
     else
       let sig = bslice buf off (off + 4);
           file_offset = read_u64 (bslice buf (off + 16) (off + 24));
           seq_echo = read_u64 (bslice buf (off + 24) (off + 32)) in
       if sig = ZERO_DESCRIPTOR_SIGNATURE then
         if seq_echo \<noteq> seq then None
         else map_option (\<lambda>(ds, k'). (ZeroDesc (read_u64 (bslice buf (off + 8) (off + 16))) file_offset seq # ds, k'))
           (parse_descriptors buf seq (off + 32) k n)
       else if sig = DATA_DESCRIPTOR_SIGNATURE then
         if seq_echo \<noteq> seq then None
         else map_option (\<lambda>(ds, k'). (DataDesc (bslice buf (off + 4) (off + 8)) (bslice buf (off + 8) (off + 16))
             file_offset seq k # ds, k'))
           (parse_descriptors buf seq (off + 32) (k + 1) n)
       else None)"

fun parse_data_sectors :: "bytes \<Rightarrow> u64 \<Rightarrow> nat \<Rightarrow> nat \<Rightarrow> bytes list option" where
  "parse_data_sectors buf seq off 0 = Some []"
| "parse_data_sectors buf seq off (Suc n) =
    (if off + LOG_SECTOR_SIZE > length buf then None
     else
       let sec = bslice buf off (off + LOG_SECTOR_SIZE) in
       if bslice sec 0 4 \<noteq> DATA_SECTOR_SIGNATURE then None
       else
         let high = read_u32 (bslice sec 4 8); low = read_u32 (bslice sec 4092 4096);
             echo = push_bit 32 (ucast high) OR (ucast low :: u64) in
         if echo \<noteq> seq then None
         else map_option ((#) sec) (parse_data_sectors buf seq (off + LOG_SECTOR_SIZE) n))"

text \<open>
  Data sectors start at the first 4 KiB boundary, but the first sector, past the descriptors:
  the loop from \<open>sec_off\<close> up to \<open>limit\<close>.
\<close>

function skip_sectors :: "nat \<Rightarrow> nat \<Rightarrow> nat" where
  "skip_sectors limit sec_off =
    (if sec_off < limit then skip_sectors limit (sec_off + LOG_SECTOR_SIZE) else sec_off)"
  by pat_completeness auto
termination
  by (relation "measure (\<lambda>(limit, sec_off). limit - sec_off)") (auto simp: LOG_SECTOR_SIZE_def)

declare skip_sectors.simps [simp del]

definition data_sector_start :: "nat \<Rightarrow> nat" where
  "data_sector_start descriptor_count = skip_sectors (64 + descriptor_count * 32) LOG_SECTOR_SIZE"

text \<open>The checksum of the entry is computed and dropped.\<close>

definition parse_entry :: "externs \<Rightarrow> bytes \<Rightarrow> uuid \<Rightarrow> log_entry option" where
  "parse_entry E buf expected_log_guid =
    (if length buf < 64 then None
     else if bslice buf 0 4 \<noteq> LOG_ENTRY_SIGNATURE then None
     else
       let entry_length = unat (read_u32 (bslice buf 8 12)) in
       if entry_length = 0 \<or> entry_length mod LOG_SECTOR_SIZE \<noteq> 0 \<or> entry_length \<noteq> length buf then None
       else
         let sequence = read_u64 (bslice buf 16 24);
             descriptor_count = unat (read_u32 (bslice buf 24 28));
             guid = read_guid_at E buf 32;
             flushed = read_u64 (bslice buf 48 56);
             last = read_u64 (bslice buf 56 64) in
         if guid \<noteq> expected_log_guid then None
         else
           Option.bind (parse_descriptors buf sequence 64 0 descriptor_count) (\<lambda>(ds, data_sector_count).
           Option.bind (parse_data_sectors buf sequence (data_sector_start descriptor_count) data_sector_count) (\<lambda>secs.
           Some \<lparr>le_sequence_number = sequence, le_flushed_file_offset = flushed,
             le_last_file_offset = last, le_descriptors = ds, le_data_sectors = secs,
             le_byte_len = entry_length\<rparr>)))"

section \<open>Scanning the ring\<close>

text \<open>The bytes of an entry, which may wrap around the end of the ring.\<close>

definition linear_entry :: "bytes \<Rightarrow> nat \<Rightarrow> nat \<Rightarrow> bytes res" where
  "linear_entry buf cursor entry_length =
    (if cursor + entry_length \<le> length buf then Inr (bslice buf cursor (cursor + entry_length))
     else
       let first = length buf - cursor; rest = entry_length - first in
       if rest > length buf then Inl (Panic ''range end index out of range'')
       else Inr (bslice buf cursor (cursor + first) @ bslice buf 0 rest))"

function scan_ring :: "externs \<Rightarrow> bytes \<Rightarrow> uuid \<Rightarrow> nat \<Rightarrow> (nat \<times> log_entry) list res" where
  "scan_ring E buf guid cursor =
    (if cursor \<ge> length buf \<or> cursor + LOG_SECTOR_SIZE > length buf then Inr []
     else if bslice buf cursor (cursor + 4) \<noteq> LOG_ENTRY_SIGNATURE
     then scan_ring E buf guid (cursor + LOG_SECTOR_SIZE)
     else
       let entry_length = unat (read_u32 (bslice buf (cursor + 8) (cursor + 12))) in
       if entry_length = 0 \<or> entry_length mod LOG_SECTOR_SIZE \<noteq> 0
       then scan_ring E buf guid (cursor + LOG_SECTOR_SIZE)
       else
         bindR (linear_entry buf cursor entry_length) (\<lambda>linear.
         bindR (scan_ring E buf guid (cursor + entry_length)) (\<lambda>es.
         Inr (case parse_entry E linear guid of Some e \<Rightarrow> (cursor, e) # es | None \<Rightarrow> es))))"
  by pat_completeness auto
termination
  by (relation "measure (\<lambda>(E, buf, guid, cursor). length buf - cursor)") (auto simp: LOG_SECTOR_SIZE_def)

declare scan_ring.simps [simp del]

text \<open>
  The loop over the sorted entries: \<open>best_run ss i n (best_start, best_len, cur_start)\<close> for
  the indices \<open>i\<close>, \<dots>, \<open>i + n - 1\<close>.
\<close>

fun best_run :: "u64 list \<Rightarrow> nat \<Rightarrow> nat \<Rightarrow> nat \<times> nat \<times> nat \<Rightarrow> nat \<times> nat \<times> nat" where
  "best_run ss i 0 st = st"
| "best_run ss i (Suc n) (best_start, best_len, cur_start) =
    (let prev_seq = ss ! (i - 1); cur_seq = ss ! i in
     if cur_seq = prev_seq + 1 then
       let cur_len = i - cur_start + 1 in
       best_run ss (i + 1) n
         (if cur_len > best_len then (cur_start, cur_len, cur_start) else (best_start, best_len, cur_start))
     else best_run ss (i + 1) n (best_start, best_len, i))"

record log_scan =
  ls_log_offset :: u64
  ls_log_length :: u64
  ls_active_sequence :: "log_entry list"
  ls_max_sequence :: u64
  ls_max_file_offset :: u64

definition select_run :: "log_entry list \<Rightarrow> log_entry list" where
  "select_run es =
    (let (best_start, best_len, _) = best_run (map le_sequence_number es) 1 (length es - 1) (0, 1, 0)
     in bslice es best_start (best_start + best_len))"

definition scan_log :: "externs \<Rightarrow> dfile \<Rightarrow> header \<Rightarrow> log_scan res" where
  "scan_log E f h =
    (let none = \<lparr>ls_log_offset = log_offset h, ls_log_length = ucast (log_length h), ls_active_sequence = [],
       ls_max_sequence = 0, ls_max_file_offset = 0\<rparr> in
     if log_guid h = nil_uuid \<or> log_length h = 0 then Inr none
     else
       bindR (read_exact_at f (log_offset h) (unat (log_length h))) (\<lambda>buf.
       bindR (scan_ring E buf (log_guid h) 0) (\<lambda>found.
       if found = [] then Inr none
       else
         let entries = sort_key le_sequence_number (map snd found);
             best = select_run entries in
         Inr (none\<lparr>ls_active_sequence := best,
           ls_max_sequence := (if best = [] then 0 else le_sequence_number (last best)),
           ls_max_file_offset := foldr max (map le_last_file_offset best) 0\<rparr>))))"

section \<open>Replay\<close>

definition replay_descriptor :: "log_entry \<Rightarrow> dfile \<Rightarrow> descriptor \<Rightarrow> dfile res" where
  "replay_descriptor entry f d = (case d of
     ZeroDesc len off _ \<Rightarrow> zero_range f off len
   | DataDesc trailing leading off _ k \<Rightarrow>
       if k \<ge> length (le_data_sectors entry) then Inl (LogReplay ''data sector index out of range'')
       else
         let raw = le_data_sectors entry ! k; sector = leading @ bslice raw 8 4092 @ trailing
         in write_all_at f off sector)"

fun replay_descriptors :: "log_entry \<Rightarrow> descriptor list \<Rightarrow> dfile \<Rightarrow> dfile res" where
  "replay_descriptors entry [] f = Inr f"
| "replay_descriptors entry (d # ds) f =
    bindR (replay_descriptor entry f d) (\<lambda>f'. replay_descriptors entry ds f')"

fun replay_entries :: "log_entry list \<Rightarrow> dfile \<Rightarrow> dfile res" where
  "replay_entries [] f = Inr f"
| "replay_entries (e # es) f =
    bindR (replay_descriptors e (le_descriptors e) f) (\<lambda>f'. replay_entries es f')"

definition apply_replay :: "dfile \<Rightarrow> log_scan \<Rightarrow> dfile res" where
  "apply_replay f scan =
    (if ls_active_sequence scan = [] then Inr f
     else
       bindR (if f_len f < unat (ls_max_file_offset scan) then set_len f (ls_max_file_offset scan) else Inr f) (\<lambda>f'.
       replay_entries (ls_active_sequence scan) f'))"

definition mark_log_clean :: "externs \<Rightarrow> dfile \<Rightarrow> header_pair \<Rightarrow> (dfile \<times> u64) res" where
  "mark_log_clean E f pair = HeaderPair_write_new E f (HeaderPair_active pair) (\<lambda>h. h\<lparr>log_guid := nil_uuid\<rparr>)"

section \<open>The longest run\<close>

text \<open>\<open>run ss s e\<close>: the sequence numbers at \<open>s\<close>, \<dots>, \<open>e - 1\<close> increase by one each.\<close>

definition run :: "u64 list \<Rightarrow> nat \<Rightarrow> nat \<Rightarrow> bool" where
  "run ss s e \<longleftrightarrow> (\<forall>j. s \<le> j \<and> Suc j < e \<longrightarrow> ss ! Suc j = ss ! j + 1)"

definition run_inv :: "u64 list \<Rightarrow> nat \<Rightarrow> nat \<times> nat \<times> nat \<Rightarrow> bool" where
  "run_inv ss i = (\<lambda>(b, l, c).
    c < i \<and> run ss c i \<and> (c = 0 \<or> ss ! c \<noteq> ss ! (c - 1) + 1) \<and>
    1 \<le> l \<and> b + l \<le> i \<and> run ss b (b + l) \<and> (\<forall>s e. e \<le> i \<longrightarrow> run ss s e \<longrightarrow> e - s \<le> l))"

lemma run_inv_extend:
  assumes inv: "run_inv ss i (b, l, c)" and i: "0 < i" and more: "ss ! i = ss ! (i - 1) + 1"
  shows "run_inv ss (i + 1) (if i - c + 1 > l then (c, i - c + 1, c) else (b, l, c))"
proof -
  have I: "c < i" "run ss c i" "c = 0 \<or> ss ! c \<noteq> ss ! (c - 1) + 1" "\<And>s e. e \<le> i \<Longrightarrow> run ss s e \<Longrightarrow> e - s \<le> l"
    using inv by (auto simp: run_inv_def)
  have ext: "run ss c (i + 1)"
    unfolding run_def
  proof (intro allI impI)
    fix j assume j: "c \<le> j \<and> Suc j < i + 1"
    show "ss ! Suc j = ss ! j + 1" using more I(2) j i by (cases "Suc j = i") (auto simp: run_def)
  qed
  have late: "c \<le> s \<or> e \<le> s + 1" if "run ss s e" "e = i + 1" for s e
  proof (rule ccontr)
    assume "\<not> (c \<le> s \<or> e \<le> s + 1)"
    then have "s \<le> c - 1" "Suc (c - 1) < e" "0 < c" using that(2) I(1) by auto
    then have "ss ! Suc (c - 1) = ss ! (c - 1) + 1" using that(1) by (auto simp: run_def)
    with \<open>0 < c\<close> I(3) show False by simp
  qed
  have "e - s \<le> max l (i - c + 1)" if "e \<le> i + 1" "run ss s e" for s e
  proof (cases "e = i + 1")
    case True
    then show ?thesis using late [OF that(2) True] I(1) by auto
  next
    case False
    then show ?thesis using I(4) [of e s] that by auto
  qed
  then show ?thesis using inv ext by (auto simp: run_inv_def max_def split: if_splits)
qed

lemma run_inv_restart:
  assumes inv: "run_inv ss i (b, l, c)" and i: "0 < i" and gap: "ss ! i \<noteq> ss ! (i - 1) + 1"
  shows "run_inv ss (i + 1) (b, l, i)"
proof -
  have "e - s \<le> l" if "e \<le> i + 1" "run ss s e" for s e
  proof (cases "e = i + 1 \<and> s < i")
    case True
    with i have "s \<le> i - 1 \<and> Suc (i - 1) < e" by auto
    with that(2) have "ss ! Suc (i - 1) = ss ! (i - 1) + 1" unfolding run_def by blast
    with gap i show ?thesis by simp
  next
    case False
    have "1 \<le> l" "\<And>s e. e \<le> i \<Longrightarrow> run ss s e \<Longrightarrow> e - s \<le> l" using inv by (auto simp: run_inv_def)
    then show ?thesis using False that by (cases "e \<le> i") auto
  qed
  then show ?thesis using inv gap by (auto simp: run_inv_def run_def)
qed

lemma best_run_inv:
  assumes "run_inv ss i st" and "0 < i"
  shows "run_inv ss (i + n) (best_run ss i n st)"
  using assms
proof (induction n arbitrary: i st)
  case (Suc n)
  obtain b l c where st: "st = (b, l, c)" by (cases st) auto
  have IH: "run_inv ss (i + Suc n) (best_run ss (i + 1) n st')" if "run_inv ss (i + 1) st'" for st'
    using Suc.IH [OF that] by simp
  show ?case
  proof (cases "ss ! i = ss ! (i - 1) + 1")
    case True
    from IH [OF run_inv_extend [OF Suc.prems(1) [unfolded st] Suc.prems(2) True]] show ?thesis
      by (simp only: st best_run.simps Let_def True refl if_True)
  next
    case False
    then show ?thesis using IH [OF run_inv_restart [OF Suc.prems(1) [unfolded st] Suc.prems(2) False]] by (simp add: st Let_def)
  qed
qed simp

lemma select_run_longest:
  assumes "es \<noteq> []"
  obtains b where "b + length (select_run es) \<le> length es" and "select_run es \<noteq> []"
    and "select_run es = bslice es b (b + length (select_run es))"
    and "run (map le_sequence_number es) b (b + length (select_run es))"
    and "\<And>s e. e \<le> length es \<Longrightarrow> run (map le_sequence_number es) s e \<Longrightarrow> e - s \<le> length (select_run es)"
proof -
  let ?ss = "map le_sequence_number es"
  obtain b l c where r: "best_run ?ss 1 (length es - 1) (0, 1, 0) = (b, l, c)"
    by (cases "best_run ?ss 1 (length es - 1) (0, 1, 0)") auto
  have "run_inv ?ss 1 (0, 1, 0)" by (auto simp: run_inv_def run_def)
  then have "run_inv ?ss (1 + (length es - 1)) (b, l, c)"
    using best_run_inv [of ?ss 1 "(0, 1, 0)" "length es - 1"] by (simp only: r zero_less_one simp_thms)
  moreover have "1 + (length es - 1) = length es" using assms by (cases es) auto
  ultimately have inv: "1 \<le> l" "b + l \<le> length es" "run ?ss b (b + l)"
      "\<And>s e. e \<le> length es \<Longrightarrow> run ?ss s e \<Longrightarrow> e - s \<le> l"
    by (simp_all add: run_inv_def)
  have sel: "select_run es = bslice es b (b + l)" using r by (simp add: select_run_def)
  moreover have "length (select_run es) = l" using inv(2) by (simp add: sel bslice_def)
  ultimately show ?thesis using inv by (intro that [of b]) auto
qed

section \<open>What an entry that parses satisfies\<close>

definition entry_ok :: "log_entry \<Rightarrow> bool" where
  "entry_ok e \<longleftrightarrow> (\<forall>s \<in> set (le_data_sectors e). length s = 4096) \<and>
    (\<forall>d \<in> set (le_descriptors e). desc_seq d = le_sequence_number e \<and>
      (case d of ZeroDesc _ _ _ \<Rightarrow> True
       | DataDesc t l _ _ k \<Rightarrow> length t = 4 \<and> length l = 8 \<and> k < length (le_data_sectors e)))"

lemma parse_descriptors_ok:
  assumes "parse_descriptors buf seq off k n = Some (ds, k')"
  shows "k \<le> k' \<and> (\<forall>d \<in> set ds. desc_seq d = seq \<and>
    (case d of ZeroDesc _ _ _ \<Rightarrow> True | DataDesc t l _ _ j \<Rightarrow> length t = 4 \<and> length l = 8 \<and> j < k'))"
  using assms
proof (induction buf seq off k n arbitrary: ds k' rule: parse_descriptors.induct)
  case (1 buf seq off k)
  then show ?case by simp
next
  case (2 buf seq off k n)
  let ?sig = "bslice buf off (off + 4)"
  have len: "off + 32 \<le> length buf" using "2.prems" by (simp add: Let_def split: if_splits)
  consider (zero) "?sig = ZERO_DESCRIPTOR_SIGNATURE" | (data) "?sig = DATA_DESCRIPTOR_SIGNATURE" "?sig \<noteq> ZERO_DESCRIPTOR_SIGNATURE"
    using "2.prems" by (auto simp: Let_def split: if_splits)
  then show ?case
  proof cases
    case zero
    with "2.prems" len obtain ds' where "parse_descriptors buf seq (off + 32) k n = Some (ds', k')"
        and "\<exists>z o'. ds = ZeroDesc z o' seq # ds'"
      by (auto simp: Let_def split: if_splits)
    with "2.IH"(1) [OF _ refl refl refl zero] len zero "2.prems" show ?thesis
      by (auto simp: Let_def not_less split: if_splits)
  next
    case data
    with "2.prems" len obtain ds' where tail: "parse_descriptors buf seq (off + 32) (k + 1) n = Some (ds', k')"
        and ds: "\<exists>o'. ds = DataDesc (bslice buf (off + 4) (off + 8)) (bslice buf (off + 8) (off + 16)) o' seq k # ds'"
      by (auto simp: Let_def split: if_splits)
    have "read_u64 (bslice buf (off + 24) (off + 32)) = seq"
      using "2.prems" len data by (auto simp: Let_def split: if_splits)
    from "2.IH"(2) [OF _ refl refl refl data(2) data(1) _ tail] this len
    have "k + 1 \<le> k' \<and> (\<forall>d \<in> set ds'. desc_seq d = seq \<and>
      (case d of ZeroDesc _ _ _ \<Rightarrow> True | DataDesc t l _ _ j \<Rightarrow> length t = 4 \<and> length l = 8 \<and> j < k'))"
      by simp
    with ds len show ?thesis by (auto simp: bslice_def)
  qed
qed

lemma parse_data_sectors_ok:
  assumes "parse_data_sectors buf seq off n = Some secs"
  shows "length secs = n \<and> (\<forall>s \<in> set secs. length s = 4096)"
  using assms
proof (induction n arbitrary: off secs)
  case 0
  then show ?case by simp
next
  case (Suc n)
  then obtain secs' where "parse_data_sectors buf seq (off + LOG_SECTOR_SIZE) n = Some secs'"
    and "secs = bslice buf off (off + LOG_SECTOR_SIZE) # secs'" and "off + LOG_SECTOR_SIZE \<le> length buf"
    by (auto simp: Let_def split: if_splits)
  with Suc.IH show ?case by (auto simp: bslice_def LOG_SECTOR_SIZE_def)
qed

lemma parse_entry_ok:
  assumes "parse_entry E buf guid = Some e"
  shows "entry_ok e"
proof -
  from assms obtain k n off where
      d: "parse_descriptors buf (le_sequence_number e) 64 0 n = Some (le_descriptors e, k)"
      and s: "parse_data_sectors buf (le_sequence_number e) off k = Some (le_data_sectors e)"
    by (auto simp: parse_entry_def Let_def bind_eq_Some_conv split: if_splits)
  have k: "length (le_data_sectors e) = k" using parse_data_sectors_ok [OF s] by simp
  show ?thesis
    unfolding entry_ok_def k using parse_descriptors_ok [OF d] parse_data_sectors_ok [OF s] by blast
qed

lemma scan_ring_entries:
  assumes "scan_ring E buf guid c = Inr es" and "(c', e) \<in> set es"
  shows "\<exists>linear. parse_entry E linear guid = Some e"
  using assms
proof (induction E buf guid c arbitrary: es rule: scan_ring.induct)
  case (1 E buf guid cursor)
  let ?n = "unat (read_u32 (bslice buf (cursor + 8) (cursor + 12)))"
  show ?case
  proof (cases "cursor \<ge> length buf \<or> cursor + LOG_SECTOR_SIZE > length buf")
    case True
    with "1.prems" show ?thesis by (simp add: scan_ring.simps [of E buf guid cursor])
  next
    case inside: False
    show ?thesis
    proof (cases "bslice buf cursor (cursor + 4) \<noteq> LOG_ENTRY_SIGNATURE \<or> ?n = 0 \<or> ?n mod LOG_SECTOR_SIZE \<noteq> 0")
      case True
      with inside "1.prems" have "scan_ring E buf guid (cursor + LOG_SECTOR_SIZE) = Inr es"
        by (auto simp: scan_ring.simps [of E buf guid cursor] Let_def split: if_splits)
      with True inside "1.prems"(2) "1.IH"(1,2) show ?thesis by metis
    next
      case False
      with inside "1.prems"(1) obtain linear es' where lin: "linear_entry buf cursor ?n = Inr linear"
        and rest: "scan_ring E buf guid (cursor + ?n) = Inr es'"
        and es: "es = (case parse_entry E linear guid of Some e \<Rightarrow> (cursor, e) # es' | None \<Rightarrow> es')"
        by (auto simp: scan_ring.simps [of E buf guid cursor] Let_def res_simps split: if_splits)
      show ?thesis
      proof (cases "(c', e) \<in> set es'")
        case True
        then show ?thesis using "1.IH"(3) [OF _ _ refl _ lin rest] inside False by auto
      next
        case new: False
        with es "1.prems"(2) show ?thesis by (auto split: option.splits)
      qed
    qed
  qed
qed

section \<open>Replay as a list of writes\<close>

text \<open>
  The byte a reader finds at \<open>i\<close>, zero beyond the end; what a write of \<open>bs\<close> at \<open>off\<close> does to
  a file in these terms; and the writes of a scan in the order of the replay.
\<close>

definition covers :: "nat \<Rightarrow> u64 \<times> bytes \<Rightarrow> bool" where
  "covers i = (\<lambda>(off, bs). unat off \<le> i \<and> i < unat off + length bs)"

definition desc_write :: "log_entry \<Rightarrow> descriptor \<Rightarrow> u64 \<times> bytes" where
  "desc_write e d = (case d of
     ZeroDesc len off _ \<Rightarrow> (off, replicate (unat len) 0)
   | DataDesc trailing leading off _ k \<Rightarrow>
       (off, leading @ bslice (le_data_sectors e ! k) 8 4092 @ trailing))"

definition log_writes :: "log_entry list \<Rightarrow> (u64 \<times> bytes) list" where
  "log_writes es = concat (map (\<lambda>e. map (desc_write e) (le_descriptors e)) es)"

text \<open>The last write that covers a byte decides it.\<close>

definition overlay :: "(u64 \<times> bytes) list \<Rightarrow> (nat \<Rightarrow> u8) \<Rightarrow> nat \<Rightarrow> u8" where
  "overlay ws g i = (case find (covers i) (rev ws) of
     Some (off, bs) \<Rightarrow> bs ! (i - unat off)
   | None \<Rightarrow> g i)"

definition writes_end :: "(u64 \<times> bytes) list \<Rightarrow> nat" where
  "writes_end ws = foldr (\<lambda>(off, bs). max (if bs = [] then 0 else unat off + length bs)) ws 0"

definition f_cap :: "dfile \<Rightarrow> nat" where
  "f_cap f = max (f_len f) (f_max f)"

definition written :: "(u64 \<times> bytes) list \<Rightarrow> dfile \<Rightarrow> dfile \<Rightarrow> bool" where
  "written ws f f' \<longleftrightarrow> f_max f' = f_max f \<and> f_cap f' = f_cap f \<and>
    f_len f' = max (f_len f) (writes_end ws) \<and> (\<forall>i. fbyte f' i = overlay ws (fbyte f) i)"

lemma overlay_Nil [simp]: "overlay [] g = g"
  by (simp add: overlay_def fun_eq_iff)

lemma find_append: "find P (xs @ ys) = (case find P xs of Some x \<Rightarrow> Some x | None \<Rightarrow> find P ys)"
  by (induction xs) auto

lemma overlay_append: "overlay (ws @ ws') g = overlay ws' (overlay ws g)"
  by (auto simp: overlay_def fun_eq_iff find_append split: option.splits)

lemma writes_end_append: "writes_end (ws @ ws') = max (writes_end ws) (writes_end ws')"
  by (induction ws) (auto simp: writes_end_def)

lemma written_Nil: "written [] f f"
  by (simp add: written_def writes_end_def)

lemma written_append: "written ws f f1 \<Longrightarrow> written ws' f1 f2 \<Longrightarrow> written (ws @ ws') f f2"
  by (simp add: written_def overlay_append writes_end_append flip: fun_eq_iff)

lemma write_all_at_written:
  "write_all_at f off bs = Inr f' \<Longrightarrow> written [(off, bs)] f f'"
  by (auto simp: res_simps written_def overlay_def covers_def writes_end_def f_cap_def fbyte_def f_data_patch)

lemma write_all_at_cap:
  "write_all_at f off bs = Inr f' \<Longrightarrow> f_cap f \<le> f_cap g \<Longrightarrow> \<exists>g'. write_all_at g off bs = Inr g'"
  by (auto simp: res_simps f_cap_def)

text \<open>Zeroing a range is a write of zeros.\<close>

lemma zero_range_loop_written:
  assumes "zero_range_loop f cursor n = Inr f'"
  shows "written [(cursor, replicate n 0)] f f'"
  using assms
proof (induction f cursor n arbitrary: f' rule: zero_range_loop.induct)
  case (1 f cursor n)
  show ?case
  proof (cases "n = 0")
    case True
    with "1.prems" show ?thesis
      by (auto simp: written_def overlay_def covers_def writes_end_def)
  next
    case False
    define k where "k = min n 65536"
    from "1.prems" False obtain f1 where w: "write_all_at f cursor (replicate k 0) = Inr f1"
      and rest: "zero_range_loop f1 (cursor + word_of_nat k) (n - k) = Inr f'"
      by (auto simp: zero_range_loop.simps [of f] Let_def res_simps k_def)
    have IH: "written [(cursor + word_of_nat k, replicate (n - k) 0)] f1 f'"
      using "1.IH" [OF False refl] w rest by (simp add: k_def)
    have "unat cursor < 2 ^ 63" using w by (simp add: res_simps)
    then have cur: "unat (cursor + word_of_nat k) = unat cursor + k"
      by (simp add: unat_add_u64 unat_of_nat_u64 k_def)
    have W: "written [(cursor, replicate k 0), (cursor + word_of_nat k, replicate (n - k) 0)] f f'"
      using written_append [OF write_all_at_written [OF w] IH] by simp
    have kn: "k \<noteq> 0" "k \<le> n" using False by (simp_all add: k_def)
    have "overlay [(cursor, replicate k 0), (cursor + word_of_nat k, replicate (n - k) 0)] g i =
        overlay [(cursor, replicate n 0)] g i" for g i
      using kn by (auto simp: overlay_def covers_def cur)
    moreover have "writes_end [(cursor, replicate k 0), (cursor + word_of_nat k, replicate (n - k) 0)] =
        writes_end [(cursor, replicate n 0)]"
      using False kn by (auto simp: writes_end_def cur)
    ultimately show ?thesis using W by (simp add: written_def)
  qed
qed

lemma zero_range_loop_cap:
  assumes "zero_range_loop f cursor n = Inr f'" and "f_cap f \<le> f_cap g"
  shows "\<exists>g'. zero_range_loop g cursor n = Inr g'"
  using assms
proof (induction f cursor n arbitrary: f' g rule: zero_range_loop.induct)
  case (1 f cursor n)
  show ?case
  proof (cases "n = 0")
    case False
    define k where "k = min n 65536"
    from "1.prems" False obtain f1 where w: "write_all_at f cursor (replicate k 0) = Inr f1"
      and rest: "zero_range_loop f1 (cursor + word_of_nat k) (n - k) = Inr f'"
      by (auto simp: zero_range_loop.simps [of f] Let_def res_simps k_def)
    obtain g1 where g1: "write_all_at g cursor (replicate k 0) = Inr g1"
      using write_all_at_cap [OF w "1.prems"(2)] by blast
    have "f_cap f1 \<le> f_cap g1"
      using write_all_at_written [OF w] write_all_at_written [OF g1] "1.prems"(2) by (simp add: written_def)
    then obtain g' where "zero_range_loop g1 (cursor + word_of_nat k) (n - k) = Inr g'"
      using "1.IH" [OF False refl w [unfolded k_def] rest [unfolded k_def], of g1] by (auto simp: k_def)
    with g1 False show ?thesis
      by (auto simp: zero_range_loop.simps [of g] Let_def k_def)
  qed simp
qed

text \<open>A well-formed entry is replayed as its list of writes.\<close>

lemma replay_descriptor_written:
  assumes "replay_descriptor e f d = Inr f'"
  shows "written [desc_write e d] f f'"
  using assms
  by (auto simp: replay_descriptor_def desc_write_def zero_range_def
      intro: zero_range_loop_written write_all_at_written split: descriptor.splits if_splits)

lemma replay_descriptor_cap:
  assumes "replay_descriptor e f d = Inr f'" and "f_cap f \<le> f_cap g"
  shows "\<exists>g'. replay_descriptor e g d = Inr g'"
  using assms zero_range_loop_cap [of f _ _ f' g] write_all_at_cap [of f _ _ f' g]
  by (cases d) (auto simp: replay_descriptor_def zero_range_def Let_def split: if_splits)

lemma replay_descriptors_written:
  "replay_descriptors e ds f = Inr f' \<Longrightarrow> written (map (desc_write e) ds) f f'"
proof (induction ds arbitrary: f)
  case (Cons d ds)
  then obtain f1 where d: "replay_descriptor e f d = Inr f1" and ds: "replay_descriptors e ds f1 = Inr f'"
    by (auto simp: res_simps)
  show ?case
    using written_append [OF replay_descriptor_written [OF d] Cons.IH [OF ds]] by simp
qed (simp add: written_Nil)

lemma replay_descriptors_cap:
  "replay_descriptors e ds f = Inr f' \<Longrightarrow> f_cap f \<le> f_cap g \<Longrightarrow> \<exists>g'. replay_descriptors e ds g = Inr g'"
proof (induction ds arbitrary: f g)
  case (Cons d ds)
  then obtain f1 where d: "replay_descriptor e f d = Inr f1" and ds: "replay_descriptors e ds f1 = Inr f'"
    by (auto simp: res_simps)
  obtain g1 where g1: "replay_descriptor e g d = Inr g1"
    using replay_descriptor_cap [OF d Cons.prems(2)] by blast
  have "f_cap f1 \<le> f_cap g1"
    using replay_descriptor_written [OF d] replay_descriptor_written [OF g1] Cons.prems(2)
    by (simp add: written_def)
  from Cons.IH [OF ds this] g1 show ?case by auto
qed simp

lemma replay_entries_written:
  "replay_entries es f = Inr f' \<Longrightarrow> written (log_writes es) f f'"
proof (induction es arbitrary: f)
  case (Cons e es)
  then obtain f1 where e: "replay_descriptors e (le_descriptors e) f = Inr f1" and es: "replay_entries es f1 = Inr f'"
    by (auto simp: res_simps)
  show ?case
    using written_append [OF replay_descriptors_written [OF e] Cons.IH [OF es]] by (simp add: log_writes_def)
qed (simp add: written_Nil log_writes_def)

lemma replay_entries_cap:
  "replay_entries es f = Inr f' \<Longrightarrow> f_cap f \<le> f_cap g \<Longrightarrow> \<exists>g'. replay_entries es g = Inr g'"
proof (induction es arbitrary: f g)
  case (Cons e es)
  then obtain f1 where e: "replay_descriptors e (le_descriptors e) f = Inr f1" and es: "replay_entries es f1 = Inr f'"
    by (auto simp: res_simps)
  obtain g1 where g1: "replay_descriptors e (le_descriptors e) g = Inr g1"
    using replay_descriptors_cap [OF e Cons.prems(2)] by blast
  have "f_cap f1 \<le> f_cap g1"
    using replay_descriptors_written [OF e] replay_descriptors_written [OF g1] Cons.prems(2)
    by (simp add: written_def)
  from Cons.IH [OF es this] g1 show ?case by auto
qed simp

text \<open>\<open>apply_replay\<close>: the file is first made long enough, then written.\<close>

definition replay_len :: "dfile \<Rightarrow> log_scan \<Rightarrow> nat" where
  "replay_len f s = (if ls_active_sequence s = [] then f_len f
     else max (max (f_len f) (unat (ls_max_file_offset s))) (writes_end (log_writes (ls_active_sequence s))))"

lemma extend_keeps:
  assumes "(if f_len f < unat n then set_len f n else Inr f) = Inr f1"
  shows "f_len f1 = max (f_len f) (unat n)" "fbyte f1 = fbyte f" "f_cap f1 = f_cap f" "f_max f1 = f_max f"
  using assms by (auto simp: set_len_def res_simps fbyte_def fun_eq_iff f_cap_def Let_def split: if_splits)

lemma apply_replay_effect:
  assumes "apply_replay f s = Inr f'"
  shows "fbyte f' i = overlay (log_writes (ls_active_sequence s)) (fbyte f) i"
    and "f_len f' = replay_len f s" and "f_cap f' = f_cap f"
proof -
  have "fbyte f' i = overlay (log_writes (ls_active_sequence s)) (fbyte f) i \<and>
      f_len f' = replay_len f s \<and> f_cap f' = f_cap f"
  proof (cases "ls_active_sequence s = []")
    case True
    with assms show ?thesis by (simp add: apply_replay_def replay_len_def log_writes_def)
  next
    case False
    with assms obtain f1 where ext: "(if f_len f < unat (ls_max_file_offset s)
          then set_len f (ls_max_file_offset s) else Inr f) = Inr f1"
      and r: "replay_entries (ls_active_sequence s) f1 = Inr f'"
      by (auto simp: apply_replay_def res_simps)
    from replay_entries_written [OF r] extend_keeps [OF ext] False show ?thesis
      by (simp add: written_def replay_len_def)
  qed
  then show "fbyte f' i = overlay (log_writes (ls_active_sequence s)) (fbyte f) i"
    "f_len f' = replay_len f s" "f_cap f' = f_cap f" by simp_all
qed

lemma apply_replay_cap:
  assumes "apply_replay f s = Inr f'" and "f_cap g = f_cap f" and "f_len f \<le> f_len g"
  shows "\<exists>g'. apply_replay g s = Inr g'"
proof (cases "ls_active_sequence s = []")
  case True
  then show ?thesis by (simp add: apply_replay_def)
next
  case False
  let ?ext = "\<lambda>f. if f_len f < unat (ls_max_file_offset s) then set_len f (ls_max_file_offset s) else Inr f"
  from False assms obtain f1 where ext: "?ext f = Inr f1" and r: "replay_entries (ls_active_sequence s) f1 = Inr f'"
    by (auto simp: apply_replay_def res_simps)
  have "f_len g < unat (ls_max_file_offset s) \<Longrightarrow>
      unat (ls_max_file_offset s) < 2 ^ 63 \<and> unat (ls_max_file_offset s) \<le> f_cap f"
    using ext assms(3) by (auto simp: set_len_def res_simps f_cap_def Let_def split: if_splits)
  then obtain g1 where g1: "?ext g = Inr g1"
    using assms(2) by (cases "f_len g < unat (ls_max_file_offset s)") (auto simp: set_len_def seek_def f_cap_def Let_def)
  have "f_cap f1 \<le> f_cap g1" using extend_keeps(3) [OF ext] extend_keeps(3) [OF g1] assms(2) by simp
  from replay_entries_cap [OF r this] g1 False show ?thesis by (auto simp: apply_replay_def)
qed

section \<open>Properties of the log\<close>

lemma scan_log_found:
  assumes "scan_log E f h = Inr s" and "ls_active_sequence s \<noteq> []"
  obtains buf found where "read_exact_at f (log_offset h) (unat (log_length h)) = Inr buf"
    and "scan_ring E buf (log_guid h) 0 = Inr found" and "found \<noteq> []"
    and "ls_active_sequence s = select_run (sort_key le_sequence_number (map snd found))"
    and "ls_max_sequence s = le_sequence_number (last (ls_active_sequence s))"
    and "ls_max_file_offset s = foldr max (map le_last_file_offset (ls_active_sequence s)) 0"
  using assms by (auto simp: scan_log_def Let_def res_simps split: if_splits)

lemma scan_log_entry_ok:
  assumes "scan_log E f h = Inr s" and "e \<in> set (ls_active_sequence s)"
  shows "entry_ok e"
proof -
  obtain buf found where r: "scan_ring E buf (log_guid h) 0 = Inr found" and "found \<noteq> []"
    and sel: "ls_active_sequence s = select_run (sort_key le_sequence_number (map snd found))"
    using scan_log_found [OF assms(1)] assms(2) by (metis empty_iff empty_set)
  have "sort_key le_sequence_number (map snd found) \<noteq> []"
    using \<open>found \<noteq> []\<close> by (metis Nil_is_map_conv length_0_conv length_sort)
  then obtain b where "ls_active_sequence s = bslice (sort_key le_sequence_number (map snd found)) b
      (b + length (ls_active_sequence s))"
    using select_run_longest sel by metis
  then have "e \<in> set (sort_key le_sequence_number (map snd found))"
    using assms(2) by (metis bslice_def in_set_dropD in_set_takeD)
  then obtain c where "(c, e) \<in> set found" by auto
  then show ?thesis using scan_ring_entries [OF r] parse_entry_ok by blast
qed

lemma foldr_max_ge: "x \<in> set xs \<Longrightarrow> x \<le> foldr max xs (z :: u64)"
  by (induction xs) (auto simp: le_max_iff_disj)

text \<open>
  C11 (active sequence): a scan that finds something to replay has found the valid entries of
  the ring, in the order of their sequence numbers, and takes from them a block whose
  sequence numbers increase by one, at least as long as any other such block.
\<close>

theorem scan_selects_longest_run:
  assumes "scan_log E f h = Inr s" and "ls_active_sequence s \<noteq> []"
  shows "\<exists>buf found entries b. read_exact_at f (log_offset h) (unat (log_length h)) = Inr buf \<and>
    scan_ring E buf (log_guid h) 0 = Inr found \<and>
    mset entries = mset (map snd found) \<and> sorted (map le_sequence_number entries) \<and>
    b + length (ls_active_sequence s) \<le> length entries \<and>
    ls_active_sequence s = bslice entries b (b + length (ls_active_sequence s)) \<and>
    run (map le_sequence_number entries) b (b + length (ls_active_sequence s)) \<and>
    (\<forall>lo hi. hi \<le> length entries \<longrightarrow> run (map le_sequence_number entries) lo hi \<longrightarrow>
      hi - lo \<le> length (ls_active_sequence s)) \<and>
    (\<forall>e \<in> set (ls_active_sequence s). entry_ok e \<and> le_last_file_offset e \<le> ls_max_file_offset s)"
proof -
  obtain buf found where r: "read_exact_at f (log_offset h) (unat (log_length h)) = Inr buf"
    and found: "scan_ring E buf (log_guid h) 0 = Inr found" and "found \<noteq> []"
    and sel: "ls_active_sequence s = select_run (sort_key le_sequence_number (map snd found))"
    and mx: "ls_max_file_offset s = foldr max (map le_last_file_offset (ls_active_sequence s)) 0"
    using scan_log_found [OF assms] by metis
  let ?es = "sort_key le_sequence_number (map snd found)"
  have "?es \<noteq> []"
    using \<open>found \<noteq> []\<close> by (metis Nil_is_map_conv length_0_conv length_sort)
  then obtain b where "b + length (ls_active_sequence s) \<le> length ?es"
    and "ls_active_sequence s = bslice ?es b (b + length (ls_active_sequence s))"
    and "run (map le_sequence_number ?es) b (b + length (ls_active_sequence s))"
    and "\<And>lo hi. hi \<le> length ?es \<Longrightarrow> run (map le_sequence_number ?es) lo hi \<Longrightarrow>
      hi - lo \<le> length (ls_active_sequence s)"
    using select_run_longest [of ?es] unfolding sel [symmetric] by metis
  moreover have "entry_ok e \<and> le_last_file_offset e \<le> ls_max_file_offset s"
    if "e \<in> set (ls_active_sequence s)" for e
    using scan_log_entry_ok [OF assms(1) that] foldr_max_ge that by (simp add: mx)
  ultimately show ?thesis
    using r found by (intro exI [of _ buf] exI [of _ found] exI [of _ ?es] exI [of _ b]) auto
qed

text \<open>
  C12 (replay content): after a replay every byte is the one of the last descriptor, in the
  order of the active sequence, that covers it, and every byte that no descriptor covers
  reads as before the replay.
\<close>

theorem replay_applies_last_descriptor:
  assumes "apply_replay f s = Inr f'"
  shows "fbyte f' i = overlay (log_writes (ls_active_sequence s)) (fbyte f) i \<and>
    f_len f' = replay_len f s"
  using apply_replay_effect [OF assms] by simp

text \<open>
  C10 (restart): a replay that was interrupted can be started again.  Whatever an interrupted
  replay left in the ranges the log covers, and however much it extended the file, the
  second replay succeeds and produces the file that an uninterrupted one produces.
\<close>

theorem replay_is_restartable:
  assumes "apply_replay f s = Inr f'"
    and "f_cap g = f_cap f" and "f_len f \<le> f_len g" and "f_len g \<le> f_len f'"
    and "\<And>i. \<not> (\<exists>w \<in> set (log_writes (ls_active_sequence s)). covers i w) \<Longrightarrow> fbyte g i = fbyte f i"
  shows "\<exists>g'. apply_replay g s = Inr g' \<and> f_len g' = f_len f' \<and> (\<forall>i. fbyte g' i = fbyte f' i)"
proof -
  let ?ws = "log_writes (ls_active_sequence s)"
  obtain g' where g': "apply_replay g s = Inr g'"
    using apply_replay_cap [OF assms(1-3)] by blast
  have "f_len g' = f_len f'"
    using apply_replay_effect(2) [OF g'] apply_replay_effect(2) [OF assms(1)] assms(3,4)
    by (auto simp: replay_len_def max_def split: if_splits)
  moreover have "fbyte g' i = fbyte f' i" for i
  proof -
    have "overlay ?ws (fbyte g) i = overlay ?ws (fbyte f) i"
    proof (cases "find (covers i) (rev ?ws)")
      case None
      then have "\<not> (\<exists>w \<in> set ?ws. covers i w)" unfolding find_None_iff set_rev by blast
      with None assms(5) show ?thesis by (simp add: overlay_def)
    qed (auto simp: overlay_def)
    then show ?thesis using apply_replay_effect(1) [OF g'] apply_replay_effect(1) [OF assms(1)] by simp
  qed
  ultimately show ?thesis using g' by blast
qed

text \<open>
  C26 (replay errors): the replay of a scan of the log fails only where the file cannot be
  written: no descriptor of an entry that was accepted names a data sector the entry lacks.
\<close>

lemma write_all_at_Inl: "write_all_at f off bs = Inl e \<Longrightarrow> \<exists>k. e = Io k"
  by (auto simp: write_all_at_def seek_def split: if_splits)

lemma zero_range_loop_Inl: "zero_range_loop f cursor n = Inl e \<Longrightarrow> \<exists>k. e = Io k"
proof (induction f cursor n rule: zero_range_loop.induct)
  case (1 f cursor n)
  then show ?case
    by (subst (asm) (2) zero_range_loop.simps)
      (auto simp: Let_def bindR_eq_Inl split: if_splits dest: write_all_at_Inl)
qed

lemma replay_descriptor_Inl:
  assumes "entry_ok e" and "d \<in> set (le_descriptors e)" and "replay_descriptor e f d = Inl err"
  shows "\<exists>k. err = Io k"
proof (cases d)
  case (ZeroDesc len off seq)
  with assms(3) show ?thesis
    by (auto simp: replay_descriptor_def zero_range_def dest: zero_range_loop_Inl)
next
  case (DataDesc trailing leading off seq k)
  then have "k < length (le_data_sectors e)" using assms(1,2) by (auto simp: entry_ok_def)
  with DataDesc assms(3) show ?thesis
    by (auto simp: replay_descriptor_def Let_def dest: write_all_at_Inl)
qed

lemma replay_descriptors_Inl:
  "entry_ok e \<Longrightarrow> set ds \<subseteq> set (le_descriptors e) \<Longrightarrow> replay_descriptors e ds f = Inl err \<Longrightarrow> \<exists>k. err = Io k"
  by (induction ds arbitrary: f) (auto simp: bindR_eq_Inl dest: replay_descriptor_Inl)

lemma replay_entries_Inl:
  "\<forall>e \<in> set es. entry_ok e \<Longrightarrow> replay_entries es f = Inl err \<Longrightarrow> \<exists>k. err = Io k"
  by (induction es arbitrary: f) (auto simp: bindR_eq_Inl dest: replay_descriptors_Inl [OF _ order_refl])

theorem replay_of_scan_fails_only_on_io:
  assumes "scan_log E f h = Inr s" and "apply_replay g s = Inl err"
  shows "\<exists>k. err = Io k"
proof -
  have "\<forall>e \<in> set (ls_active_sequence s). entry_ok e"
    using scan_log_entry_ok [OF assms(1)] by blast
  with assms(2) show ?thesis
    by (auto simp: apply_replay_def bindR_eq_Inl set_len_def seek_def split: if_splits
      dest: replay_entries_Inl)
qed

section \<open>Entries longer than the ring\<close>

definition entry_length_at :: "bytes \<Rightarrow> nat \<Rightarrow> nat" where
  "entry_length_at buf c = unat (read_u32 (bslice buf (c + 8) (c + 12)))"

lemma linear_entry_ok:
  assumes "entry_length_at buf c \<le> length buf"
  shows "\<exists>linear. linear_entry buf c (entry_length_at buf c) = Inr linear"
  using assms by (auto simp: linear_entry_def Let_def)

lemma scan_ring_total:
  assumes "\<And>c. c < length buf \<Longrightarrow> entry_length_at buf c \<le> length buf"
  shows "\<exists>es. scan_ring E buf guid cursor = Inr es"
  using assms
proof (induction E buf guid cursor rule: scan_ring.induct)
  case (1 E buf guid cursor)
  let ?n = "entry_length_at buf cursor"
  show ?case
  proof (cases "cursor \<ge> length buf \<or> cursor + LOG_SECTOR_SIZE > length buf")
    case True
    then show ?thesis by (simp add: scan_ring.simps [of E buf guid cursor])
  next
    case inside: False
    show ?thesis
    proof (cases "bslice buf cursor (cursor + 4) \<noteq> LOG_ENTRY_SIGNATURE \<or> ?n = 0 \<or> ?n mod LOG_SECTOR_SIZE \<noteq> 0")
      case True
      with inside have "scan_ring E buf guid cursor = scan_ring E buf guid (cursor + LOG_SECTOR_SIZE)"
        by (auto simp: scan_ring.simps [of E buf guid cursor] Let_def entry_length_at_def)
      with True inside "1.IH"(1,2) "1.prems" show ?thesis unfolding entry_length_at_def by metis
    next
      case False
      obtain linear where lin: "linear_entry buf cursor ?n = Inr linear"
        using linear_entry_ok "1.prems" inside by (meson not_le)
      obtain es where es: "scan_ring E buf guid (cursor + ?n) = Inr es"
        using "1.IH"(3) [OF _ _ refl _ lin [unfolded entry_length_at_def]] inside False "1.prems"
        by (auto simp: entry_length_at_def)
      show ?thesis
        using inside False lin es
        by (auto simp: scan_ring.simps [of E buf guid cursor] Let_def entry_length_at_def)
    qed
  qed
qed


section \<open>Marking the log clean\<close>

text \<open>
  C17 (clean log): after \<open>mark_log_clean\<close> the active header of the file has no log, the
  sequence number is one above the old one, and a scan finds nothing to replay.
\<close>

theorem mark_log_clean_leaves_no_log:
  assumes "uuid_laws E" and "HeaderPair_read E f = Inr p"
    and "sequence_number (HeaderPair_active p) + 1 \<noteq> 0"
  shows "\<exists>f' p' s. mark_log_clean E f p = Inr (f', sequence_number (HeaderPair_active p) + 1) \<and>
    HeaderPair_read E f' = Inr p' \<and>
    HeaderPair_active p' = successor E (HeaderPair_active p) (\<lambda>h. h\<lparr>log_guid := nil_uuid\<rparr>) \<and>
    scan_log E f' (HeaderPair_active p') = Inr s \<and> ls_active_sequence s = []"
proof -
  have v: "version (HeaderPair_active p) = 1" "log_version (HeaderPair_active p) = 0"
    using HeaderPair_readD(3) [OF assms(2)] by (simp_all add: is_valid_def)
  obtain f' p' where w: "mark_log_clean E f p = Inr (f', sequence_number (HeaderPair_active p) + 1)"
    and r: "HeaderPair_read E f' = Inr p'"
    and a: "HeaderPair_active p' = successor E (HeaderPair_active p) (\<lambda>h. h\<lparr>log_guid := nil_uuid\<rparr>)"
    using write_new_active [OF assms(1,2) _ _ assms(3), of "\<lambda>h. h\<lparr>log_guid := nil_uuid\<rparr>"] v
    by (auto simp: mark_log_clean_def)
  have "log_guid (HeaderPair_active p') = nil_uuid" by (simp add: a successor_def stamped_def)
  then have "\<exists>s. scan_log E f' (HeaderPair_active p') = Inr s \<and> ls_active_sequence s = []"
    by (simp add: scan_log_def)
  with w r a show ?thesis by blast
qed

section \<open>A concrete log\<close>

text \<open>
  A ring of one sector at offset 0 whose entry, with sequence number 5, zeroes 4 KiB at
  offset 8192 of a file of sevens.
\<close>

definition log_head :: bytes where
  "log_head = [108, 111, 103, 101, 0, 0, 0, 0, 0, 16, 0, 0, 0, 0, 0, 0,
    5, 0, 0, 0, 0, 0, 0, 0, 1, 0, 0, 0, 0, 0, 0, 0,
    1, 0, 0, 0, 0, 0, 0, 0, 0, 0, 0, 0, 0, 0, 0, 0,
    0, 0, 0, 0, 0, 0, 0, 0, 0, 64, 0, 0, 0, 0, 0, 0,
    122, 101, 114, 111, 0, 0, 0, 0, 0, 16, 0, 0, 0, 0, 0, 0,
    0, 32, 0, 0, 0, 0, 0, 0, 5, 0, 0, 0, 0, 0, 0, 0]"

definition log_ring :: bytes where
  "log_ring = log_head @ replicate 4000 0"

definition log_file :: dfile where
  "log_file = \<lparr>f_data = (\<lambda>i. if i < 4096 then log_ring ! i else 7), f_len = 16384, f_max = 16384\<rparr>"

definition log_sample_header :: header where
  "log_sample_header = blank_header\<lparr>log_guid := 0x1000000000000000000000000,
     log_length := 4096, log_offset := 0\<rparr>"

definition log_sample_entry :: log_entry where
  "log_sample_entry = \<lparr>le_sequence_number = 5, le_flushed_file_offset = 0, le_last_file_offset = 16384,
     le_descriptors = [ZeroDesc 4096 8192 5], le_data_sectors = [], le_byte_len = 4096\<rparr>"

definition log_sample_scan :: log_scan where
  "log_sample_scan = \<lparr>ls_log_offset = 0, ls_log_length = 4096, ls_active_sequence = [log_sample_entry],
     ls_max_sequence = 5, ls_max_file_offset = 16384\<rparr>"

lemma length_log_head [simp]: "length log_head = 96"
  by (simp add: log_head_def)

lemma log_ring_slice: "hi \<le> 96 \<Longrightarrow> bslice log_ring lo hi = bslice log_head lo hi"
  by (simp add: log_ring_def bslice_def)

lemma length_log_ring [simp]: "length log_ring = 4096"
  by (simp add: log_ring_def)

lemma log_head_reads:
  "bslice log_head 0 4 = LOG_ENTRY_SIGNATURE" "read_u32 (bslice log_head 8 12) = 4096"
  "read_u64 (bslice log_head 16 24) = 5" "read_u32 (bslice log_head 24 28) = 1"
  "read_u64 (bslice log_head 48 56) = 0" "read_u64 (bslice log_head 56 64) = 16384"
  "bslice log_head 64 68 = ZERO_DESCRIPTOR_SIGNATURE" "read_u64 (bslice log_head 72 80) = 4096"
  "read_u64 (bslice log_head 80 88) = 8192" "read_u64 (bslice log_head 88 96) = 5"
  by code_simp+

lemma log_head_guid: "read_guid ref_externs (bslice log_head 32 48) = 0x1000000000000000000000000"
proof -
  have "bslice log_head 32 48 = [1, 0, 0, 0, 0, 0, 0, 0, 0, 0, 0, 0, 0, 0, 0, 0]"
    by (simp add: log_head_def bslice_def)
  then show ?thesis
    by (simp add: read_guid_def ref_externs_def ref_from_bytes_le_def bslice_def)
qed

lemma log_sample_descriptors: "parse_descriptors log_ring 5 64 0 1 = Some ([ZeroDesc 4096 8192 5], 0)"
  unfolding One_nat_def parse_descriptors.simps Let_def
  by (simp add: log_ring_slice log_head_reads)

lemma log_sample_parse:
  "parse_entry ref_externs log_ring (log_guid log_sample_header) = Some log_sample_entry"
  using log_sample_descriptors
  by (simp add: parse_entry_def Let_def log_ring_slice log_head_reads LOG_SECTOR_SIZE_def
      log_sample_header_def log_sample_entry_def read_guid_at_def log_head_guid)

lemma log_sample_read: "read_exact_at log_file 0 4096 = Inr log_ring"
proof -
  have "file_bytes log_file 0 4096 = log_ring"
    by (rule nth_equalityI) (simp_all add: nth_file_bytes log_file_def)
  then show ?thesis by (simp add: res_simps log_file_def)
qed

lemma log_sample_scan: "scan_log ref_externs log_file log_sample_header = Inr log_sample_scan"
proof -
  have fields: "log_offset log_sample_header = 0" "log_length log_sample_header = 4096"
      "log_guid log_sample_header \<noteq> nil_uuid"
    by (simp_all add: log_sample_header_def nil_uuid_def)
  have "linear_entry log_ring 0 4096 = Inr log_ring"
    using slice_full [of log_ring] by (simp add: linear_entry_def del: slice_full)
  moreover have "scan_ring ref_externs log_ring (log_guid log_sample_header) 4096 = Inr []"
    by (simp add: scan_ring.simps [of _ _ _ 4096])
  ultimately have "scan_ring ref_externs log_ring (log_guid log_sample_header) 0 = Inr [(0, log_sample_entry)]"
    by (simp add: scan_ring.simps [of _ _ _ 0] Let_def log_ring_slice log_head_reads LOG_SECTOR_SIZE_def
        log_sample_parse)
  then show ?thesis
    by (simp add: scan_log_def Let_def fields log_sample_read select_run_def log_sample_scan_def
        log_sample_entry_def bslice_def)
qed

lemma log_sample_replay:
  obtains f' where "apply_replay log_file log_sample_scan = Inr f'" and "f_len f' = 16384"
proof -
  have "zero_range log_file 8192 4096 = Inr (patch log_file 8192 (replicate 4096 0))"
    by (simp add: zero_range_def zero_range_loop_eq log_file_def)
  then have "apply_replay log_file log_sample_scan = Inr (patch log_file 8192 (replicate 4096 0))"
    by (auto simp: apply_replay_def log_sample_scan_def log_sample_entry_def log_file_def
        replay_descriptor_def)
  then show ?thesis by (rule that) (simp add: log_file_def)
qed

theorem scan_selects_longest_run_witness:
  "\<exists>s found. scan_log ref_externs log_file log_sample_header = Inr s \<and>
    scan_ring ref_externs log_ring (log_guid log_sample_header) 0 = Inr found \<and>
    length (ls_active_sequence s) = 1 \<and> length (ls_active_sequence s) \<le> length found"
proof -
  have ne: "ls_active_sequence log_sample_scan \<noteq> []" by (simp add: log_sample_scan_def)
  obtain buf found b and es :: "log_entry list" where r: "read_exact_at log_file (log_offset log_sample_header)
        (unat (log_length log_sample_header)) = Inr buf"
      and f: "scan_ring ref_externs buf (log_guid log_sample_header) 0 = Inr found"
      and es: "mset es = mset (map snd found)"
      and len: "b + length (ls_active_sequence log_sample_scan) \<le> length es"
    using scan_selects_longest_run [OF log_sample_scan ne] by blast
  have "buf = log_ring" using r log_sample_read by (simp add: log_sample_header_def)
  moreover have "length es = length found" using mset_eq_length [OF es] by simp
  ultimately show ?thesis
    using f len log_sample_scan by (intro exI [of _ log_sample_scan] exI [of _ found]) (auto simp: log_sample_scan_def)
qed

theorem replay_applies_last_descriptor_witness:
  "\<exists>f'. apply_replay log_file log_sample_scan = Inr f' \<and> fbyte f' 8192 = 0 \<and> fbyte f' 12288 = 7"
proof -
  obtain f' where r: "apply_replay log_file log_sample_scan = Inr f'" by (rule log_sample_replay)
  have log: "log_writes (ls_active_sequence log_sample_scan) = [(8192, replicate 4096 0)]"
    by (simp add: log_writes_def log_sample_scan_def log_sample_entry_def desc_write_def)
  have "fbyte f' i = overlay [(8192, replicate 4096 0)] (fbyte log_file) i" for i
    using replay_applies_last_descriptor [OF r] by (simp only: log)
  then have "fbyte f' 8192 = 0 \<and> fbyte f' 12288 = 7"
    by (simp add: overlay_def covers_def) (simp add: fbyte_def log_file_def)
  with r show ?thesis by blast
qed

theorem replay_is_restartable_witness:
  "\<exists>f' g'. apply_replay log_file log_sample_scan = Inr f' \<and>
    apply_replay (patch log_file 8192 [1, 2, 3]) log_sample_scan = Inr g' \<and> fbyte g' 8193 = fbyte f' 8193"
proof -
  let ?g = "patch log_file 8192 [1, 2, 3]"
  obtain f' where r: "apply_replay log_file log_sample_scan = Inr f'" and len: "f_len f' = 16384"
    by (rule log_sample_replay)
  have "fbyte ?g i = fbyte log_file i"
    if "\<not> (\<exists>w \<in> set (log_writes (ls_active_sequence log_sample_scan)). covers i w)" for i
    using that by (auto simp: fbyte_def f_data_patch log_file_def log_writes_def log_sample_scan_def
        log_sample_entry_def desc_write_def covers_def)
  then obtain g' where "apply_replay ?g log_sample_scan = Inr g'" "\<forall>i. fbyte g' i = fbyte f' i"
    using replay_is_restartable [OF r, of ?g] len by (auto simp: f_cap_def log_file_def)
  with r show ?thesis by blast
qed

theorem replay_of_scan_fails_only_on_io_witness:
  "\<exists>k. apply_replay \<lparr>f_data = (\<lambda>_. 0), f_len = 100, f_max = 100\<rparr> log_sample_scan = Inl (Io k)"
proof -
  obtain e where e: "apply_replay \<lparr>f_data = (\<lambda>_. 0), f_len = 100, f_max = 100\<rparr> log_sample_scan = Inl e"
    by (simp add: apply_replay_def log_sample_scan_def set_len_def seek_def Let_def)
  with replay_of_scan_fails_only_on_io [OF log_sample_scan e] show ?thesis by blast
qed


theorem mark_log_clean_leaves_no_log_witness:
  "\<exists>f p f' p' s. HeaderPair_read ref_externs f = Inr p \<and> mark_log_clean ref_externs f p = Inr (f', 10) \<and>
    HeaderPair_read ref_externs f' = Inr p' \<and> scan_log ref_externs f' (HeaderPair_active p') = Inr s \<and>
    ls_active_sequence s = []"
proof -
  let ?f = "header_file ref_externs (sample_header 5) (sample_header 9)"
  obtain p where p: "HeaderPair_read ref_externs ?f = Inr p"
    "HeaderPair_active p = stamped ref_externs (sample_header 9)"
    using header_file_read [of 5 9] by auto
  have seq: "sequence_number (HeaderPair_active p) = 9" by (simp add: p(2))
  show ?thesis
    using mark_log_clean_leaves_no_log [OF ref_uuid_laws p(1)] p(1) unfolding seq by simp blast
qed

end
