(* ===== verification/Vhdx_Repair.thy ===== *)
theory Vhdx_Repair
  imports Vhdx_Disk Vhdx_Log Vhdx_FS
begin

text \<open>
  \<open>repair.rs\<close>: the check of a file with optional repair, which is what the commands run
  before they work on a file, and the forced removal of the log.  An operation gets the
  contents of the file and returns the new contents.  The texts of issues and warnings are
  constructors that carry the numbers the texts show.
\<close>

section \<open>Reports\<close>

datatype header_status = HeadersBothValid | Header1Only | Header2Only | HeadersBothInvalid

datatype region_status = RegionsBothValid | Table1Only | Table2Only | RegionsBothInvalid

datatype log_status = LogEmpty | Replayed nat u64 | Discarded nat

datatype bat_issue = OffsetZero u64 | ExceedsFile u64 u64 u64 u64 | UnknownState u64 u8

datatype fsck_warning = ReplayableEntries nat | LogDiscarded | LogCorrupt

record fsck_report =
  fk_path :: path
  fk_header_status :: header_status
  fk_region_status :: region_status
  fk_log_replay :: log_status
  fk_bat_issues :: "bat_issue list"
  fk_fixed :: bool
  fk_warnings :: "fsck_warning list"

record fsck_options =
  fk_fix :: bool
  fk_dry_run :: bool
  fk_allow_log_discard :: bool

definition FsckOptions_default :: fsck_options where
  "FsckOptions_default = \<lparr>fk_fix = False, fk_dry_run = False, fk_allow_log_discard = True\<rparr>"

section \<open>The check\<close>

definition header_status_of :: "header_pair \<Rightarrow> header_status" where
  "header_status_of p = (case (is_valid (fst (headers p)), is_valid (snd (headers p))) of
     (True, True) \<Rightarrow> HeadersBothValid | (True, False) \<Rightarrow> Header1Only
   | (False, True) \<Rightarrow> Header2Only | (False, False) \<Rightarrow> HeadersBothInvalid)"

definition region_status_of :: "region_table_pair \<Rightarrow> region_status" where
  "region_status_of p = (case (fst (rp_tables p) \<noteq> None, snd (rp_tables p) \<noteq> None) of
     (True, True) \<Rightarrow> RegionsBothValid | (True, False) \<Rightarrow> Table1Only
   | (False, True) \<Rightarrow> Table2Only | (False, False) \<Rightarrow> RegionsBothInvalid)"

definition repair_headers :: "externs \<Rightarrow> dfile \<Rightarrow> header_pair \<Rightarrow> (dfile \<times> bool) res" where
  "repair_headers E f pair =
    (if header_status_of pair \<noteq> HeadersBothValid then
       let active = HeaderPair_active pair in
       bindR (HeaderPair_write_new E f active (\<lambda>h. h)) (\<lambda>(f, _).
       bindR (HeaderPair_write_new E f active (\<lambda>h. h)) (\<lambda>(f, _).
       Inr (f, True)))
     else Inr (f, False))"

definition repair_regions :: "externs \<Rightarrow> dfile \<Rightarrow> region_table_pair \<Rightarrow> region_table \<Rightarrow> (dfile \<times> bool) res" where
  "repair_regions E f rp region =
    (if region_status_of rp \<noteq> RegionsBothValid
     then bindR (RegionTablePair_write_both E f region) (\<lambda>f. Inr (f, True))
     else Inr (f, False))"

text \<open>The log step; \<open>write\<close> is \<open>opts.fix && !opts.dry_run\<close>.\<close>

definition fsck_log ::
    "externs \<Rightarrow> fsck_options \<Rightarrow> dfile \<Rightarrow> header_pair \<Rightarrow> (dfile \<times> log_status \<times> fsck_warning list \<times> bool) res" where
  "fsck_log E opts f pair =
    (let active = HeaderPair_active pair; wr = fk_fix opts \<and> \<not> fk_dry_run opts in
     if log_guid active \<noteq> nil_uuid \<and> log_length active > 0 then
       bindR (scan_log E f active) (\<lambda>scan.
       let n = length (ls_active_sequence scan) in
       if n > 0 then
         if wr then
           bindR (apply_replay f scan) (\<lambda>f.
           bindR (mark_log_clean E f pair) (\<lambda>(f, _).
           Inr (f, Replayed n (ls_max_sequence scan), [], True)))
         else Inr (f, Replayed n (ls_max_sequence scan), [ReplayableEntries n], False)
       else if wr \<and> fk_allow_log_discard opts then
         bindR (mark_log_clean E f pair) (\<lambda>(f, _). Inr (f, Discarded 0, [LogDiscarded], True))
       else if \<not> fk_fix opts then Inr (f, LogEmpty, [LogCorrupt], False)
       else Inr (f, LogEmpty, [], False))
     else Inr (f, LogEmpty, [], False))"

text \<open>The loop over the table: payload entries since the last bitmap entry, and the block number.\<close>

fun bat_issues :: "u64 \<Rightarrow> u64 \<Rightarrow> u64 \<Rightarrow> bat_entry list \<Rightarrow> u64 \<Rightarrow> u64 \<Rightarrow> bat_issue list" where
  "bat_issues ratio bs file_len [] chunk_payload_count payload_idx = []"
| "bat_issues ratio bs file_len (entry # es) chunk_payload_count payload_idx =
    (if chunk_payload_count = ratio then bat_issues ratio bs file_len es 0 payload_idx
     else
       (case PayloadState_from_raw (entry_state entry) of
          FullyPresent \<Rightarrow>
            (let off = entry_file_offset entry in
             if off = 0 then [OffsetZero payload_idx]
             else if off + bs > file_len then [ExceedsFile payload_idx off bs file_len] else [])
        | PartiallyPresent \<Rightarrow>
            (let off = entry_file_offset entry in
             if off = 0 then [OffsetZero payload_idx]
             else if off + bs > file_len then [ExceedsFile payload_idx off bs file_len] else [])
        | OtherState s \<Rightarrow> [UnknownState payload_idx s]
        | _ \<Rightarrow> [])
       @ bat_issues ratio bs file_len es (chunk_payload_count + 1) (payload_idx + 1))"

definition fsck_bat :: "externs \<Rightarrow> dfile \<Rightarrow> region_table \<Rightarrow> bat_issue list res" where
  "fsck_bat E f region =
    bindR (ok_or (RegionTable_bat region) (MissingRegion ''BAT'')) (\<lambda>bat_region.
    bindR (ok_or (RegionTable_metadata region) (MissingRegion ''Metadata'')) (\<lambda>metadata_region.
    bindR (read_exact_at f (re_file_offset metadata_region) (unat (re_length metadata_region))) (\<lambda>metadata_buf.
    bindR (Metadata_parse E metadata_buf) (\<lambda>md.
    bindR (read_exact_at f (re_file_offset bat_region) (unat (re_length bat_region))) (\<lambda>bat_buf.
    bindR (block_count md) (\<lambda>bcount.
    bindR (chunk_ratio md) (\<lambda>ratio.
    bindR (Bat_parse bat_buf bcount ratio (fp_has_parent (file_parameters md))) (\<lambda>table.
    Inr (bat_issues ratio (ucast (block_size md)) (word_of_nat (f_len f)) (bat_entries table) 0 0)))))))))"

definition fsck :: "externs \<Rightarrow> path \<Rightarrow> fsck_options \<Rightarrow> dfile \<Rightarrow> (dfile \<times> fsck_report) res" where
  "fsck E p opts f =
    bindR (verify_file_type f) (\<lambda>_.
    bindR (HeaderPair_read E f) (\<lambda>pair.
    bindR (RegionTablePair_read E f) (\<lambda>region_pair.
    bindR (RegionTablePair_active region_pair) (\<lambda>region.
    bindR (validate_layout region) (\<lambda>_.
    let wr = fk_fix opts \<and> \<not> fk_dry_run opts in
    bindR (if wr then repair_headers E f pair else Inr (f, False)) (\<lambda>(f, fixed1).
    bindR (if wr then repair_regions E f region_pair region else Inr (f, False)) (\<lambda>(f, fixed2).
    bindR (fsck_log E opts f pair) (\<lambda>(f, log, warns, fixed3).
    bindR (fsck_bat E f region) (\<lambda>issues.
    Inr (f, \<lparr>fk_path = p, fk_header_status = header_status_of pair,
      fk_region_status = region_status_of region_pair, fk_log_replay = log, fk_bat_issues = issues,
      fk_fixed = fixed1 \<or> fixed2 \<or> fixed3, fk_warnings = warns\<rparr>))))))))))"

definition fsck_fix_options :: fsck_options where
  "fsck_fix_options = \<lparr>fk_fix = True, fk_dry_run = False, fk_allow_log_discard = True\<rparr>"

definition open_repaired :: "externs \<Rightarrow> path \<Rightarrow> dfile \<Rightarrow> dfile res" where
  "open_repaired E p f =
    bindR (fsck E p fsck_fix_options f) (\<lambda>(f, report).
    if fk_bat_issues report \<noteq> [] then Inl (Integrity ''BAT issues found'') else Inr f)"

definition force_clean_log :: "externs \<Rightarrow> dfile \<Rightarrow> dfile res" where
  "force_clean_log E f =
    bindR (verify_file_type f) (\<lambda>_.
    bindR (HeaderPair_read E f) (\<lambda>pair.
    let active = HeaderPair_active pair;
        new_header = active\<lparr>log_guid := nil_uuid, sequence_number := sequence_number active + 1\<rparr>;
        raw = Header_encode E new_header in
    bindR (write_all_at f (header_offset 0) raw) (\<lambda>f.
    write_all_at f (header_offset 1) raw)))"

text \<open>On the file system: the check the operations on whole chains run before they work on a file.\<close>

definition repair_unless :: "externs \<Rightarrow> bool \<Rightarrow> fsys \<Rightarrow> path \<Rightarrow> fsys res" where
  "repair_unless E skip fs p =
    (if skip then Inr fs else bindR (on_file fs p (fsck E p fsck_fix_options)) (\<lambda>(fs, _). Inr fs))"

section \<open>The steps of a check\<close>

lemma fsck_steps:
  assumes "fsck E p opts f = Inr (f', rep)"
  obtains pair rp region f1 x1 f2 x2 st ws x3 where
      "verify_file_type f = Inr ()" and "HeaderPair_read E f = Inr pair"
    and "RegionTablePair_read E f = Inr rp" and "RegionTablePair_active rp = Inr region"
    and "validate_layout region = Inr ()"
    and "(if fk_fix opts \<and> \<not> fk_dry_run opts then repair_headers E f pair else Inr (f, False)) = Inr (f1, x1)"
    and "(if fk_fix opts \<and> \<not> fk_dry_run opts then repair_regions E f1 rp region else Inr (f1, False)) = Inr (f2, x2)"
    and "fsck_log E opts f2 pair = Inr (f', st, ws, x3)"
    and "fsck_bat E f' region = Inr (fk_bat_issues rep)" and "fk_fixed rep = (x1 \<or> x2 \<or> x3)"
    and "fk_log_replay rep = st" and "fk_header_status rep = header_status_of pair"
  using assms unfolding fsck_def Let_def
  by (auto simp: res_simps split del: if_split)

text \<open>The writes of the regions and of the log leave the header slots alone.\<close>

definition same_slots :: "dfile \<Rightarrow> dfile \<Rightarrow> bool" where
  "same_slots f g \<longleftrightarrow> (has_slots f \<longrightarrow> has_slots g) \<and> (\<forall>E. has_slots f \<longrightarrow> slot E g 0 = slot E f 0 \<and> slot E g 1 = slot E f 1)"

lemma same_slots_refl [simp]: "same_slots f f"
  by (simp add: same_slots_def)

lemma same_slots_trans: "same_slots f g \<Longrightarrow> same_slots g h \<Longrightarrow> same_slots f h"
  by (simp add: same_slots_def)

lemma same_slots_read: "has_slots f \<Longrightarrow> same_slots f g \<Longrightarrow> HeaderPair_read E g = Inr p' \<Longrightarrow>
    \<exists>p. HeaderPair_read E f = Inr p \<and> HeaderPair_active p' = HeaderPair_active p"
  using HeaderPair_read_slots [of f E] HeaderPair_read_slots [of g E]
  by (auto simp: same_slots_def HeaderPair_active_def split: if_splits)

lemma same_slots_bytes:
  assumes "f_len f \<le> f_len g" and "\<And>i. i < 196608 \<Longrightarrow> i < f_len f \<Longrightarrow> fbyte g i = fbyte f i"
  shows "same_slots f g"
proof -
  have "f_data g i = f_data f i" if "has_slots f" "i < 196608" for i
    using that assms(1) assms(2) [of i] by (simp add: fbyte_def has_slots_def)
  then have "file_bytes g 65536 65536 = file_bytes f 65536 65536"
      "file_bytes g 131072 65536 = file_bytes f 131072 65536" if "has_slots f"
    using that by (auto intro!: file_bytes_eqI)
  then show ?thesis using assms(1) by (auto simp: same_slots_def slot_def has_slots_def)
qed

lemma same_slots_write:
  assumes "write_all_at f off bs = Inr g" and "196608 \<le> unat off"
  shows "same_slots f g"
  using assms by (intro same_slots_bytes) (auto simp: res_simps fbyte_def f_data_patch)

lemma same_slots_regions:
  assumes "repair_regions E f rp region = Inr (g, x)"
  shows "same_slots f g"
proof (cases "region_status_of rp = RegionsBothValid")
  case True
  with assms show ?thesis by (simp add: repair_regions_def)
next
  case False
  with assms obtain raw f1 where w: "write_all_at f (region_table_offset 0) raw = Inr f1"
      "write_all_at f1 (region_table_offset 1) raw = Inr g"
    by (simp add: repair_regions_def RegionTablePair_write_both_def Let_def bindR_eq_Inr) blast
  have o: "(196608 :: nat) \<le> unat (region_table_offset 0)" "(196608 :: nat) \<le> unat (region_table_offset 1)"
    by (simp_all add: offset_defs)
  show ?thesis
    by (rule same_slots_trans [OF same_slots_write [OF w(1) o(1)] same_slots_write [OF w(2) o(2)]])
qed

definition log_beyond_headers :: "log_scan \<Rightarrow> bool" where
  "log_beyond_headers s \<longleftrightarrow> (\<forall>(off, bs) \<in> set (log_writes (ls_active_sequence s)). 196608 \<le> unat off)"

lemma same_slots_replay:
  assumes "apply_replay f s = Inr g" and "log_beyond_headers s"
  shows "same_slots f g"
proof (rule same_slots_bytes)
  show "f_len f \<le> f_len g"
    using apply_replay_effect(2) [OF assms(1)] by (auto simp: replay_len_def max_def)
  fix i :: nat assume i: "i < 196608"
  then have "find (covers i) (rev (log_writes (ls_active_sequence s))) = None"
    using assms(2) by (fastforce simp: find_None_iff log_beyond_headers_def covers_def)
  then show "fbyte g i = fbyte f i" using apply_replay_effect(1) [OF assms(1)] by (simp add: overlay_def)
qed

text \<open>The rewriting of headers and region tables leaves the bytes from 320 KiB on alone.\<close>

definition same_tail :: "dfile \<Rightarrow> dfile \<Rightarrow> bool" where
  "same_tail f g \<longleftrightarrow> f_len f \<le> f_len g \<and> f_len g \<le> max (f_len f) 327680 \<and>
    (\<forall>i. 327680 \<le> i \<longrightarrow> i < f_len f \<longrightarrow> f_data g i = f_data f i)"

lemma same_tail_refl [simp]: "same_tail f f"
  by (simp add: same_tail_def)

lemma same_tail_trans: "same_tail f g \<Longrightarrow> same_tail g h \<Longrightarrow> same_tail f h"
  by (auto simp: same_tail_def)

lemma same_tail_write:
  assumes "write_all_at f off bs = Inr g" and "unat off + length bs \<le> 327680"
  shows "same_tail f g"
  using assms by (auto simp: res_simps same_tail_def f_data_patch)

lemma same_tail_read:
  assumes "same_tail f g" and "327680 \<le> unat off" and "n \<noteq> 0"
  shows "read_exact_at g off n = read_exact_at f off n"
proof -
  have "unat off + n \<le> f_len g \<longleftrightarrow> unat off + n \<le> f_len f"
    using assms by (auto simp: same_tail_def)
  moreover have "file_bytes g (unat off) n = file_bytes f (unat off) n" if "unat off + n \<le> f_len f"
    using that assms by (intro file_bytes_eqI) (auto simp: same_tail_def)
  ultimately show ?thesis using assms(3) by (auto simp: read_exact_at_def seek_def)
qed

lemma same_tail_scan:
  assumes "same_tail f g" and "327680 \<le> unat (log_offset h)"
  shows "scan_log E g h = scan_log E f h"
proof (cases "log_length h = 0")
  case False
  then have "unat (log_length h) \<noteq> 0" by (simp add: unat_eq_zero)
  then show ?thesis by (simp only: scan_log_def same_tail_read [OF assms] not_False_eq_True)
qed (simp add: scan_log_def)

lemma same_tail_header:
  assumes "uuid_laws E" and "HeaderPair_write_new E f h m = Inr (g, n)"
  shows "same_tail f g"
proof -
  have "unat (header_offset i) + 65536 \<le> 327680" for i
    by (simp add: offset_defs)
  then show ?thesis
    using assms same_tail_write [of f _ _ g] by (auto simp: HeaderPair_write_new_def Let_def bindR_eq_Inr)
qed

lemma same_tail_headers:
  assumes "uuid_laws E" and "repair_headers E f pair = Inr (g, x)"
  shows "same_tail f g"
proof (cases "header_status_of pair = HeadersBothValid")
  case False
  with assms(2) obtain f1 n m where "HeaderPair_write_new E f (HeaderPair_active pair) (\<lambda>h. h) = Inr (f1, n)"
      "HeaderPair_write_new E f1 (HeaderPair_active pair) (\<lambda>h. h) = Inr (g, m)"
    by (auto simp: repair_headers_def Let_def bindR_eq_Inr)
  then show ?thesis using same_tail_header [OF assms(1)] same_tail_trans by blast
qed (use assms(2) in \<open>simp add: repair_headers_def\<close>)

lemma same_tail_regions:
  assumes "uuid_laws E" and "repair_regions E f rp region = Inr (g, x)"
  shows "same_tail f g"
proof (cases "region_status_of rp = RegionsBothValid")
  case False
  with assms(2) obtain raw f1 where raw: "RegionTable_encode E region = Inr raw"
      and w: "write_all_at f (region_table_offset 0) raw = Inr f1" "write_all_at f1 (region_table_offset 1) raw = Inr g"
    by (simp add: repair_regions_def RegionTablePair_write_both_def Let_def bindR_eq_Inr) blast
  have "length (rt_entries region) \<le> 2047"
    using raw by (simp add: RegionTable_encode_def Let_def size_defs REGION_SIGNATURE_def ascii_def buf_simps split: if_splits)
  then have "length raw = 65536"
    using region_table_roundtrip_parse [OF assms(1)] raw by force
  then have o: "unat (region_table_offset 0) + length raw \<le> 327680"
      "unat (region_table_offset 1) + length raw \<le> 327680"
    by (simp_all add: offset_defs)
  show ?thesis by (rule same_tail_trans [OF same_tail_write [OF w(1) o(1)] same_tail_write [OF w(2) o(2)]])
qed (use assms(2) in \<open>simp add: repair_regions_def\<close>)

lemma same_headers_active:
  assumes "has_slots f" and "slot E f 0 = v" and "slot E f 1 = v" and "is_valid v"
  shows "\<exists>p. HeaderPair_read E f = Inr p \<and> HeaderPair_active p = v"
  using assms(2-) by (simp add: HeaderPair_read_slots [OF assms(1)] HeaderPair_active_def)

section \<open>A check without repair\<close>

lemma fsck_unchanged:
  assumes "\<not> (fk_fix opts \<and> \<not> fk_dry_run opts)" and "fsck E p opts f = Inr (f', rep)"
  shows "f' = f \<and> \<not> fk_fixed rep"
  using assms(2)
proof (cases rule: fsck_steps)
  case (1 pair rp region f1 x1 f2 x2 st ws x3)
  then have "f2 = f" "\<not> x1" "\<not> x2" using assms(1) by auto
  moreover have "f' = f2 \<and> \<not> x3"
    using 1(8) assms(1) by (auto simp: fsck_log_def Let_def res_simps split: if_splits)
  ultimately show ?thesis using 1(10) by simp
qed

text \<open>
  Checking is reading: without \<open>fix\<close>, or with \<open>dry_run\<close>, a check that succeeds leaves
  the file as it was and does not claim to have fixed anything.
\<close>

lemma fsck_read_only:
  assumes "\<not> (fk_fix opts \<and> \<not> fk_dry_run opts)" and "fsck E p opts f = Inr (f', rep)"
  shows "f' = f \<and> \<not> fk_fixed rep"
  using assms by (rule fsck_unchanged)

section \<open>The log after a repair\<close>

lemma write_new_keeps_length:
  "HeaderPair_write_new E f h m = Inr (g, n) \<Longrightarrow> has_slots f \<Longrightarrow> has_slots g"
  by (auto simp: HeaderPair_write_new_def Let_def res_simps has_slots_def)

lemma repair_headers_effect:
  assumes "uuid_laws E" and "HeaderPair_read E f = Inr pair" and "repair_headers E f pair = Inr (g, x)"
    and "sequence_number (HeaderPair_active pair) + 1 \<noteq> 0"
  shows "has_slots g \<and> ((g = f \<and> is_valid (slot E f 0) \<and> is_valid (slot E f 1)) \<or>
    (slot E g 0 = successor E (HeaderPair_active pair) (\<lambda>h. h) \<and>
     slot E g 1 = successor E (HeaderPair_active pair) (\<lambda>h. h)))"
proof (cases "header_status_of pair = HeadersBothValid")
  case True
  then have "is_valid (fst (headers pair))" "is_valid (snd (headers pair))"
    by (auto simp: header_status_of_def split: bool.splits)
  then show ?thesis
    using True assms(3) HeaderPair_readD(1,2) [OF assms(2)] by (simp add: repair_headers_def)
next
  case False
  with assms(3) obtain f1 n1 n2 where w: "HeaderPair_write_new E f (HeaderPair_active pair) (\<lambda>h. h) = Inr (f1, n1)"
      "HeaderPair_write_new E f1 (HeaderPair_active pair) (\<lambda>h. h) = Inr (g, n2)"
    by (auto simp: repair_headers_def Let_def bindR_eq_Inr)
  have "has_slots g"
    using w HeaderPair_readD(1) [OF assms(2)] write_new_keeps_length by blast
  moreover have "slot E g 0 = successor E (HeaderPair_active pair) (\<lambda>h. h) \<and>
      slot E g 1 = successor E (HeaderPair_active pair) (\<lambda>h. h)"
    using write_new_twice [OF assms(1,2), of "\<lambda>h. h"] w assms(4) HeaderPair_readD(3) [OF assms(2)]
    by (auto simp: is_valid_def)
  ultimately show ?thesis by blast
qed

text \<open>
  \<open>mark_log_clean\<close> from the headers read before the repair: when the repair rewrote both
  copies, they carry the number the new header gets, and the first slot wins.
\<close>

lemma mark_clean_after_repair:
  assumes "uuid_laws E" and "HeaderPair_read E f = Inr pair" and "has_slots g"
    and "slot E g 0 = successor E (HeaderPair_active pair) (\<lambda>h. h)"
    and "slot E g 1 = successor E (HeaderPair_active pair) (\<lambda>h. h)"
    and "mark_log_clean E g pair = Inr (g', n)"
  shows "\<exists>p'. HeaderPair_read E g' = Inr p' \<and> log_guid (HeaderPair_active p') = nil_uuid \<and>
    slot E g' 1 = successor E (HeaderPair_active pair) (\<lambda>h. h) \<and> n = sequence_number (slot E g' 1)"
proof -
  let ?h = "HeaderPair_active pair" and ?clean = "\<lambda>h. h\<lparr>log_guid := nil_uuid\<rparr>"
  have v: "version ?h = 1" "log_version ?h = 0"
    using HeaderPair_readD(3) [OF assms(2)] by (simp_all add: is_valid_def)
  note val = successor_valid [of "\<lambda>h. h" ?h E, OF v] successor_valid [of ?clean ?h E]
  obtain pg where pg: "HeaderPair_read E g = Inr pg" "target_slot (Some pg) = 0"
    using HeaderPair_read_slots [OF assms(3), of E] assms(4,5) val by (auto simp: target_slot_Some)
  obtain g'' where "HeaderPair_write_new E g ?h ?clean = Inr (g'', sequence_number ?h + 1)"
      and s: "slot E g'' 0 = successor E ?h ?clean" "slot E g'' 1 = slot E g 1" "has_slots g''"
    using write_new_effect [OF assms(1) pg(1), of ?h ?clean] unfolding pg(2) by auto
  then have g': "g' = g''" "n = sequence_number ?h + 1" using assms(6) by (simp_all add: mark_log_clean_def)
  have "is_valid (slot E g'' 0)" "sequence_number (slot E g'' 0) = sequence_number (slot E g'' 1)"
    using s val v assms(5) by simp_all
  then have "\<exists>p'. HeaderPair_read E g'' = Inr p' \<and> HeaderPair_active p' = successor E ?h ?clean"
    using s(1) by (simp add: HeaderPair_read_slots [OF s(3)] HeaderPair_active_def)
  moreover have "log_guid (successor E ?h ?clean) = nil_uuid" by (simp add: successor_def stamped_def)
  ultimately show ?thesis using g' s assms(5) val by auto
qed

lemma mark_clean_directly:
  assumes "uuid_laws E" and "HeaderPair_read E f = Inr pair" and "has_slots f" and "same_slots f g"
    and "sequence_number (HeaderPair_active pair) + 1 \<noteq> 0" and "mark_log_clean E g pair = Inr (g', n)"
  shows "\<exists>p'. HeaderPair_read E g' = Inr p' \<and> log_guid (HeaderPair_active p') = nil_uuid"
proof -
  have s: "has_slots g" using assms(3,4) by (simp add: same_slots_def)
  obtain pg where pg: "HeaderPair_read E g = Inr pg" "HeaderPair_active pg = HeaderPair_active pair"
    using HeaderPair_read_slots [OF assms(3), of E] HeaderPair_read_slots [OF s, of E] assms(2,3,4)
    by (auto simp: same_slots_def HeaderPair_active_def split: if_splits)
  have v: "version (HeaderPair_active pair) = 1" "log_version (HeaderPair_active pair) = 0"
    using HeaderPair_readD(3) [OF assms(2)] by (simp_all add: is_valid_def)
  show ?thesis
    using write_new_active [OF assms(1) pg(1), of "\<lambda>h. h\<lparr>log_guid := nil_uuid\<rparr>"] v assms(5,6)
    by (auto simp: pg(2) mark_log_clean_def successor_def stamped_def)
qed

lemma fsck_log_writes:
  assumes "fsck_log E fsck_fix_options f pair = Inr (f', st, ws, x)"
    and "\<And>s. scan_log E f (HeaderPair_active pair) = Inr s \<Longrightarrow> log_beyond_headers s"
  obtains "f' = f" and "log_guid (HeaderPair_active pair) = nil_uuid \<or> log_length (HeaderPair_active pair) = 0"
  | g n where "same_slots f g" and "mark_log_clean E g pair = Inr (f', n)"
proof (cases "log_guid (HeaderPair_active pair) \<noteq> nil_uuid \<and> log_length (HeaderPair_active pair) > 0")
  case False
  with assms(1) have "f' = f" by (simp add: fsck_log_def Let_def)
  with False that(1) show ?thesis by (auto simp: word_greater_zero_iff)
next
  case True
  then obtain s where s: "scan_log E f (HeaderPair_active pair) = Inr s"
    using assms(1) by (auto simp: fsck_log_def Let_def bindR_eq_Inr)
  note run = assms(1) [unfolded fsck_log_def Let_def if_P [OF True] s bindR_simps]
  show ?thesis
  proof (cases "ls_active_sequence s = []")
    case True
    then obtain n where "mark_log_clean E f pair = Inr (f', n)"
      using run by (auto simp: fsck_fix_options_def bindR_eq_Inr)
    then show ?thesis by (rule that(2) [OF same_slots_refl])
  next
    case False
    then obtain g n where g: "apply_replay f s = Inr g" "mark_log_clean E g pair = Inr (f', n)"
      using run by (auto simp: fsck_fix_options_def bindR_eq_Inr)
    show ?thesis by (rule that(2) [OF same_slots_replay [OF g(1) assms(2) [OF s]] g(2)])
  qed
qed

lemma repaired_active:
  assumes "uuid_laws E" and "HeaderPair_read E f = Inr pair" and "has_slots g"
    and "slot E g 0 = successor E (HeaderPair_active pair) (\<lambda>h. h)"
    and "slot E g 1 = successor E (HeaderPair_active pair) (\<lambda>h. h)"
  shows "\<exists>p'. HeaderPair_read E g = Inr p' \<and> log_guid (HeaderPair_active p') = log_guid (HeaderPair_active pair) \<and>
    log_length (HeaderPair_active p') = log_length (HeaderPair_active pair)"
proof -
  have v: "version (HeaderPair_active pair) = 1" "log_version (HeaderPair_active pair) = 0"
    using HeaderPair_readD(3) [OF assms(2)] by (simp_all add: is_valid_def)
  have "is_valid (successor E (HeaderPair_active pair) (\<lambda>h. h))"
    using successor_valid(1) [of "\<lambda>h. h"] v by blast
  from same_headers_active [OF assms(3-5) this] show ?thesis
    by (auto simp: successor_def stamped_def)
qed

lemma fsck_log_clean:
  assumes "uuid_laws E" and "HeaderPair_read E f = Inr pair" and "repair_headers E f pair = Inr (f1, x1)"
    and "repair_regions E f1 rp region = Inr (f2, x2)" and "fsck_log E fsck_fix_options f2 pair = Inr (f', st, ws, x3)"
    and "sequence_number (HeaderPair_active pair) + 1 \<noteq> 0"
    and "\<And>s. scan_log E f2 (HeaderPair_active pair) = Inr s \<Longrightarrow> log_beyond_headers s"
  shows "\<exists>p'. HeaderPair_read E f' = Inr p' \<and>
    (log_guid (HeaderPair_active p') = nil_uuid \<or> log_length (HeaderPair_active p') = 0)"
proof -
  let ?h = "HeaderPair_active pair" and ?s = "successor E (HeaderPair_active pair) (\<lambda>h. h)"
  note slots = HeaderPair_readD(1) [OF assms(2)]
  have reg: "same_slots f1 f2" using same_slots_regions [OF assms(4)] .
  have f1: "has_slots f1" and hd: "f1 = f \<or> (slot E f1 0 = ?s \<and> slot E f1 1 = ?s)"
    using repair_headers_effect [OF assms(1,2,3,6)] by blast+
  have rewritten: "has_slots g \<and> slot E g 0 = ?s \<and> slot E g 1 = ?s"
    if "same_slots f1 g" "slot E f1 0 = ?s \<and> slot E f1 1 = ?s" for g
    using that f1 by (simp add: same_slots_def)
  consider "f' = f2" "log_guid ?h = nil_uuid \<or> log_length ?h = 0"
    | g n where "same_slots f2 g" "mark_log_clean E g pair = Inr (f', n)"
    using fsck_log_writes [OF assms(5,7)] by metis
  then show ?thesis
  proof cases
    case 1
    from hd show ?thesis
    proof
      assume "f1 = f"
      then have "same_slots f f'" using 1 reg by simp
      moreover from this obtain p' where "HeaderPair_read E f' = Inr p'"
        using assms(2) slots HeaderPair_read_slots [of f E] HeaderPair_read_slots [of f' E]
        by (auto simp: same_slots_def split: if_splits)
      ultimately show ?thesis using same_slots_read [OF slots] assms(2) 1(2) by force
    next
      assume "slot E f1 0 = ?s \<and> slot E f1 1 = ?s"
      then show ?thesis using repaired_active [OF assms(1,2)] rewritten [OF reg] 1 by metis
    qed
  next
    case (2 g n)
    have fg: "same_slots f1 g" using same_slots_trans [OF reg 2(1)] .
    from hd show ?thesis
    proof
      assume "f1 = f"
      then show ?thesis
        using mark_clean_directly [OF assms(1,2) slots _ assms(6) 2(2)] fg by auto
    next
      assume "slot E f1 0 = ?s \<and> slot E f1 1 = ?s"
      then show ?thesis
        using mark_clean_after_repair [OF assms(1,2) _ _ _ 2(2)] rewritten [OF fg] by auto
    qed
  qed
qed

text \<open>
  C31 (repair leaves no log): after a repair that succeeds the active header has no log left to
  replay, whichever copies of the headers and region tables were damaged and whether the
  log was replayed or discarded, provided the log lies behind the region tables, does not
  describe writes into the header slots and the sequence number does not wrap around.
\<close>

theorem repair_leaves_no_log:
  assumes "uuid_laws E" and "fsck E p fsck_fix_options f = Inr (f', rep)" and "HeaderPair_read E f = Inr pair"
    and "sequence_number (HeaderPair_active pair) + 1 \<noteq> 0" and "327680 \<le> unat (log_offset (HeaderPair_active pair))"
    and "\<And>s. scan_log E f (HeaderPair_active pair) = Inr s \<Longrightarrow> log_beyond_headers s"
  shows "\<exists>p'. HeaderPair_read E f' = Inr p' \<and>
    (log_guid (HeaderPair_active p') = nil_uuid \<or> log_length (HeaderPair_active p') = 0)"
  using assms(2)
proof (cases rule: fsck_steps)
  case (1 pair' rp region f1 x1 f2 x2 st ws x3)
  have fixed: "repair_headers E f pair = Inr (f1, x1)" "repair_regions E f1 rp region = Inr (f2, x2)"
      and log: "fsck_log E fsck_fix_options f2 pair = Inr (f', st, ws, x3)"
    using 1(2,6,7,8) assms(3) by (simp_all add: fsck_fix_options_def)
  have "same_tail f f2"
    using same_tail_trans [OF same_tail_headers [OF assms(1) fixed(1)] same_tail_regions [OF assms(1) fixed(2)]] .
  then show ?thesis
    using fsck_log_clean [OF assms(1,3) fixed log assms(4)] assms(6) same_tail_scan [OF _ assms(5)] by auto
qed

section \<open>The block allocation table of a checked file\<close>

lemma bat_issues_nil:
  assumes "bat_issues ratio bs file_len es c p = []" and "unat c \<le> unat ratio" and "k < length es"
    and "(unat c + k) mod (unat ratio + 1) \<noteq> unat ratio"
  shows "(\<forall>s. PayloadState_from_raw (entry_state (es ! k)) \<noteq> OtherState s) \<and>
    (PayloadState_from_raw (entry_state (es ! k)) \<in> {FullyPresent, PartiallyPresent} \<longrightarrow>
      entry_file_offset (es ! k) \<noteq> 0 \<and> entry_file_offset (es ! k) + bs \<le> file_len)"
  using assms
proof (induction ratio bs file_len es c p arbitrary: k rule: bat_issues.induct)
  case (2 ratio bs file_len entry es c p)
  show ?case
  proof (cases k)
    case 0
    with "2.prems" have "c \<noteq> ratio" by auto
    with "2.prems"(1) 0 show ?thesis
      by (auto simp: Let_def not_less split: payload_state.splits if_splits)
  next
    case (Suc j)
    show ?thesis
    proof (cases "c = ratio")
      case True
      have "(unat ratio + k) mod (unat ratio + 1) = j mod (unat ratio + 1)"
        using Suc by (metis add.commute add_Suc_shift mod_add_self1 plus_1_eq_Suc)
      with "2.IH"(1) [OF True, of j] "2.prems" True Suc show ?thesis by simp
    next
      case False
      then have "unat c < unat ratio" using "2.prems"(2) word_unat_eq_iff [of c ratio] by simp
      then have "unat c + 1 < 18446744073709551616" using unat_u64_lt [of ratio] by linarith
      then have c: "unat (c + 1) = unat c + 1" by (subst unat_add_u64) simp_all
      have "bat_issues ratio bs file_len es (c + 1) (p + 1) = []"
        using "2.prems"(1) False by simp
      with "2.IH"(2) [OF False, of j] "2.prems" c Suc \<open>unat c < unat ratio\<close> show ?thesis by simp
    qed
  qed
qed simp

lemma checked_entry:
  assumes "fsck_bat E f (vd_region d) = Inr []" and "VhdxDisk_open E q (Some f) ro = Inr (d, g)"
    and "index_ok b (bat_chunk_ratio (vd_bat d))" and "payload_entry (vd_bat d) b = Inr (Some e)"
  shows "(\<forall>s. PayloadState_from_raw (entry_state e) \<noteq> OtherState s) \<and>
    (PayloadState_from_raw (entry_state e) \<in> {FullyPresent, PartiallyPresent} \<longrightarrow>
      entry_file_offset e \<noteq> 0 \<and> entry_file_offset e + ucast (disk_block_size d) \<le> word_of_nat (f_len f))"
proof -
  let ?cr = "bat_chunk_ratio (vd_bat d)" and ?k = "nat_payload_index (unat b) (unat (bat_chunk_ratio (vd_bat d)))"
  have "bat_issues ?cr (ucast (block_size (vd_metadata d))) (word_of_nat (f_len f)) (bat_entries (vd_bat d)) 0 0 = []"
    using assms(1,2) open_wf(1) [OF assms(2)]
    by (auto simp: fsck_bat_def VhdxDisk_open_def disk_wf_def bindR_eq_Inr split: if_splits)
  moreover obtain idx where "payload_index b ?cr = Inr idx" "unat idx = ?k"
    using payload_index_nat [OF assms(3)] by blast
  then have e: "?k < length (bat_entries (vd_bat d))" "e = bat_entries (vd_bat d) ! ?k"
    using assms(4) by (auto simp: payload_entry_def entry_at_def split: if_splits)
  moreover have "?k mod (unat ?cr + 1) \<noteq> unat ?cr"
  proof -
    have cr: "0 < unat ?cr" using assms(3) by (simp add: index_ok_def unat_gt_0)
    then have "unat b mod unat ?cr < unat ?cr" by simp
    then show ?thesis
      unfolding nat_payload_index_mod [OF cr] mod_mult_self3 by (simp add: mod_less)
  qed
  ultimately show ?thesis
    using bat_issues_nil [where c = 0 and k = ?k] by (simp add: disk_block_size_def)
qed


text \<open>The largest offset an entry can hold, plus 1 MiB, is 0: the check lets it pass.\<close>

lemma bat_check_misses_wrapped_offset:
  "bat_issues 4096 1048576 file_len [BatEntry_new 6 (- 1048576)] 0 0 = [] \<and>
    read_exact_at f (entry_file_offset (BatEntry_new 6 (- 1048576))) 1048576 = Inl (Io InvalidSeek)"
proof -
  have "unat (- 1048576 :: u64) = 18446744073708503040" by simp
  then have e: "entry_state (BatEntry_new 6 (- 1048576)) = 6"
      "entry_file_offset (BatEntry_new 6 (- 1048576)) = - 1048576"
    by (simp_all add: entry_state_new entry_file_offset_new)
  show ?thesis
    by (simp add: e PayloadState_from_raw_def block_state_defs read_exact_at_def seek_def)
qed

section \<open>Removing the log by force\<close>

text \<open>
  C33 (forced removal of the log): whenever the headers can be read at all, the forced removal
  succeeds and leaves two identical headers, active and without log, everything else of the
  active header kept; no assumption on the sequence number is needed.
\<close>

theorem force_clean_log_correct:
  assumes "uuid_laws E" and "verify_file_type f = Inr ()" and "HeaderPair_read E f = Inr pair"
  shows "\<exists>f' p'. force_clean_log E f = Inr f' \<and> HeaderPair_read E f' = Inr p' \<and>
    HeaderPair_active p' = stamped E ((HeaderPair_active pair)\<lparr>log_guid := nil_uuid,
      sequence_number := sequence_number (HeaderPair_active pair) + 1\<rparr>) \<and>
    slot E f' 0 = slot E f' 1 \<and> (\<forall>s. scan_log E f' (HeaderPair_active p') = Inr s \<longrightarrow> ls_active_sequence s = [])"
proof -
  let ?h = "(HeaderPair_active pair)\<lparr>log_guid := nil_uuid,
      sequence_number := sequence_number (HeaderPair_active pair) + 1\<rparr>"
  let ?f1 = "patch f (unat (header_offset 0)) (Header_encode E ?h)"
  let ?f2 = "patch ?f1 (unat (header_offset 1)) (Header_encode E ?h)"
  note s = HeaderPair_readD(1) [OF assms(3)]
  have len: "length (Header_encode E ?h) = 65536" using assms(1) by simp
  have s1: "has_slots ?f1" using slot_patch(3) [OF s, of 0] len by simp
  have run: "force_clean_log E f = Inr ?f2"
    using write_slot [OF s _ len, of 0] write_slot [OF s1 _ len, of 1]
    by (simp add: force_clean_log_def Let_def assms(2,3))
  have s2: "has_slots ?f2" using slot_patch(3) [OF s1, of 1] len by simp
  have two: "slot E ?f2 1 = stamped E ?h"
    using slot_patch(2) [OF s1, of 1] assms(1) by (simp add: header_roundtrip_parse)
  have "slot E ?f1 0 = stamped E ?h"
    using slot_patch(2) [OF s, of 0] assms(1) by (simp add: header_roundtrip_parse)
  then have one: "slot E ?f2 0 = stamped E ?h"
    using slot_patch(1) [OF s1, of 1] len by simp
  have valid: "is_valid (stamped E ?h)" and log: "log_guid (stamped E ?h) = nil_uuid"
    using HeaderPair_readD(3) [OF assms(3)] by (simp_all add: is_valid_def stamped_def)
  obtain p' where p': "HeaderPair_read E ?f2 = Inr p'" "HeaderPair_active p' = stamped E ?h"
    using same_headers_active [OF s2 one two valid] by blast
  show ?thesis
  proof (intro exI conjI allI impI)
    show "slot E ?f2 0 = slot E ?f2 1" unfolding one two ..
    show "ls_active_sequence s = []" if "scan_log E ?f2 (HeaderPair_active p') = Inr s" for s
      using that log unfolding p'(2) by (auto simp: scan_log_def Let_def)
  qed (rule run p')+
qed

section \<open>A concrete repair\<close>

text \<open>The sample image with a damaged first header and, in the second, a log that is all zeros.\<close>

definition dirty_header :: header where
  "dirty_header = (sample_header 2)\<lparr>log_guid := 1\<rparr>"

definition dirty_image :: dfile where
  "dirty_image = patch (patch (small_image 6 2 (replicate 1048576 7)) 65536 (replicate 65536 0))
     131072 (Header_encode ref_externs dirty_header)"

lemma scan_ring_blank:
  "\<forall>c. bslice buf c (c + 4) \<noteq> LOG_ENTRY_SIGNATURE \<Longrightarrow> scan_ring E buf guid c = Inr []"
  by (induction E buf guid c rule: scan_ring.induct) (simp add: scan_ring.simps)

text \<open>Files that differ in the header slots only.\<close>

definition same_body :: "dfile \<Rightarrow> dfile \<Rightarrow> bool" where
  "same_body f g \<longleftrightarrow> f_len g = f_len f \<and> (\<forall>i < f_len f. i < 65536 \<or> 196608 \<le> i \<longrightarrow> f_data g i = f_data f i)"

lemma same_body_trans: "same_body f g \<Longrightarrow> same_body g h \<Longrightarrow> same_body f h"
  by (simp add: same_body_def)

lemma same_body_read:
  assumes "same_body f g" and "unat off + n \<le> 65536 \<or> 196608 \<le> unat off"
  shows "read_exact_at g off n = read_exact_at f off n"
proof -
  have "file_bytes g (unat off) n = file_bytes f (unat off) n" if "unat off + n \<le> f_len f"
    using that assms by (intro file_bytes_eqI) (auto simp: same_body_def)
  moreover have "file_bytes g (unat off) 0 = file_bytes f (unat off) 0" by (simp add: file_bytes_def)
  ultimately show ?thesis using assms(1) by (auto simp: read_exact_at_def seek_def same_body_def)
qed

lemma same_body_patch:
  assumes "196608 \<le> f_len f" and "65536 \<le> off" and "off + length bs \<le> 196608"
  shows "same_body f (patch f off bs)"
  using assms by (auto simp: same_body_def f_data_patch)

lemma same_body_header:
  assumes "uuid_laws E" and "has_slots f" and "HeaderPair_write_new E f h m = Inr (g, n)"
  shows "same_body f g"
proof -
  obtain t buf where "write_all_at f (header_offset t) buf = Inr g" "length buf = 65536"
    using assms(1,3) by (auto simp: HeaderPair_write_new_def Let_def bindR_eq_Inr)
  moreover have "unat (header_offset t) = 65536 \<or> unat (header_offset t) = 131072"
    by (simp add: offset_defs)
  ultimately show ?thesis
    using assms(2) same_body_patch [of f "unat (header_offset t)" buf] by (auto simp: write_all_at_ok has_slots_def)
qed

lemma same_body_checks:
  assumes "same_body f g"
  shows "verify_file_type g = verify_file_type f" and "RegionTablePair_read E g = RegionTablePair_read E f"
    and "\<lbrakk>RegionTable_bat r = Some b; 196608 \<le> unat (re_file_offset b); RegionTable_metadata r = Some m;
      196608 \<le> unat (re_file_offset m)\<rbrakk> \<Longrightarrow> fsck_bat E g r = fsck_bat E f r"
  using assms same_body_read [OF assms]
  by (simp_all add: verify_file_type_def RegionTablePair_read_def fsck_bat_def same_body_def offset_defs)

lemma small_image_gap:
  assumes "1048576 \<le> i" and "i < 2097152"
  shows "f_data (small_image s0 s1 payload) i = 0"
proof -
  obtain regions where "RegionTable_encode ref_externs sample_regions = Inr regions" "length regions = 65536"
    using region_table_roundtrip_parse [OF ref_uuid_laws, of sample_regions] by auto
  then show ?thesis
    using assms ref_uuid_laws
    by (auto simp: small_image_def sample_image_def f_data_patch blank_file_def split: sum.split)
qed

lemma bslice_replicate: "bslice (replicate n x) lo hi = replicate (min hi n - lo) x"
  by (simp add: bslice_def)

lemma zeros_neq: "x \<noteq> 0 \<Longrightarrow> replicate n (0 :: u8) \<noteq> x # xs"
  by (cases n) auto

lemma dirty_image_effects:
  "5242880 \<le> f_len dirty_image" "same_body (small_image 6 2 (replicate 1048576 7)) dirty_image"
  "slot ref_externs dirty_image 0 = blank_header"
  "slot ref_externs dirty_image 1 = stamped ref_externs dirty_header"
proof -
  define f where "f = small_image 6 2 (replicate 1048576 7)"
  let ?f1 = "patch f (unat (header_offset 0)) (replicate 65536 0)"
  have img: "dirty_image = patch ?f1 (unat (header_offset 1)) (Header_encode ref_externs dirty_header)"
    by (simp add: dirty_image_def f_def)
  have "read_exact_at f 4194304 1048576 = Inr (replicate 1048576 7)"
    using small_image_open(2) [of "replicate 1048576 7" 6 2] unfolding f_def by simp
  then have len: "5242880 \<le> f_len f" by (simp add: read_exact_at_ok)
  then have s: "has_slots f" by (simp add: has_slots_def)
  have s1: "has_slots ?f1" using slot_patch(3) [OF s, of 0] by simp
  note enc = ref_uuid_laws length_Header_encode [OF ref_uuid_laws]
  show "same_body (small_image 6 2 (replicate 1048576 7)) dirty_image"
    unfolding img f_def [symmetric]
    by (rule same_body_trans [OF same_body_patch same_body_patch]) (use len in \<open>simp_all add: enc\<close>)
  then show "5242880 \<le> f_len dirty_image" using len by (simp add: same_body_def f_def)
  have "bslice (replicate 65536 (0 :: u8)) 0 4 \<noteq> HEADER_SIGNATURE"
    unfolding bslice_replicate HEADER_SIGNATURE_def ascii_def by (simp add: zeros_neq)
  then have "Header_parse ref_externs (replicate 65536 0) = blank_header"
    by (simp add: Header_parse_def)
  then have "slot ref_externs ?f1 0 = blank_header"
    using slot_patch(2) [OF s, of 0 "replicate 65536 0" ref_externs] by simp
  then show "slot ref_externs dirty_image 0 = blank_header"
    unfolding img using slot_patch(1) [OF s1, of 1] by (simp add: enc)
  show "slot ref_externs dirty_image 1 = stamped ref_externs dirty_header"
    unfolding img using slot_patch(2) [OF s1, of 1] by (simp add: enc header_roundtrip_parse)
qed

lemma dirty_image_headers:
  "\<exists>p. HeaderPair_read ref_externs dirty_image = Inr p \<and> HeaderPair_active p = stamped ref_externs dirty_header \<and>
    headers p = (blank_header, stamped ref_externs dirty_header)"
proof -
  have "has_slots dirty_image" using dirty_image_effects(1) by (simp add: has_slots_def)
  moreover have "is_valid (stamped ref_externs dirty_header)" "\<not> is_valid blank_header"
    by (simp_all add: is_valid_def stamped_def dirty_header_def sample_header_def blank_header_def)
  ultimately show ?thesis
    by (simp add: HeaderPair_read_slots dirty_image_effects(3) dirty_image_effects(4) [simplified] HeaderPair_active_def)
qed

lemma dirty_image_scan:
  assumes "same_body dirty_image g"
  shows "\<exists>s. scan_log ref_externs g (stamped ref_externs dirty_header) = Inr s \<and> ls_active_sequence s = []"
proof -
  let ?h = "stamped ref_externs dirty_header"
  have h: "log_offset ?h = 1048576" "log_length ?h = 1048576" "log_guid ?h = 1"
    by (simp_all add: stamped_def dirty_header_def sample_header_def)
  have "same_body (small_image 6 2 (replicate 1048576 7)) g"
    using same_body_trans dirty_image_effects(2) assms by blast
  then have "f_data g i = 0" if "1048576 \<le> i" "i < 2097152" for i
    using that small_image_gap dirty_image_effects(1) assms by (simp add: same_body_def)
  then have "file_bytes g 1048576 1048576 = replicate 1048576 0"
    by (intro nth_equalityI) (simp_all add: nth_file_bytes)
  moreover have "5242880 \<le> f_len g" using assms dirty_image_effects(1) by (simp add: same_body_def)
  ultimately have "read_exact_at g 1048576 1048576 = Inr (replicate 1048576 0)"
    by (simp add: read_exact_at_def seek_def)
  moreover have "bslice (replicate 1048576 (0 :: u8)) c (c + 4) \<noteq> LOG_ENTRY_SIGNATURE" for c
    unfolding bslice_replicate LOG_ENTRY_SIGNATURE_def ascii_def by (simp add: zeros_neq)
  ultimately show ?thesis
    using scan_ring_blank [of "replicate 1048576 0" ref_externs 1 0]
    by (simp add: scan_log_def h Let_def nil_uuid_def)
qed

lemma patch_longer: "n \<le> f_len f \<Longrightarrow> n \<le> f_len (patch f off buf)"
  by simp

lemma small_image_regions:
  assumes "f_len (small_image s0 s1 payload) \<noteq> 0"
  shows "\<exists>rp. RegionTablePair_read ref_externs (small_image s0 s1 payload) = Inr rp \<and>
    rp_tables rp = (Some (sample_regions\<lparr>rt_checksum_ok := True\<rparr>), Some (sample_regions\<lparr>rt_checksum_ok := True\<rparr>)) \<and>
    RegionTablePair_active rp = Inr (sample_regions\<lparr>rt_checksum_ok := True\<rparr>)"
proof -
  obtain regions where r: "RegionTable_encode ref_externs sample_regions = Inr regions" "length regions = 65536"
      "RegionTable_parse ref_externs regions = sample_regions\<lparr>rt_checksum_ok := True\<rparr>"
    using region_table_roundtrip_parse [OF ref_uuid_laws, of sample_regions] by auto
  obtain md where img: "small_image s0 s1 payload = sample_image ref_externs regions md (small_bat_raw s0 s1) payload"
    using assms r(1) by (auto simp: small_image_def blank_file_def split: sum.splits)
  have "f_len (small_image s0 s1 payload) \<ge> 8388608"
    unfolding img sample_image_def by (intro patch_longer) (simp add: blank_file_def)
  moreover have "file_bytes (small_image s0 s1 payload) 196608 65536 = regions \<and>
      file_bytes (small_image s0 s1 payload) 262144 65536 = regions"
  proof -
    define g where "g = patch (patch (patch (patch (patch (blank_file 8388608)
      0 FILE_TYPE_SIGNATURE) 65536 (Header_encode ref_externs (sample_header 1)))
      131072 (Header_encode ref_externs (sample_header 2))) 196608 regions) 262144 regions"
    have g: "f_len g = 8388608" "file_bytes g 196608 65536 = regions" "file_bytes g 262144 65536 = regions"
      using r(2) ref_uuid_laws
      by (simp_all add: g_def blank_file_def file_bytes_patch_same file_bytes_patch_other)
    have "file_bytes (patch h o1 bs) o2 65536 = file_bytes h o2 65536"
      if "8388608 \<le> f_len h" "o2 + 65536 \<le> o1" "o1 \<le> 4194304" for h o1 o2 bs
      using that by (intro file_bytes_patch_other) auto
    then show ?thesis
      unfolding img sample_image_def g_def [symmetric] using g by (simp add: patch_longer del: f_len_patch)
  qed
  ultimately show ?thesis
    by (simp add: RegionTablePair_read_def read_exact_at_def seek_def r(3) Let_def RegionTablePair_active_def)
qed

lemma small_image_len:
  assumes "f_len (small_image s0 s1 payload) \<noteq> 0" and "length payload \<le> 4194304"
  shows "f_len (small_image s0 s1 payload) = 8388608"
proof -
  obtain regions where r: "RegionTable_encode ref_externs sample_regions = Inr regions" "length regions = 65536"
    using region_table_roundtrip_parse [OF ref_uuid_laws, of sample_regions] by auto
  obtain md where md: "Metadata_encode ref_externs (small_metadata False) 1048576 = Inr md"
      and img: "small_image s0 s1 payload = sample_image ref_externs regions md (small_bat_raw s0 s1) payload"
    using assms(1) r(1) by (auto simp: small_image_def blank_file_def split: sum.splits)
  have "length md = 1048576"
    using Metadata_encode_length [OF ref_uuid_laws md]
    by (simp add: metadata_items_def Let_def small_metadata_def)
  moreover have "length (small_bat_raw s0 s1) = 1048576" by (simp add: small_bat_raw_def)
  ultimately show ?thesis
    unfolding img using r(2) assms(2) ref_uuid_laws by (simp add: sample_image_def blank_file_def)
qed

lemma small_image_bat:
  assumes "VhdxDisk_open ref_externs p (Some (small_image 6 2 (replicate 1048576 7))) True = Inr (d, f)"
  shows "fsck_bat ref_externs f (vd_region d) = Inr []"
proof -
  let ?f = "small_image 6 2 (replicate 1048576 7)"
  obtain d' where o: "VhdxDisk_open ref_externs p (Some ?f) True = Inr (d', ?f)" "vd_metadata d' = small_metadata False"
      "vd_bat d' = \<lparr>bat_entries = [BatEntry_new 6 4194304, BatEntry_new 2 5242880], bat_chunk_ratio = 4096,
        bat_block_count = 2\<rparr>"
    using small_image_open(1) [of "replicate 1048576 7" p 6 2 True] by auto
  then have df: "f = ?f" "vd_metadata d = small_metadata False" "vd_bat d = vd_bat d'" using assms by auto
  have "read_exact_at ?f 4194304 1048576 = Inr (replicate 1048576 7)"
    using small_image_open(2) [of "replicate 1048576 7" 6 2] by simp
  then have "f_len f = 8388608" using small_image_len [of 6 2 "replicate 1048576 7"] df(1)
    by (auto simp: read_exact_at_ok)
  then have "entry_file_offset (BatEntry_new 6 4194304) + 1048576 \<le> (word_of_nat (f_len f) :: u64)"
    by (simp add: entry_file_offset_new word_le_nat_alt unat_of_nat)
  then have "bat_issues 4096 1048576 (word_of_nat (f_len f)) (bat_entries (vd_bat d)) 0 0 = []"
    by (simp add: df o(3) entry_state_new entry_file_offset_new PayloadState_from_raw_def block_state_defs not_less)
  moreover have "fsck_bat ref_externs f (vd_region d) = Inr (bat_issues (bat_chunk_ratio (vd_bat d)) (ucast (block_size (vd_metadata d)))
      (word_of_nat (f_len f)) (bat_entries (vd_bat d)) 0 0)"
    using assms open_wf(1) [OF assms]
    by (auto simp: fsck_bat_def VhdxDisk_open_def disk_wf_def bindR_eq_Inr split: if_splits)
  ultimately show ?thesis by (simp add: df o(3) small_metadata_def block_size_def)
qed

lemma dirty_image_parts:
  assumes "same_body dirty_image g"
  obtains rp where "RegionTablePair_read ref_externs g = Inr rp" and "region_status_of rp = RegionsBothValid"
    and "RegionTablePair_active rp = Inr (sample_regions\<lparr>rt_checksum_ok := True\<rparr>)"
    and "verify_file_type g = Inr ()" and "validate_layout (sample_regions\<lparr>rt_checksum_ok := True\<rparr>) = Inr ()"
    and "fsck_bat ref_externs g (sample_regions\<lparr>rt_checksum_ok := True\<rparr>) = Inr []"
proof -
  let ?E = ref_externs and ?f = "small_image 6 2 (replicate 1048576 7)"
  let ?region = "sample_regions\<lparr>rt_checksum_ok := True\<rparr>"
  obtain d where o: "VhdxDisk_open ?E ''a.vhdx'' (Some ?f) True = Inr (d, ?f)"
    using small_image_open(1) [of "replicate 1048576 7" "''a.vhdx''" 6 2 True] by auto
  have "f_len ?f = f_len dirty_image" using dirty_image_effects(2) by (simp add: same_body_def)
  then obtain rp where rp: "RegionTablePair_read ?E ?f = Inr rp" "rp_tables rp = (Some ?region, Some ?region)"
      "RegionTablePair_active rp = Inr ?region"
    using small_image_regions [of 6 2 "replicate 1048576 7"] dirty_image_effects(1) by auto
  have region: "vd_region d = ?region" and ok: "verify_file_type ?f = Inr ()" "validate_layout ?region = Inr ()"
    using o rp(1,3) by (auto simp: VhdxDisk_open_def bindR_eq_Inr split: if_splits)
  have body: "same_body ?f g" using same_body_trans [OF dirty_image_effects(2) assms] .
  have "fsck_bat ?E g ?region = Inr []"
    using same_body_checks(3) [OF body, of ?region] small_image_bat [OF o] region
    by (simp add: RegionTable_bat_def RegionTable_metadata_def RegionTable_find_def sample_regions_def
        REGION_GUID_BAT_def REGION_GUID_METADATA_def)
  moreover have "region_status_of rp = RegionsBothValid" by (simp add: region_status_of_def rp(2))
  ultimately show ?thesis using that rp ok same_body_checks(1,2) [OF body] by simp
qed

lemma dirty_image_fsck:
  "\<exists>f' rep. fsck ref_externs ''a.vhdx'' fsck_fix_options dirty_image = Inr (f', rep) \<and>
    fk_bat_issues rep = [] \<and> fk_log_replay rep = Discarded 0"
proof -
  let ?E = ref_externs and ?region = "sample_regions\<lparr>rt_checksum_ok := True\<rparr>"
  obtain p where p: "HeaderPair_read ?E dirty_image = Inr p" "HeaderPair_active p = stamped ?E dirty_header"
      "headers p = (blank_header, stamped ?E dirty_header)"
    using dirty_image_headers by blast
  have v: "version (HeaderPair_active p) = 1" "log_version (HeaderPair_active p) = 0" "sequence_number (HeaderPair_active p) + 1 \<noteq> 0"
    by (simp_all add: p(2) stamped_def dirty_header_def sample_header_def blank_header_def)
  obtain f1 where w: "repair_headers ?E dirty_image p = Inr (f1, True)"
  proof -
    have "\<not> is_valid (fst (headers p))" by (simp add: p(3) is_valid_def blank_header_def)
    then have "header_status_of p \<noteq> HeadersBothValid" by (auto simp: header_status_of_def split: bool.splits)
    moreover obtain f0 f1 n where "HeaderPair_write_new ?E dirty_image (HeaderPair_active p) (\<lambda>h. h) = Inr (f0, n)"
        "HeaderPair_write_new ?E f0 (HeaderPair_active p) (\<lambda>h. h) = Inr (f1, n)"
      using write_new_twice [OF ref_uuid_laws p(1), of "\<lambda>h. h"] v by blast
    ultimately show ?thesis using that by (simp add: repair_headers_def)
  qed
  have slots: "has_slots dirty_image" by (rule HeaderPair_readD(1) [OF p(1)])
  have body: "same_body dirty_image f1"
  proof -
    obtain f0 n m where w0: "HeaderPair_write_new ?E dirty_image (HeaderPair_active p) (\<lambda>h. h) = Inr (f0, n)"
        "HeaderPair_write_new ?E f0 (HeaderPair_active p) (\<lambda>h. h) = Inr (f1, m)"
      using w by (auto simp: repair_headers_def Let_def bindR_eq_Inr split: if_splits)
    then show ?thesis
      using same_body_trans [OF same_body_header [OF ref_uuid_laws slots w0(1)]
          same_body_header [OF ref_uuid_laws write_new_keeps_length [OF w0(1) slots] w0(2)]] by blast
  qed
  have s1: "has_slots f1" "slot ?E f1 0 = successor ?E (HeaderPair_active p) (\<lambda>h. h)"
    using repair_headers_effect [OF ref_uuid_laws p(1) w v(3)] dirty_image_effects(3)
    by (auto simp: is_valid_def blank_header_def)
  have "is_valid (slot ?E f1 0)" unfolding s1(2) by (rule successor_valid(1)) (rule v)+
  then obtain p1 where p1: "HeaderPair_read ?E f1 = Inr p1"
    by (simp add: HeaderPair_read_slots [OF s1(1)])
  obtain f2 n where clean: "mark_log_clean ?E f1 p = Inr (f2, n)"
    using write_new_effect [OF ref_uuid_laws p1] unfolding mark_log_clean_def by metis
  have body2: "same_body dirty_image f2"
    by (rule same_body_trans [OF body
          same_body_header [OF ref_uuid_laws s1(1) clean [unfolded mark_log_clean_def]]])
  have log: "fsck_log ?E fsck_fix_options f1 p = Inr (f2, Discarded 0, [LogDiscarded], True)"
  proof -
    obtain s where "scan_log ?E f1 (HeaderPair_active p) = Inr s" "ls_active_sequence s = []"
      using dirty_image_scan [OF body] p(2) by auto
    moreover have "log_guid (HeaderPair_active p) \<noteq> nil_uuid" "0 < log_length (HeaderPair_active p)"
      by (simp_all add: p(2) stamped_def dirty_header_def sample_header_def nil_uuid_def)
    ultimately show ?thesis using clean by (simp add: fsck_log_def fsck_fix_options_def)
  qed
  have "fsck_bat ?E f2 ?region = Inr []" by (rule dirty_image_parts [OF body2])
  moreover obtain rp where "RegionTablePair_read ?E dirty_image = Inr rp" "region_status_of rp = RegionsBothValid"
      "RegionTablePair_active rp = Inr ?region" "verify_file_type dirty_image = Inr ()" "validate_layout ?region = Inr ()"
    by (rule dirty_image_parts [of dirty_image]) (simp_all add: same_body_def)
  ultimately show ?thesis
    using w log p(1) by (simp add: fsck_def fsck_fix_options_def repair_regions_def)
qed

theorem repair_leaves_no_log_witness:
  "\<exists>f' rep p'. fsck ref_externs ''a.vhdx'' fsck_fix_options dirty_image = Inr (f', rep) \<and>
    fk_log_replay rep = Discarded 0 \<and> HeaderPair_read ref_externs f' = Inr p' \<and>
    (log_guid (HeaderPair_active p') = nil_uuid \<or> log_length (HeaderPair_active p') = 0)"
proof -
  obtain p where p: "HeaderPair_read ref_externs dirty_image = Inr p"
      "HeaderPair_active p = stamped ref_externs dirty_header"
    using dirty_image_headers by blast
  obtain f' rep where r: "fsck ref_externs ''a.vhdx'' fsck_fix_options dirty_image = Inr (f', rep)"
      "fk_log_replay rep = Discarded 0"
    using dirty_image_fsck by blast
  obtain s where s: "scan_log ref_externs dirty_image (HeaderPair_active p) = Inr s" "ls_active_sequence s = []"
    using dirty_image_scan [of dirty_image] p(2) by (auto simp: same_body_def)
  have "log_beyond_headers s" using s(2) by (simp add: log_beyond_headers_def log_writes_def)
  moreover have "sequence_number (HeaderPair_active p) + 1 \<noteq> 0" "327680 \<le> unat (log_offset (HeaderPair_active p))"
    by (simp_all add: p(2) stamped_def dirty_header_def sample_header_def)
  ultimately have "\<exists>p'. HeaderPair_read ref_externs f' = Inr p' \<and>
      (log_guid (HeaderPair_active p') = nil_uuid \<or> log_length (HeaderPair_active p') = 0)"
    using s(1) by (intro repair_leaves_no_log [OF ref_uuid_laws r(1) p(1)]) simp_all
  with r show ?thesis by blast
qed

theorem fsck_read_only_witness:
  "\<exists>rep. fsck ref_externs ''a.vhdx'' FsckOptions_default dirty_image = Inr (dirty_image, rep) \<and>
    \<not> fk_fixed rep \<and> fk_warnings rep = [LogCorrupt]"
proof -
  obtain p where p: "HeaderPair_read ref_externs dirty_image = Inr p" "HeaderPair_active p = stamped ref_externs dirty_header"
    using dirty_image_headers by blast
  obtain s where "scan_log ref_externs dirty_image (HeaderPair_active p) = Inr s" "ls_active_sequence s = []"
    using dirty_image_scan [of dirty_image] p(2) by (auto simp: same_body_def)
  moreover have "log_guid (HeaderPair_active p) \<noteq> nil_uuid" "0 < log_length (HeaderPair_active p)"
    by (simp_all add: p(2) stamped_def dirty_header_def sample_header_def nil_uuid_def)
  ultimately have "fsck_log ref_externs FsckOptions_default dirty_image p = Inr (dirty_image, LogEmpty, [LogCorrupt], False)"
    by (simp add: fsck_log_def FsckOptions_default_def)
  moreover obtain rp where "RegionTablePair_read ref_externs dirty_image = Inr rp"
      "RegionTablePair_active rp = Inr (sample_regions\<lparr>rt_checksum_ok := True\<rparr>)" "verify_file_type dirty_image = Inr ()"
      "validate_layout (sample_regions\<lparr>rt_checksum_ok := True\<rparr>) = Inr ()"
      "fsck_bat ref_externs dirty_image (sample_regions\<lparr>rt_checksum_ok := True\<rparr>) = Inr []"
    by (rule dirty_image_parts [of dirty_image]) (simp_all add: same_body_def)
  ultimately obtain f' rep where r: "fsck ref_externs ''a.vhdx'' FsckOptions_default dirty_image = Inr (f', rep)"
      "fk_warnings rep = [LogCorrupt]"
    using p(1) by (simp add: fsck_def FsckOptions_default_def)
  have "\<not> (fk_fix FsckOptions_default \<and> \<not> fk_dry_run FsckOptions_default)" by (simp add: FsckOptions_default_def)
  from fsck_read_only [OF this r(1)] r show ?thesis by auto
qed

lemma open_steps:
  assumes "VhdxDisk_open E q (Some f) ro = Inr (d, g)"
  shows "verify_file_type f = Inr ()" "HeaderPair_read E f = Inr (vd_header_pair d)"
    "RegionTablePair_read E f = Inr (vd_region_pair d)" "RegionTablePair_active (vd_region_pair d) = Inr (vd_region d)"
    "validate_layout (vd_region d) = Inr ()" "\<not> ro \<Longrightarrow> log_guid (HeaderPair_active (vd_header_pair d)) = nil_uuid"
  using assms by (auto simp: VhdxDisk_open_def bindR_eq_Inr split: if_splits)

lemma clean_disk_fsck:
  assumes "VhdxDisk_open E q (Some f) False = Inr (d, f)" and "fsck_bat E f (vd_region d) = Inr []"
  shows "fsck E p FsckOptions_default f = Inr (f, \<lparr>fk_path = p,
    fk_header_status = header_status_of (vd_header_pair d), fk_region_status = region_status_of (vd_region_pair d),
    fk_log_replay = LogEmpty, fk_bat_issues = [], fk_fixed = False, fk_warnings = []\<rparr>)"
  using open_steps [OF assms(1)] assms(2) by (simp add: fsck_def fsck_log_def FsckOptions_default_def)


theorem force_clean_log_correct_witness:
  "\<exists>f' p'. force_clean_log ref_externs dirty_image = Inr f' \<and> HeaderPair_read ref_externs f' = Inr p' \<and>
    sequence_number (HeaderPair_active p') = 3 \<and> slot ref_externs f' 0 = slot ref_externs f' 1"
proof -
  obtain p where p: "HeaderPair_read ref_externs dirty_image = Inr p" "HeaderPair_active p = stamped ref_externs dirty_header"
    using dirty_image_headers by blast
  have "verify_file_type dirty_image = Inr ()"
    by (rule dirty_image_parts [of dirty_image]) (simp_all add: same_body_def)
  from force_clean_log_correct [OF ref_uuid_laws this p(1)] show ?thesis
    by (auto simp: p(2) stamped_def dirty_header_def sample_header_def)
qed

end
