(* ===== verification/Vhdx_Chain.thy ===== *)
theory Vhdx_Chain
  imports Vhdx_Writer Vhdx_FS
begin

text \<open>
  \<open>chain.rs\<close>: following the parent locators from a leaf to the root of a chain.  The loop
  ends because a file it has visited is not visited again and the file system is finite.
  \<open>Chain::pretty\<close> is in \<open>Starweld_Print\<close>.
\<close>

section \<open>Resolving a parent\<close>

text \<open>A string of the locator as a path: its UTF-8 bytes.\<close>

definition utf8 :: "nat \<Rightarrow> nat list" where
  "utf8 c =
    (if c < 0x80 then [c]
     else if c < 0x800 then [0xC0 + c div 64, 0x80 + c mod 64]
     else if c < 0x10000 then [0xE0 + c div 4096, 0x80 + c div 64 mod 64, 0x80 + c mod 64]
     else [0xF0 + c div 262144, 0x80 + c div 4096 mod 64, 0x80 + c div 64 mod 64, 0x80 + c mod 64])"

definition path_of :: "rstring \<Rightarrow> path" where
  "path_of s = map char_of (concat (map utf8 s))"

definition normalize_sep :: "rstring \<Rightarrow> path" where
  "normalize_sep s = path_of (map (\<lambda>c. if c = 92 then 47 else c) s)"

fun first_candidate :: "fsys \<Rightarrow> path \<Rightarrow> path list \<Rightarrow> path option" where
  "first_candidate fs child_dir [] = None"
| "first_candidate fs child_dir (normalized # rest) =
    (let candidate = (if is_absolute normalized then normalized else path_join child_dir normalized) in
     if path_exists fs candidate then Some candidate
     else
       case file_name normalized of
         Some name \<Rightarrow>
           if path_exists fs (path_join child_dir name) then Some (path_join child_dir name)
           else first_candidate fs child_dir rest
       | None \<Rightarrow> first_candidate fs child_dir rest)"

definition resolve_parent :: "fsys \<Rightarrow> path \<Rightarrow> parent_locator \<Rightarrow> path option" where
  "resolve_parent fs child pl =
    (if locator_type pl \<noteq> PARENT_LOCATOR_TYPE_VHDX then None
     else
       let child_dir = (case path_parent child of Some d \<Rightarrow> d | None \<Rightarrow> ''.'');
           candidates = [relative_path pl, volume_path pl, absolute_win32_path pl]
       in first_candidate fs child_dir (map normalize_sep (List.map_filter id candidates)))"

section \<open>Discovery\<close>

record parent_link =
  pk_locator_type :: uuid
  pk_relative_path :: "rstring option"
  pk_volume_path :: "rstring option"
  pk_absolute_win32_path :: "rstring option"
  pk_expected_data_write_guid :: "uuid option"
  pk_resolved_path :: "path option"

record chain_node =
  cn_path :: path
  cn_data_write_guid :: uuid
  cn_file_write_guid :: uuid
  cn_virtual_disk_size :: u64
  cn_block_size :: u32
  cn_has_parent :: bool
  cn_parent_link :: "parent_link option"

record chain =
  ch_leaf_path :: path
  ch_nodes :: "chain_node list"

definition node_of :: "path \<Rightarrow> vhdx_disk \<Rightarrow> chain_node" where
  "node_of current disk =
    \<lparr>cn_path = current, cn_data_write_guid = data_write_guid (active_header disk),
     cn_file_write_guid = file_write_guid (active_header disk),
     cn_virtual_disk_size = disk_virtual_size disk, cn_block_size = disk_block_size disk,
     cn_has_parent = disk_has_parent disk, cn_parent_link = None\<rparr>"

definition link_of :: "externs \<Rightarrow> fsys \<Rightarrow> path \<Rightarrow> parent_locator \<Rightarrow> parent_link" where
  "link_of E fs current pl =
    \<lparr>pk_locator_type = locator_type pl, pk_relative_path = relative_path pl,
     pk_volume_path = volume_path pl, pk_absolute_win32_path = absolute_win32_path pl,
     pk_expected_data_write_guid = parent_linkage E pl, pk_resolved_path = resolve_parent fs current pl\<rparr>"

lemma VhdxDisk_open_some: "VhdxDisk_open E p found ro = Inr x \<Longrightarrow> found \<noteq> None"
  by (cases found) (simp_all add: VhdxDisk_open_def)

function discover_loop ::
    "externs \<Rightarrow> fsys \<Rightarrow> path set \<Rightarrow> path \<Rightarrow> chain_node list res" where
  "discover_loop E fs visited current =
    (let canonical = (case canonicalize fs current of Inr p \<Rightarrow> p | Inl _ \<Rightarrow> current) in
     if canonical \<in> visited then Inl (InvalidStructure ''cycle detected in parent chain'')
     else
       bindR (VhdxDisk_open E current (fs_open fs current) True) (\<lambda>(disk, f).
       if disk_has_parent disk then
         bindR (ok_or (md_parent_locator (vd_metadata disk))
           (InvalidStructure ''HasParent set but no parent locator'')) (\<lambda>pl.
         let link = link_of E fs current pl;
             node = (node_of current disk)\<lparr>cn_parent_link := Some link\<rparr> in
         bindR (ok_or (pk_resolved_path link)
           (ParentNotFound current ''no candidate path resolved on this filesystem'')) (\<lambda>nxt.
         bindR (discover_loop E fs (insert canonical visited) nxt) (\<lambda>nodes.
         Inr (node # nodes))))
       else Inr [node_of current disk]))"
  by pat_completeness auto
termination
proof (relation "measure (\<lambda>(E, fs, visited, current). card (fset (fmdom (fs_files fs)) - visited))", goal_cases)
  case 1
  then show ?case by simp
next
  case (2 E fs visited current canonical x disk f pl link node nxt)
  then have "path_exists fs current"
    using VhdxDisk_open_some by (fastforce simp: path_exists_def)
  then have "canonical = fs_resolve fs current" "canonical \<in> fset (fmdom (fs_files fs))"
    using 2(1) by (simp_all add: canonicalize_def path_exists_dom)
  moreover have "canonical \<notin> visited" using 2 by simp
  ultimately have "fset (fmdom (fs_files fs)) - insert canonical visited \<subset> fset (fmdom (fs_files fs)) - visited"
    by blast
  then show ?case by (simp add: psubset_card_mono)
qed

declare discover_loop.simps [simp del]

text \<open>The GUID a child expects is compared with that of the next node of the chain.\<close>

fun check_guids :: "chain_node list \<Rightarrow> unit res" where
  "check_guids [] = Inr ()"
| "check_guids (n # ns) =
    (case Option.bind (cn_parent_link n) pk_expected_data_write_guid of
       None \<Rightarrow> check_guids ns
     | Some expected \<Rightarrow>
         let parent_guid = (case ns of [] \<Rightarrow> nil_uuid | m # _ \<Rightarrow> cn_data_write_guid m) in
         if parent_guid \<noteq> expected \<and> parent_guid \<noteq> nil_uuid
         then Inl (ParentGuidMismatch (cn_path n) expected parent_guid)
         else check_guids ns)"

definition Chain_discover :: "externs \<Rightarrow> fsys \<Rightarrow> path \<Rightarrow> chain res" where
  "Chain_discover E fs leaf =
    bindR (discover_loop E fs {} leaf) (\<lambda>nodes.
    bindR (check_guids nodes) (\<lambda>_.
    Inr \<lparr>ch_leaf_path = leaf, ch_nodes = nodes\<rparr>))"

definition chain_leaf :: "chain \<Rightarrow> chain_node res" where
  "chain_leaf c = (case ch_nodes c of [] \<Rightarrow> Inl (Panic ''index out of bounds'') | n # _ \<Rightarrow> Inr n)"

definition chain_root :: "chain \<Rightarrow> chain_node res" where
  "chain_root c = (if ch_nodes c = [] then Inl (Panic ''called `Option::unwrap()` on a `None` value'')
     else Inr (last (ch_nodes c)))"

section \<open>The chain that is found\<close>

text \<open>
  What discovery promises of the nodes from a path on: each is the node of a disk that opens,
  the files are distinct and new, each but the last links to the next, and the last has no
  parent.
\<close>

definition opens_as :: "externs \<Rightarrow> fsys \<Rightarrow> chain_node \<Rightarrow> bool" where
  "opens_as E fs n \<longleftrightarrow> (\<exists>d f. VhdxDisk_open E (cn_path n) (fs_open fs (cn_path n)) True = Inr (d, f) \<and>
     cn_data_write_guid n = data_write_guid (active_header d) \<and>
     cn_virtual_disk_size n = disk_virtual_size d \<and> cn_block_size n = disk_block_size d \<and>
     cn_has_parent n = disk_has_parent d)"

definition links_to :: "fsys \<Rightarrow> chain_node \<Rightarrow> chain_node \<Rightarrow> bool" where
  "links_to fs n m \<longleftrightarrow> cn_has_parent n \<and> (\<exists>l. cn_parent_link n = Some l \<and>
     pk_resolved_path l = Some (cn_path m))"

fun linked :: "fsys \<Rightarrow> chain_node list \<Rightarrow> bool" where
  "linked fs [] = False"
| "linked fs [n] = (\<not> cn_has_parent n \<and> cn_parent_link n = None)"
| "linked fs (n # m # ns) = (links_to fs n m \<and> linked fs (m # ns))"

definition canonical_path :: "fsys \<Rightarrow> path \<Rightarrow> path" where
  "canonical_path fs p = (case canonicalize fs p of Inr q \<Rightarrow> q | Inl _ \<Rightarrow> p)"

lemma canonical_path_open:
  "fs_open fs p \<noteq> None \<Longrightarrow> canonical_path fs p = fs_resolve fs p \<and> fs_resolve fs p \<in> fset (fmdom (fs_files fs))"
  using path_exists_dom [of fs p] by (simp add: canonical_path_def canonicalize_def path_exists_def)

lemma discover_loop_cases:
  assumes "discover_loop E fs visited current = Inr nodes"
  obtains d f where "canonical_path fs current \<notin> visited"
      and "VhdxDisk_open E current (fs_open fs current) True = Inr (d, f)"
      and "\<not> disk_has_parent d" and "nodes = [node_of current d]"
  | d f pl nxt rest where "canonical_path fs current \<notin> visited"
      and "VhdxDisk_open E current (fs_open fs current) True = Inr (d, f)"
      and "disk_has_parent d" and "md_parent_locator (vd_metadata d) = Some pl"
      and "resolve_parent fs current pl = Some nxt"
      and "discover_loop E fs (insert (canonical_path fs current) visited) nxt = Inr rest"
      and "nodes = (node_of current d)\<lparr>cn_parent_link := Some (link_of E fs current pl)\<rparr> # rest"
proof -
  note run = assms [unfolded discover_loop.simps [of E fs visited current] Let_def, folded canonical_path_def]
  from run have new: "canonical_path fs current \<notin> visited" by (auto split: if_splits)
  with run obtain d f where o: "VhdxDisk_open E current (fs_open fs current) True = Inr (d, f)"
    by (auto simp: res_simps)
  show ?thesis
  proof (cases "disk_has_parent d")
    case False
    with run new o show ?thesis by (intro that(1) [of d f]) simp_all
  next
    case True
    with run new o obtain pl nxt rest where "md_parent_locator (vd_metadata d) = Some pl"
        and "pk_resolved_path (link_of E fs current pl) = Some nxt"
        and "discover_loop E fs (insert (canonical_path fs current) visited) nxt = Inr rest"
        and "nodes = (node_of current d)\<lparr>cn_parent_link := Some (link_of E fs current pl)\<rparr> # rest"
      by (auto simp: res_simps)
    with new o True show ?thesis by (intro that(2) [of d f pl nxt rest]) (simp_all add: link_of_def)
  qed
qed

lemma discover_loop_nodes:
  assumes "discover_loop E fs visited current = Inr nodes"
  shows "nodes \<noteq> [] \<and> cn_path (hd nodes) = current \<and> linked fs nodes \<and>
    list_all (opens_as E fs) nodes \<and>
    distinct (map (\<lambda>n. canonical_path fs (cn_path n)) nodes) \<and>
    (\<lambda>n. canonical_path fs (cn_path n)) ` set nodes \<subseteq> fset (fmdom (fs_files fs)) - visited"
  using assms
proof (induction E fs visited current arbitrary: nodes rule: discover_loop.induct)
  case (1 E fs visited current)
  from "1.prems" show ?case
  proof (cases rule: discover_loop_cases)
    case (1 d f)
    then have "canonical_path fs current \<in> fset (fmdom (fs_files fs))"
      using canonical_path_open VhdxDisk_open_some by metis
    with 1 show ?thesis
      by (auto simp: opens_as_def node_of_def)
  next
    case (2 d f pl nxt rest)
    have in_dom: "canonical_path fs current \<in> fset (fmdom (fs_files fs))"
      using 2(2) canonical_path_open VhdxDisk_open_some by metis
    have IH: "rest \<noteq> [] \<and> cn_path (hd rest) = nxt \<and> linked fs rest \<and> list_all (opens_as E fs) rest \<and>
        distinct (map (\<lambda>n. canonical_path fs (cn_path n)) rest) \<and>
        (\<lambda>n. canonical_path fs (cn_path n)) ` set rest \<subseteq>
          fset (fmdom (fs_files fs)) - insert (canonical_path fs current) visited"
      using "1.IH" [OF refl _ 2(2) refl 2(3) _ refl refl _ 2(6) [unfolded canonical_path_def]] 2
      by (simp add: canonical_path_def link_of_def)
    let ?n = "(node_of current d)\<lparr>cn_parent_link := Some (link_of E fs current pl)\<rparr>"
    obtain m ms where rest: "rest = m # ms" using IH by (cases rest) auto
    have "links_to fs ?n m"
      using IH rest 2(3,5) by (simp add: links_to_def node_of_def link_of_def)
    moreover have "opens_as E fs ?n" using 2(2) by (auto simp: opens_as_def node_of_def)
    ultimately show ?thesis
      using IH rest 2(1,7) in_dom by (auto simp: node_of_def)
  qed
qed

lemma check_guids_ok:
  "check_guids nodes = Inr () \<Longrightarrow> Suc i < length nodes \<Longrightarrow> cn_parent_link (nodes ! i) = Some l \<Longrightarrow>
    pk_expected_data_write_guid l = Some g \<Longrightarrow>
    cn_data_write_guid (nodes ! Suc i) = g \<or> cn_data_write_guid (nodes ! Suc i) = nil_uuid"
proof (induction nodes arbitrary: i)
  case (Cons n ns)
  show ?case
  proof (cases i)
    case 0
    with Cons.prems show ?thesis
      by (cases ns) (auto simp: Let_def split: if_splits)
  next
    case (Suc j)
    have "check_guids ns = Inr ()"
      using Cons.prems(1) by (auto simp: Let_def split: option.splits if_splits)
    with Cons Suc show ?thesis by simp
  qed
qed simp

lemma discovered:
  assumes "Chain_discover E fs leaf = Inr c"
  shows "ch_nodes c \<noteq> [] \<and> cn_path (hd (ch_nodes c)) = leaf \<and> linked fs (ch_nodes c) \<and>
    list_all (opens_as E fs) (ch_nodes c) \<and>
    distinct (map (\<lambda>n. fs_resolve fs (cn_path n)) (ch_nodes c)) \<and>
    length (ch_nodes c) \<le> card (fset (fmdom (fs_files fs))) \<and>
    (\<forall>i l g. Suc i < length (ch_nodes c) \<longrightarrow> cn_parent_link (ch_nodes c ! i) = Some l \<longrightarrow>
      pk_expected_data_write_guid l = Some g \<longrightarrow>
      cn_data_write_guid (ch_nodes c ! Suc i) \<in> {g, nil_uuid})"
proof -
  from assms have d: "discover_loop E fs {} leaf = Inr (ch_nodes c)" and g: "check_guids (ch_nodes c) = Inr ()"
    by (auto simp: Chain_discover_def res_simps)
  note D = discover_loop_nodes [OF d]
  have "canonical_path fs (cn_path n) = fs_resolve fs (cn_path n)" if "n \<in> set (ch_nodes c)" for n
  proof -
    have "opens_as E fs n" using D that by (simp add: list_all_iff)
    then have "fs_open fs (cn_path n) \<noteq> None" using VhdxDisk_open_some by (auto simp: opens_as_def)
    then show ?thesis using canonical_path_open by blast
  qed
  then have m: "map (\<lambda>n. canonical_path fs (cn_path n)) (ch_nodes c) = map (\<lambda>n. fs_resolve fs (cn_path n)) (ch_nodes c)"
    by simp
  have "length (ch_nodes c) = card (set (map (\<lambda>n. canonical_path fs (cn_path n)) (ch_nodes c)))"
    using D by (metis distinct_card length_map)
  also have "\<dots> \<le> card (fset (fmdom (fs_files fs)))"
    using D by (intro card_mono) auto
  finally show ?thesis using D check_guids_ok [OF g] by (auto simp: m [symmetric])
qed

text \<open>
  C28 (chain discovery): a chain that is found starts at the leaf, every node opens as a disk,
  every node but the last links to the next one and the last has no parent; no file occurs
  twice, so a chain has at most as many nodes as there are files; and a parent whose GUID
  the child states has this GUID or none.
\<close>

theorem discover_finds_chain:
  assumes "Chain_discover E fs leaf = Inr c"
  shows "ch_nodes c \<noteq> [] \<and> cn_path (hd (ch_nodes c)) = leaf \<and> linked fs (ch_nodes c) \<and>
    list_all (opens_as E fs) (ch_nodes c) \<and>
    distinct (map (\<lambda>n. fs_resolve fs (cn_path n)) (ch_nodes c)) \<and>
    length (ch_nodes c) \<le> card (fset (fmdom (fs_files fs))) \<and>
    (\<forall>i l g. Suc i < length (ch_nodes c) \<longrightarrow> cn_parent_link (ch_nodes c ! i) = Some l \<longrightarrow>
      pk_expected_data_write_guid l = Some g \<longrightarrow>
      cn_data_write_guid (ch_nodes c ! Suc i) \<in> {g, nil_uuid})"
  using assms by (rule discovered)

section \<open>Chains without end\<close>

text \<open>
  One step from a path to the path of the parent, and \<open>k\<close> of them.  A relative path in a
  locator is resolved from the directory of the child, so that a step depends on the path a
  file is reached by and not on the file alone.
\<close>

definition parent_step :: "externs \<Rightarrow> fsys \<Rightarrow> path \<Rightarrow> path option" where
  "parent_step E fs p =
    (case VhdxDisk_open E p (fs_open fs p) True of
       Inl _ \<Rightarrow> None
     | Inr (d, _) \<Rightarrow>
         if disk_has_parent d
         then Option.bind (md_parent_locator (vd_metadata d)) (resolve_parent fs p)
         else None)"

fun ancestor :: "externs \<Rightarrow> fsys \<Rightarrow> nat \<Rightarrow> path \<Rightarrow> path option" where
  "ancestor E fs 0 p = Some p"
| "ancestor E fs (Suc k) p = Option.bind (parent_step E fs p) (ancestor E fs k)"

lemma discover_loop_step:
  assumes "canonical_path fs p \<notin> visited" and "parent_step E fs p = Some nxt"
    and "discover_loop E fs (insert (canonical_path fs p) visited) nxt = Inl e"
  shows "discover_loop E fs visited p = Inl e"
  using assms
  by (auto simp: discover_loop.simps [of E fs visited p] parent_step_def Let_def link_of_def ok_or_def
      simp flip: canonical_path_def split: sum.splits if_splits bind_splits)

lemma discover_loop_revisit:
  assumes "ancestor E fs j p = Some q"
    and "canonical_path fs q \<in> visited \<or>
      (\<exists>i r. i < j \<and> ancestor E fs i p = Some r \<and> canonical_path fs r = canonical_path fs q)"
  shows "discover_loop E fs visited p = Inl (InvalidStructure ''cycle detected in parent chain'')"
  using assms
proof (induction j arbitrary: p visited)
  case 0
  then show ?case by (simp add: discover_loop.simps flip: canonical_path_def)
next
  case (Suc j)
  show ?case
  proof (cases "canonical_path fs p \<in> visited")
    case True
    then show ?thesis by (simp add: discover_loop.simps flip: canonical_path_def)
  next
    case False
    obtain nxt where nxt: "parent_step E fs p = Some nxt" "ancestor E fs j nxt = Some q"
      using Suc.prems(1) by (auto split: bind_splits)
    have "canonical_path fs q \<in> insert (canonical_path fs p) visited \<or>
        (\<exists>i r. i < j \<and> ancestor E fs i nxt = Some r \<and> canonical_path fs r = canonical_path fs q)"
      using Suc.prems(2) nxt(1) by (auto simp: less_Suc_eq_0_disj)
    from Suc.IH [OF nxt(2) this] show ?thesis by (rule discover_loop_step [OF False nxt(1)])
  qed
qed

lemma ancestor_exists:
  assumes "ancestor E fs (Suc k) p = Some q"
  obtains r where "ancestor E fs k p = Some r" and "canonical_path fs r \<in> fset (fmdom (fs_files fs))"
  using assms
proof (induction k arbitrary: p thesis)
  case 0
  then obtain d f where "VhdxDisk_open E p (fs_open fs p) True = Inr (d, f)"
    by (auto simp: parent_step_def split: bind_splits sum.splits)
  then show ?case using 0(1) [of p] canonical_path_open VhdxDisk_open_some by fastforce
next
  case (Suc k)
  obtain nxt where nxt: "parent_step E fs p = Some nxt" "ancestor E fs (Suc k) nxt = Some q"
    using Suc.prems(2) by (auto split: bind_splits)
  show ?case by (rule Suc.IH [OF _ nxt(2)]) (rule Suc.prems(1), simp_all add: nxt(1))
qed

text \<open>A chain as long as the number of files, and not at its end, comes back to a file.\<close>

lemma ancestors_repeat:
  assumes "\<And>k. k \<le> Suc n \<Longrightarrow> ancestor E fs k p \<noteq> None" and "n = card (fset (fmdom (fs_files fs)))"
  obtains i j r q where "i < j" and "ancestor E fs i p = Some r" and "ancestor E fs j p = Some q"
    and "canonical_path fs r = canonical_path fs q"
proof -
  let ?F = "fset (fmdom (fs_files fs))"
  define c where "c k = canonical_path fs (the (ancestor E fs k p))" for k
  have "c k \<in> ?F" if k: "k \<le> n" for k
  proof -
    obtain q where "ancestor E fs (Suc k) p = Some q"
      using assms(1) [of "Suc k"] k by (auto simp del: ancestor.simps)
    then show ?thesis by (rule ancestor_exists) (simp add: c_def)
  qed
  then have "c ` {..n} \<subseteq> ?F" by auto
  then have "card (c ` {..n}) \<le> n" using assms(2) by (simp add: card_mono)
  then have "\<not> inj_on c {..n}" using pigeonhole [of c "{..n}"] by simp
  then obtain a b where ab: "a \<le> n" "b \<le> n" "c a = c b" "a \<noteq> b" by (auto simp: inj_on_def)
  have some: "ancestor E fs k p = Some (the (ancestor E fs k p))" if "k \<le> n" for k
    using assms(1) [of k] that by auto
  show ?thesis
  proof (cases "a < b")
    case True
    then show ?thesis using that [OF _ some some] ab by (simp add: c_def)
  next
    case False
    then show ?thesis using that [of b a, OF _ some some] ab by (simp add: c_def)
  qed
qed

text \<open>
  C22 (discovery ends): discovery returns for every file system.  When the parents lead back
  to a file, or lead on for more steps than there are files, it is the error of a cycle.
\<close>

theorem discover_ends:
  "(ancestor E fs i leaf = Some r \<and> ancestor E fs j leaf = Some q \<and> i < j \<and>
      canonical_path fs r = canonical_path fs q \<longrightarrow>
    Chain_discover E fs leaf = Inl (InvalidStructure ''cycle detected in parent chain'')) \<and>
   ((\<forall>k \<le> Suc (card (fset (fmdom (fs_files fs)))). ancestor E fs k leaf \<noteq> None) \<longrightarrow>
    Chain_discover E fs leaf = Inl (InvalidStructure ''cycle detected in parent chain''))"
proof (intro conjI impI)
  have revisit: "Chain_discover E fs leaf = Inl (InvalidStructure ''cycle detected in parent chain'')"
    if "i < j" and "ancestor E fs i leaf = Some r" and "ancestor E fs j leaf = Some q"
      and "canonical_path fs r = canonical_path fs q" for i j r q
  proof -
    have "discover_loop E fs {} leaf = Inl (InvalidStructure ''cycle detected in parent chain'')"
      by (rule discover_loop_revisit [OF that(3)]) (use that in blast)
    then show ?thesis by (simp add: Chain_discover_def)
  qed
  then show "Chain_discover E fs leaf = Inl (InvalidStructure ''cycle detected in parent chain'')"
    if "ancestor E fs i leaf = Some r \<and> ancestor E fs j leaf = Some q \<and> i < j \<and>
      canonical_path fs r = canonical_path fs q"
    using that by blast
  show "Chain_discover E fs leaf = Inl (InvalidStructure ''cycle detected in parent chain'')"
    if "\<forall>k \<le> Suc (card (fset (fmdom (fs_files fs)))). ancestor E fs k leaf \<noteq> None"
    using that ancestors_repeat [of _ E fs leaf, OF _ refl] revisit by blast
qed

section \<open>A child and its parent\<close>

lemma join_absolute: "(if is_absolute n then n else path_join d n) = path_join d n"
  by (simp add: path_join_def)

lemma first_candidate_exists: "first_candidate fs dir cs = Some p \<Longrightarrow> path_exists fs p"
  by (induction cs) (auto simp: Let_def split: if_splits option.splits)


lemma resolve_new_relative:
  assumes "uuid_text_laws E" and "path_parent child = Some dir"
    and "path_exists fs (path_join dir (normalize_sep r))"
  shows "resolve_parent fs child (new_vhdx_relative E r g) = Some (path_join dir (normalize_sep r))"
  using new_vhdx_relative_reads [OF assms(1), of r g] assms(2,3)
  by (auto simp: resolve_parent_def join_absolute map_filter_simps Let_def split: option.split)

lemma discover_two:
  assumes "uuid_text_laws E" and "path_parent leaf = Some dir" and "q = path_join dir (normalize_sep r)"
    and "VhdxDisk_open E leaf (fs_open fs leaf) True = Inr (dc, fc)" and "disk_has_parent dc"
    and "md_parent_locator (vd_metadata dc) = Some (new_vhdx_relative E r g)"
    and "VhdxDisk_open E q (fs_open fs q) True = Inr (dp, fp)" and "\<not> disk_has_parent dp"
  shows "Chain_discover E fs leaf =
    (let pg = data_write_guid (active_header dp) in
     if fs_resolve fs q = fs_resolve fs leaf then Inl (InvalidStructure ''cycle detected in parent chain'')
     else if pg \<noteq> g \<and> pg \<noteq> nil_uuid then Inl (ParentGuidMismatch leaf g pg)
     else Inr \<lparr>ch_leaf_path = leaf, ch_nodes =
       [(node_of leaf dc)\<lparr>cn_parent_link := Some (link_of E fs leaf (new_vhdx_relative E r g))\<rparr>, node_of q dp]\<rparr>)"
proof -
  have ex: "fs_open fs q \<noteq> None" "fs_open fs leaf \<noteq> None"
    using assms(4,7) VhdxDisk_open_some by blast+
  then have can: "canonical_path fs q = fs_resolve fs q" "canonical_path fs leaf = fs_resolve fs leaf"
    using canonical_path_open by blast+
  have res: "resolve_parent fs leaf (new_vhdx_relative E r g) = Some q"
    using resolve_new_relative [OF assms(1,2)] ex(1) assms(3) by (simp add: path_exists_def)
  then have link: "pk_resolved_path (link_of E fs leaf (new_vhdx_relative E r g)) = Some q"
      "pk_expected_data_write_guid (link_of E fs leaf (new_vhdx_relative E r g)) = Some g"
    using new_vhdx_relative_reads(1) [OF assms(1)] by (simp_all add: link_of_def)
  have parent: "discover_loop E fs {fs_resolve fs leaf} q =
      (if fs_resolve fs q = fs_resolve fs leaf then Inl (InvalidStructure ''cycle detected in parent chain'')
       else Inr [node_of q dp])"
    using assms(7,8) can(1)
    by (simp add: discover_loop.simps [of E fs _ q] Let_def flip: canonical_path_def)
  have "discover_loop E fs {} leaf =
      (if fs_resolve fs q = fs_resolve fs leaf then Inl (InvalidStructure ''cycle detected in parent chain'')
       else Inr [(node_of leaf dc)\<lparr>cn_parent_link := Some (link_of E fs leaf (new_vhdx_relative E r g))\<rparr>,
         node_of q dp])"
    using assms(4,5,6) can(2) link(1) parent
    by (simp add: discover_loop.simps [of E fs _ leaf] Let_def flip: canonical_path_def)
  then show ?thesis
    using link(2) by (simp add: Chain_discover_def Let_def node_of_def)
qed

text \<open>
  C30 (child and parent): a leaf with the locator that \<open>new_vhdx_relative\<close> makes, next to a
  root the locator's path leads to, is discovered as the chain of the two; a root that is
  the leaf itself is a cycle, and a root with another GUID, unless it is nil, a mismatch.
\<close>

theorem discover_child_and_parent:
  assumes "uuid_text_laws E" and "path_parent leaf = Some dir" and "q = path_join dir (normalize_sep r)"
    and "VhdxDisk_open E leaf (fs_open fs leaf) True = Inr (dc, fc)" and "disk_has_parent dc"
    and "md_parent_locator (vd_metadata dc) = Some (new_vhdx_relative E r g)"
    and "VhdxDisk_open E q (fs_open fs q) True = Inr (dp, fp)" and "\<not> disk_has_parent dp"
  shows "Chain_discover E fs leaf =
    (let pg = data_write_guid (active_header dp) in
     if fs_resolve fs q = fs_resolve fs leaf then Inl (InvalidStructure ''cycle detected in parent chain'')
     else if pg \<noteq> g \<and> pg \<noteq> nil_uuid then Inl (ParentGuidMismatch leaf g pg)
     else Inr \<lparr>ch_leaf_path = leaf, ch_nodes =
       [(node_of leaf dc)\<lparr>cn_parent_link := Some (link_of E fs leaf (new_vhdx_relative E r g))\<rparr>, node_of q dp]\<rparr>)"
  using assms by (rule discover_two)

section \<open>Concrete chains\<close>

definition child_params :: "externs \<Rightarrow> uuid \<Rightarrow> writer_params" where
  "child_params E g = small_params\<lparr>wp_parent_locator := Some (new_vhdx_relative E (str ''base.vhdx'') g),
     wp_data_write_guid := 99\<rparr>"

lemma child_params_ok: "params_ok ref_externs (child_params ref_externs g)"
proof -
  have "encodable (str ''base.vhdx'')" by (rule encodable_ascii) (simp_all add: str_def)
  note fits = new_vhdx_relative_fits [OF ref_uuid_laws ref_uuid_text_laws this, of g]
  from fits(2) have "length (ParentLocator_encode ref_externs
      (new_vhdx_relative ref_externs (str ''base.vhdx'') g)) \<le> 900000" by linarith
  with fits(1) show ?thesis by (simp add: params_ok_def child_params_def small_params_def)
qed

lemma small_file:
  assumes "params_ok ref_externs p" and "\<not> wp_fixed p" and "unat (lay_payload_start p) \<le> 8388608"
  obtains f where "\<And>q ro. \<exists>d. VhdxDisk_open ref_externs q (Some f) ro = Inr (d, f) \<and>
    vd_metadata d = writer_metadata p \<and> data_write_guid (active_header d) = wp_data_write_guid p \<and>
    (\<forall>b. unat b < unat (lay_count p) \<longrightarrow> read_block d f b = Inr (expected_block p None))"
  using session_ok [OF ref_uuid_laws assms(1,2), of 8388608 "[]" "''x''"] assms(3)
  by (auto simp: last_sources_def) metis

lemma child_lay:
  "unat (lay_payload_start (child_params ref_externs 11)) \<le> 8388608"
  "\<not> wp_fixed (child_params ref_externs 11)" "\<not> wp_fixed small_params"
  "unat (lay_payload_start small_params) \<le> 8388608"
  by (simp_all add: child_params_def small_lay lay_count_def lay_payload_start_def lay_bat_offset_def
      lay_metadata_offset_def lay_bat_length_def lay_total_def lay_ratio_def small_params_def div_ceil_def
      align_up_def offset_defs nat_payload_index_def nat_bitmap_index_def push_bit_eq_mult Let_def max_def
      word_le_nat_alt)

lemma base_dir: "path_parent ''/d/base.vhdx'' = Some ''/d''"
  "path_join ''/d'' (normalize_sep (str ''base.vhdx'')) = ''/d/base.vhdx''"
  by code_simp+

text \<open>A directory with a base file, and a leaf that names it as its parent.\<close>

lemma two_files:
  obtains fs dc fc dp fp where
    "VhdxDisk_open ref_externs ''/d/leaf.avhdx'' (fs_open fs ''/d/leaf.avhdx'') True = Inr (dc, fc)"
    and "disk_has_parent dc"
    and "md_parent_locator (vd_metadata dc) = Some (new_vhdx_relative ref_externs (str ''base.vhdx'') 11)"
    and "VhdxDisk_open ref_externs ''/d/base.vhdx'' (fs_open fs ''/d/base.vhdx'') True = Inr (dp, fp)"
    and "\<not> disk_has_parent dp" and "data_write_guid (active_header dp) = 11"
    and "fs_resolve fs = id"
proof -
  let ?cp = "child_params ref_externs 11"
  obtain fp where fp: "\<And>q ro. \<exists>d. VhdxDisk_open ref_externs q (Some fp) ro = Inr (d, fp) \<and>
      vd_metadata d = writer_metadata small_params \<and>
      data_write_guid (active_header d) = wp_data_write_guid small_params"
    using small_file [OF small_params_ok child_lay(3,4)] by metis
  obtain fc where fc: "\<And>q ro. \<exists>d. VhdxDisk_open ref_externs q (Some fc) ro = Inr (d, fc) \<and>
      vd_metadata d = writer_metadata ?cp"
    using small_file [OF child_params_ok child_lay(2,1)] by metis
  let ?fs = "\<lparr>fs_files = fmupd ''/d/leaf.avhdx'' fc (fmupd ''/d/base.vhdx'' fp fmempty), fs_resolve = id\<rparr>"
  obtain dp where dp: "VhdxDisk_open ref_externs ''/d/base.vhdx'' (Some fp) True = Inr (dp, fp)"
      "vd_metadata dp = writer_metadata small_params" "data_write_guid (active_header dp) = 11"
    using fp [of "''/d/base.vhdx''" True] by (auto simp: small_params_def)
  obtain dc where dc: "VhdxDisk_open ref_externs ''/d/leaf.avhdx'' (Some fc) True = Inr (dc, fc)"
      "vd_metadata dc = writer_metadata ?cp"
    using fc [of "''/d/leaf.avhdx''" True] by auto
  show ?thesis
    by (rule that [of ?fs dc fc dp fp])
      (simp_all add: fs_open_def dp dc disk_has_parent_def writer_metadata_def child_params_def small_params_def)
qed

text \<open>A child that is its own parent.\<close>

theorem discover_ends_witness:
  "\<exists>fs. parent_step ref_externs fs ''/d/base.vhdx'' = Some ''/d/base.vhdx'' \<and>
    Chain_discover ref_externs fs ''/d/base.vhdx'' = Inl (InvalidStructure ''cycle detected in parent chain'')"
proof -
  let ?cp = "child_params ref_externs 11" and ?p = "''/d/base.vhdx''"
  obtain f where f: "\<And>q ro. \<exists>d. VhdxDisk_open ref_externs q (Some f) ro = Inr (d, f) \<and>
      vd_metadata d = writer_metadata ?cp"
    using small_file [OF child_params_ok child_lay(2,1)] by metis
  let ?fs = "\<lparr>fs_files = fmupd ?p f fmempty, fs_resolve = id\<rparr>"
  obtain d where d: "VhdxDisk_open ref_externs ?p (Some f) True = Inr (d, f)"
      "vd_metadata d = writer_metadata ?cp"
    using f by blast
  have opened: "fs_open ?fs ?p = Some f" by (simp add: fs_open_def)
  have "resolve_parent ?fs ?p (new_vhdx_relative ref_externs (str ''base.vhdx'') 11) = Some ?p"
    using resolve_new_relative [OF ref_uuid_text_laws, of ?p "''/d''" ?fs "str ''base.vhdx''" 11] opened
    by (simp add: base_dir path_exists_def)
  then have step: "parent_step ref_externs ?fs ?p = Some ?p"
    using d opened
    by (simp add: parent_step_def disk_has_parent_def writer_metadata_def child_params_def small_params_def)
  then have walk: "ancestor ref_externs ?fs (Suc 0) ?p = Some ?p" by simp
  have "Chain_discover ref_externs ?fs ?p = Inl (InvalidStructure ''cycle detected in parent chain'')"
    using discover_ends [where i = 0 and j = "Suc 0" and leaf = ?p and r = ?p and q = ?p
        and fs = ?fs and E = ref_externs] walk by simp
  with step show ?thesis by blast
qed

lemma leaf_dir: "path_parent ''/d/leaf.avhdx'' = Some ''/d''"
  "path_join ''/d'' (normalize_sep (str ''base.vhdx'')) = ''/d/base.vhdx''"
  by code_simp+

theorem discover_child_and_parent_witness:
  "\<exists>fs c. Chain_discover ref_externs fs ''/d/leaf.avhdx'' = Inr c \<and>
    map cn_path (ch_nodes c) = [''/d/leaf.avhdx'', ''/d/base.vhdx'']"
proof -
  obtain fs dc fc dp fp where F:
    "VhdxDisk_open ref_externs ''/d/leaf.avhdx'' (fs_open fs ''/d/leaf.avhdx'') True = Inr (dc, fc)"
    "disk_has_parent dc"
    "md_parent_locator (vd_metadata dc) = Some (new_vhdx_relative ref_externs (str ''base.vhdx'') 11)"
    "VhdxDisk_open ref_externs ''/d/base.vhdx'' (fs_open fs ''/d/base.vhdx'') True = Inr (dp, fp)"
    "\<not> disk_has_parent dp" "data_write_guid (active_header dp) = 11" "fs_resolve fs = id"
    using two_files by metis
  show ?thesis
    using discover_child_and_parent [OF ref_uuid_text_laws leaf_dir(1) leaf_dir(2) [symmetric] F(1-5)] F(6,7)
    by (intro exI [of _ fs]) (simp add: node_of_def)
qed

theorem discover_finds_chain_witness:
  "\<exists>fs c. Chain_discover ref_externs fs ''/d/leaf.avhdx'' = Inr c \<and> linked fs (ch_nodes c) \<and>
    length (ch_nodes c) = 2 \<and> 2 \<le> card (fset (fmdom (fs_files fs)))"
proof -
  obtain fs c where c: "Chain_discover ref_externs fs ''/d/leaf.avhdx'' = Inr c" "length (ch_nodes c) = 2"
  proof -
    obtain fs dc fc dp fp where F:
      "VhdxDisk_open ref_externs ''/d/leaf.avhdx'' (fs_open fs ''/d/leaf.avhdx'') True = Inr (dc, fc)"
      "disk_has_parent dc"
      "md_parent_locator (vd_metadata dc) = Some (new_vhdx_relative ref_externs (str ''base.vhdx'') 11)"
      "VhdxDisk_open ref_externs ''/d/base.vhdx'' (fs_open fs ''/d/base.vhdx'') True = Inr (dp, fp)"
      "\<not> disk_has_parent dp" "data_write_guid (active_header dp) = 11" "fs_resolve fs = id"
      using two_files by metis
    have "\<exists>c. Chain_discover ref_externs fs ''/d/leaf.avhdx'' = Inr c \<and> length (ch_nodes c) = 2"
      using discover_two [OF ref_uuid_text_laws leaf_dir(1) leaf_dir(2) [symmetric] F(1-5)] F(6,7) by simp
    then show ?thesis using that by blast
  qed
  then show ?thesis using discover_finds_chain [OF c(1)] by auto
qed


end
