(* ===== verification/Vhdx_Compact.thy ===== *)
theory Vhdx_Compact
  imports Vhdx_Repair Vhdx_Chain
begin

text \<open>
  \<open>compact.rs\<close>: repacking a disk without parent into a fresh dynamic file, zero blocks left
  out, beside the original or in its place.  The path \<open>tempfile\<close> picks for the temporary
  file in a directory is the argument \<open>tempfile_in\<close>; the identifiers \<open>Uuid::new_v4\<close> draws
  are arguments too.  The input is read through one handle while the temporary file is
  written through another; the two are different files.
\<close>

section \<open>The test for zeros\<close>

text \<open>\<open>is_all_zero_aligned\<close> with its loop from \<open>i\<close> on.\<close>

function zero_chunks :: "bytes \<Rightarrow> nat \<Rightarrow> nat \<Rightarrow> bool" where
  "zero_chunks buf g i =
    (if i < length buf \<and> 0 < g then
       let end' = min (i + g) (length buf) in
       if \<not> list_all (\<lambda>b. b = 0) (bslice buf i end') then False else zero_chunks buf g (i + g)
     else True)"
  by pat_completeness auto
termination by (relation "measure (\<lambda>(buf, g, i). length buf - i)") auto

declare zero_chunks.simps [simp del]

definition is_all_zero_aligned :: "bytes \<Rightarrow> nat \<Rightarrow> bool" where
  "is_all_zero_aligned buf granularity =
    (if granularity = 0 then False
     else if buf = [] then True
     else zero_chunks buf (max granularity 1) 0)"

lemma list_all_bslice:
  assumes "hi \<le> length xs"
  shows "list_all P (bslice xs lo hi) \<longleftrightarrow> (\<forall>k. lo \<le> k \<and> k < hi \<longrightarrow> P (xs ! k))"
proof -
  have "list_all P (bslice xs lo hi) \<longleftrightarrow> (\<forall>j < hi - lo. P (xs ! (lo + j)))"
    using assms by (simp add: list_all_length length_slice nth_slice)
  also have "\<dots> \<longleftrightarrow> (\<forall>k. lo \<le> k \<and> k < hi \<longrightarrow> P (xs ! k))"
  proof (intro iffI allI impI)
    fix k
    assume all: "\<forall>j < hi - lo. P (xs ! (lo + j))" and k: "lo \<le> k \<and> k < hi"
    then show "P (xs ! k)" using spec [OF all, of "k - lo"] by (simp add: diff_less_mono)
  qed simp
  finally show ?thesis .
qed

lemma zero_chunks_iff: "0 < g \<Longrightarrow> zero_chunks buf g i \<longleftrightarrow> (\<forall>k. i \<le> k \<and> k < length buf \<longrightarrow> buf ! k = 0)"
proof (induction buf g i rule: zero_chunks.induct)
  case (1 buf g i)
  show ?case
  proof (cases "i < length buf")
    case True
    define m where "m = min (i + g) (length buf)"
    have m: "m \<le> length buf" "m = length buf \<or> m = i + g" "i + g \<le> k \<or> k < m \<or> length buf \<le> k" for k
      by (auto simp: m_def)
    have step: "zero_chunks buf g i \<longleftrightarrow>
        (\<forall>k. i \<le> k \<and> k < m \<longrightarrow> buf ! k = 0) \<and> zero_chunks buf g (i + g)"
      using True "1.prems" list_all_bslice [OF m(1), of "\<lambda>b. b = 0" i]
      by (simp add: zero_chunks.simps [of buf g i] Let_def m_def)
    show ?thesis
    proof (cases "list_all (\<lambda>b. b = 0) (bslice buf i m)")
      case zero: True
      have "zero_chunks buf g (i + g) \<longleftrightarrow> (\<forall>k. i + g \<le> k \<and> k < length buf \<longrightarrow> buf ! k = 0)"
        using "1.IH" [OF conjI [OF True "1.prems"] m_def] zero "1.prems" by simp
      moreover have "\<forall>k. i \<le> k \<and> k < m \<longrightarrow> buf ! k = 0"
        using zero by (simp add: list_all_bslice [OF m(1)])
      ultimately show ?thesis unfolding step using m(3) by (meson le_add1 le_trans not_le)
    next
      case False
      then show ?thesis unfolding step using m(1) by (auto simp: list_all_bslice [OF m(1)])
    qed
  next
    case False
    then show ?thesis by (auto simp: zero_chunks.simps [of buf g i])
  qed
qed

lemma is_all_zero_aligned_iff: "is_all_zero_aligned buf g \<longleftrightarrow> g \<noteq> 0 \<and> is_all_zero buf"
  by (auto simp: is_all_zero_aligned_def zero_chunks_iff is_all_zero_def list_all_length)

text \<open>
  The test for zeros: scanning in chunks finds a buffer sparse exactly when every byte
  is zero, whatever the positive chunk size, a last chunk that is cut short included; with
  chunk size 0 nothing is sparse.
\<close>

lemma is_all_zero_aligned_correct:
  "is_all_zero_aligned buf g \<longleftrightarrow> g \<noteq> 0 \<and> is_all_zero buf"
  by (rule is_all_zero_aligned_iff)

section \<open>The operation\<close>

record compact_options =
  co_sparse_size :: u64
  co_in_place :: bool
  co_skip_fsck :: bool

definition CompactOptions_default :: compact_options where
  "CompactOptions_default = \<lparr>co_sparse_size = 4096, co_in_place = False, co_skip_fsck = False\<rparr>"

record compact_report =
  cr_input :: path
  cr_output :: path
  cr_blocks_total :: u64
  cr_blocks_written :: u64
  cr_blocks_zero :: u64
  cr_bytes_in :: nat
  cr_bytes_out :: nat

definition compact_params :: "uuid \<Rightarrow> uuid \<Rightarrow> vhdx_disk \<Rightarrow> writer_params" where
  "compact_params g1 g2 disk =
    \<lparr>wp_virtual_disk_size = disk_virtual_size disk, wp_block_size = disk_block_size disk,
     wp_logical_sector_size = logical_sector_size (vd_metadata disk),
     wp_physical_sector_size = physical_sector_size (vd_metadata disk),
     wp_fixed = False, wp_parent_locator = None, wp_log_size = 1024 * 1024,
     wp_data_write_guid = g1, wp_file_write_guid = g2, wp_page_83_data = page_83_data (vd_metadata disk)\<rparr>"

text \<open>The loop over the blocks \<open>blk\<close>, \<dots>, \<open>blk + n - 1\<close>, with the two counters of the report.\<close>

fun compact_blocks ::
    "u64 \<Rightarrow> vhdx_disk \<Rightarrow> dfile \<Rightarrow> u64 \<Rightarrow> nat \<Rightarrow> vhdx_writer \<times> u64 \<times> u64 \<Rightarrow> (vhdx_writer \<times> u64 \<times> u64) res" where
  "compact_blocks sparse disk f blk 0 st = Inr st"
| "compact_blocks sparse disk f blk (Suc n) (w, stored, zero) =
    bindR (read_block disk f blk) (\<lambda>read.
    case (case read of Absent \<Rightarrow> None | Full b \<Rightarrow> Some b | Partial payload _ \<Rightarrow> Some payload) of
      None \<Rightarrow>
        bindR (write_block w blk SrcZero) (\<lambda>w.
        compact_blocks sparse disk f (blk + 1) n (w, stored, zero + 1))
    | Some buf \<Rightarrow>
        if sparse > 0 \<and> is_all_zero_aligned buf (unat sparse) then
          bindR (write_block w blk SrcZero) (\<lambda>w.
          compact_blocks sparse disk f (blk + 1) n (w, stored, zero + 1))
        else
          bindR (write_block w blk (SrcBuf buf)) (\<lambda>w.
          compact_blocks sparse disk f (blk + 1) n (w, stored + 1, zero)))"

text \<open>The path of the output.\<close>

definition compacted_path :: "path \<Rightarrow> path" where
  "compacted_path in_path =
    set_file_name in_path ((case file_stem in_path of Some s \<Rightarrow> s | None \<Rightarrow> ''image'') @ ''.compacted.vhdx'')"

definition compact ::
    "externs \<Rightarrow> (path \<Rightarrow> path res) \<Rightarrow> uuid \<Rightarrow> uuid \<Rightarrow> nat \<Rightarrow> fsys \<Rightarrow> path \<Rightarrow> compact_options \<Rightarrow> (fsys \<times> compact_report) res" where
  "compact E tempfile_in g1 g2 capacity fs in_path opts =
    bindR (repair_unless E (co_skip_fsck opts) fs in_path) (\<lambda>fs.
    bindR (VhdxDisk_open E in_path (fs_open fs in_path) True) (\<lambda>(disk, f).
    if disk_has_parent disk
    then Inl (Unsupported ''compact does not operate on differencing disks; flatten first'')
    else
      bindR (disk_block_count disk) (\<lambda>bcount.
      let dir = (case path_parent in_path of Some d \<Rightarrow> d | None \<Rightarrow> ''.'') in
      bindR (tempfile_in dir) (\<lambda>tmp_path.
      bindR (VhdxWriter_create E tmp_path capacity (compact_params g1 g2 disk)) (\<lambda>w.
      bindR (compact_blocks (co_sparse_size opts) disk f 0 (unat bcount) (w, 0, 0)) (\<lambda>(w, stored, zero).
      bindR (writer_finish w) (\<lambda>(_, out_file).
      let fs = fs_store fs tmp_path out_file;
          out = (if co_in_place opts then in_path else compacted_path in_path) in
      bindR (fs_rename fs tmp_path out) (\<lambda>fs.
      Inr (fs, \<lparr>cr_input = in_path, cr_output = out, cr_blocks_total = bcount,
        cr_blocks_written = stored, cr_blocks_zero = zero, cr_bytes_in = f_len f,
        cr_bytes_out = f_len out_file\<rparr>)))))))))"

section \<open>The loop as a session of the writer\<close>

definition compact_source :: "u64 \<Rightarrow> block_read \<Rightarrow> block_source" where
  "compact_source sparse r = (case (case r of Absent \<Rightarrow> None | Full b \<Rightarrow> Some b | Partial payload _ \<Rightarrow> Some payload) of
     None \<Rightarrow> SrcZero
   | Some buf \<Rightarrow> if sparse > 0 \<and> is_all_zero_aligned buf (unat sparse) then SrcZero else SrcBuf buf)"

fun numbered :: "u64 \<Rightarrow> 'a list \<Rightarrow> (u64 \<times> 'a) list" where
  "numbered b [] = []"
| "numbered b (x # xs) = (b, x) # numbered (b + 1) xs"

lemma length_numbered [simp]: "length (numbered b xs) = length xs"
  by (induction xs arbitrary: b) simp_all

lemma unat_succ: "unat (b :: u64) + Suc n < 2 ^ 64 \<Longrightarrow> unat (b + 1) = unat b + 1"
  by (subst unat_add_u64) simp_all

lemma in_numbered:
  "unat b + length xs < 2 ^ 64 \<Longrightarrow> (k, x) \<in> set (numbered b xs) \<Longrightarrow> unat k < unat b + length xs \<and> x \<in> set xs"
proof (induction xs arbitrary: b)
  case (Cons y xs)
  have "unat (b + 1) = unat b + 1" using Cons.prems(1) unat_succ by simp
  with Cons.IH [of "b + 1"] Cons.prems show ?case by auto
qed simp

lemma foldl_numbered:
  assumes "unat b + length xs < 2 ^ 64"
  shows "foldl (\<lambda>c (b, s). c(unat b := Some s)) c (numbered b xs) k =
    (if unat b \<le> k \<and> k < unat b + length xs then Some (xs ! (k - unat b)) else c k)"
  using assms
proof (induction xs arbitrary: b c)
  case (Cons x xs)
  have b: "unat (b + 1) = unat b + 1" using Cons.prems(1) unat_succ by simp
  have "unat (b + 1) + length xs < 2 ^ 64" using Cons.prems(1) b by simp
  from Cons.IH [OF this, of "c(unat b := Some x)"] show ?case
    by (auto simp: b nth_Cons' Suc_diff_le)
qed auto

lemma last_sources_numbered:
  "k < length xs \<Longrightarrow> length xs < 2 ^ 64 \<Longrightarrow> last_sources (numbered 0 xs) k = Some (xs ! k)"
  using foldl_numbered [of 0 xs "\<lambda>_. None" k] by (simp add: last_sources_def)

lemma compact_blocks_session:
  assumes "\<forall>i < length rs. read_block d f (blk + word_of_nat i) = Inr (rs ! i)"
    and "write_blocks w (numbered blk (map (compact_source sp) rs)) = Inr w'"
  shows "\<exists>k z. compact_blocks sp d f blk (length rs) (w, stored, zero) = Inr (w', stored + k, zero + z) \<and>
    k + z = word_of_nat (length rs)"
  using assms
proof (induction rs arbitrary: blk w stored zero)
  case Nil
  then show ?case by simp
next
  case (Cons r rs)
  have r: "read_block d f blk = Inr r" using Cons.prems(1) [rule_format, of 0] by simp
  have rest: "\<forall>i < length rs. read_block d f (blk + 1 + word_of_nat i) = Inr (rs ! i)"
    using Cons.prems(1) [rule_format, of "Suc _"] by (auto simp: algebra_simps)
  obtain w1 where w1: "write_block w blk (compact_source sp r) = Inr w1"
      "write_blocks w1 (numbered (blk + 1) (map (compact_source sp) rs)) = Inr w'"
    using Cons.prems(2) by (auto simp: bindR_eq_Inr)
  define e where "e \<longleftrightarrow> compact_source sp r = SrcZero"
  let ?stored = "if e then stored else stored + 1" and ?zero = "if e then zero + 1 else zero"
  have step: "compact_blocks sp d f blk (length (r # rs)) (w, stored, zero) =
      compact_blocks sp d f (blk + 1) (length rs) (w1, ?stored, ?zero)"
    using r w1(1) by (auto simp: e_def compact_source_def split: block_read.splits if_splits)
  obtain k z where kz: "compact_blocks sp d f (blk + 1) (length rs) (w1, ?stored, ?zero) = Inr (w', ?stored + k, ?zero + z)"
      "k + z = word_of_nat (length rs)"
    using Cons.IH [OF rest w1(2), of ?stored ?zero] by blast
  show ?case
    unfolding step kz(1) using kz(2)
    by (intro exI [of _ "if e then k else k + 1"] exI [of _ "if e then z + 1 else z"]) (auto simp: algebra_simps)
qed

section \<open>The output\<close>

definition payload_of :: "nat \<Rightarrow> block_read \<Rightarrow> bytes" where
  "payload_of n r = (case r of Full b \<Rightarrow> b | Partial payload _ \<Rightarrow> payload | Absent \<Rightarrow> replicate n 0)"

lemma compact_source_reads:
  assumes "length (payload_of (unat (wp_block_size p)) r) = unat (wp_block_size p)"
  shows "source_ok p (compact_source sp r)"
    and "expected_block p (Some (compact_source sp r)) = Full (payload_of (unat (wp_block_size p)) r)"
proof -
  have z: "b = replicate (unat (wp_block_size p)) 0" if "is_all_zero b" "length b = unat (wp_block_size p)" for b
    using that by (auto simp: is_all_zero_def list_all_iff intro!: replicate_eqI)
  show "source_ok p (compact_source sp r)"
    using assms by (cases r) (auto simp: compact_source_def source_ok_def payload_of_def)
  show "expected_block p (Some (compact_source sp r)) = Full (payload_of (unat (wp_block_size p)) r)"
    using assms z by (cases r) (auto simp: compact_source_def expected_block_def payload_of_def is_all_zero_aligned_iff)
qed

text \<open>
  Where the result is: with the temporary path apart from the input, the output holds the new
  file, the temporary name is gone, and every other file is as it was.
\<close>

lemma rename_stored:
  assumes "fs_rename (fs_store fs tmp f) tmp out = Inr fs'"
  shows "fs_open fs' q = (if fs_resolve fs q = fs_resolve fs out then Some f
    else if fs_resolve fs q = fs_resolve fs tmp then None else fs_open fs q)"
proof (cases "fs_resolve fs tmp = fs_resolve fs out")
  case True
  then have "fs' = fs_store fs tmp f" using assms by (simp add: fs_rename_def fs_open_store)
  with True show ?thesis by (simp add: fs_open_store)
next
  case False
  then have "fs' = (fs_store fs tmp f)\<lparr>fs_files := fmupd (fs_resolve fs out) f (fmdrop (fs_resolve fs tmp)
      (fs_files (fs_store fs tmp f)))\<rparr>"
    using assms by (simp add: fs_rename_def fs_open_store)
  then show ?thesis by (auto simp: fs_open_def)
qed

lemma rename_stored_ok: "\<exists>fs'. fs_rename (fs_store fs tmp f) tmp out = Inr fs'"
  by (simp add: fs_rename_def fs_open_store)

text \<open>What the loop hands to the writer: one source per block, in order.\<close>

abbreviation compact_writes :: "u64 \<Rightarrow> (u64 \<Rightarrow> block_read) \<Rightarrow> nat \<Rightarrow> (u64 \<times> block_source) list" where
  "compact_writes sparse r n \<equiv> numbered 0 (map (compact_source sparse) (map (\<lambda>i. r (word_of_nat i)) [0..<n]))"

lemma compact_writes_ok:
  fixes p :: writer_params
  defines "n \<equiv> unat (lay_count p)" and "bs \<equiv> unat (wp_block_size p)"
  assumes p: "params_ok E p" and pay: "\<And>b. unat b < n \<Longrightarrow> length (payload_of bs (r b)) = bs"
    and room: "unat (lay_payload_start p) + n * bs \<le> capacity"
  shows "\<forall>(b, s)\<in>set (compact_writes sparse r n). unat b < n \<and> source_ok p s"
    and "unat (lay_payload_start p) +
      length (filter (\<lambda>(b, s). s \<noteq> SrcZero) (compact_writes sparse r n)) * bs \<le> capacity"
    and "unat b < n \<Longrightarrow> expected_block p (last_sources (compact_writes sparse r n) (unat b)) = Full (payload_of bs (r b))"
proof -
  let ?rs = "map (\<lambda>i. r (word_of_nat i)) [0..<n]"
  have n: "n \<le> 67108864" unfolding n_def by (rule lay_count_ratio(1) [OF p])
  have wd: "unat (word_of_nat i :: u64) = i" if "i < n" for i using that n by (simp add: unat_of_nat_u64)
  have len: "length (payload_of bs (?rs ! i)) = bs" if "i < n" for i using pay [of "word_of_nat i"] that wd by simp
  show "\<forall>(b, s)\<in>set (compact_writes sparse r n). unat b < n \<and> source_ok p s"
  proof (clarify, intro conjI)
    fix b s assume "(b, s) \<in> set (compact_writes sparse r n)"
    then have "unat b < n" "s \<in> set (map (compact_source sparse) ?rs)"
      using in_numbered [of 0 "map (compact_source sparse) ?rs" b s] n by auto
    then show "unat b < n" "source_ok p s"
      using compact_source_reads(1) len by (auto simp: in_set_conv_nth bs_def)
  qed
  have "length (filter (\<lambda>(b, s). s \<noteq> SrcZero) (compact_writes sparse r n)) \<le> n"
    using length_filter_le [of _ "compact_writes sparse r n"] by simp
  then show "unat (lay_payload_start p) +
      length (filter (\<lambda>(b, s). s \<noteq> SrcZero) (compact_writes sparse r n)) * bs \<le> capacity"
    using room mult_le_mono1 [of _ n bs] by (meson add_left_mono order_trans)
  show "expected_block p (last_sources (compact_writes sparse r n) (unat b)) = Full (payload_of bs (r b))" if "unat b < n"
    using last_sources_numbered [of "unat b" "map (compact_source sparse) ?rs"] that n len [OF that]
      compact_source_reads(2) [of p "?rs ! unat b" sparse]
    by (simp add: bs_def)
qed

lemma compact_ok:
  fixes d :: vhdx_disk and opts :: compact_options and g1 g2 :: uuid
  defines "p \<equiv> compact_params g1 g2 d"
  assumes "uuid_laws E" and "repair_unless E (co_skip_fsck opts) fs in_path = Inr fs1"
    and "VhdxDisk_open E in_path (fs_open fs1 in_path) True = Inr (d, f)" and "\<not> disk_has_parent d"
    and "params_ok E p" and "capacity < 2 ^ 63"
    and "unat (lay_payload_start p) + unat (lay_count p) * unat (disk_block_size d) \<le> capacity"
    and "\<And>b. unat b < unat (lay_count p) \<Longrightarrow> read_block d f b = Inr (r b)"
    and "tempfile_in (case path_parent in_path of Some q \<Rightarrow> q | None \<Rightarrow> ''.'') = Inr tmp"
  shows "\<exists>fs' rep g. compact E tempfile_in g1 g2 capacity fs in_path opts = Inr (fs', rep) \<and>
    cr_output rep = (if co_in_place opts then in_path else compacted_path in_path) \<and>
    cr_blocks_total rep = lay_count p \<and> cr_blocks_written rep + cr_blocks_zero rep = lay_count p \<and>
    (\<forall>q. fs_open fs' q = (if fs_resolve fs1 q = fs_resolve fs1 (cr_output rep) then Some g
      else if fs_resolve fs1 q = fs_resolve fs1 tmp then None else fs_open fs1 q)) \<and>
    (\<forall>q ro. \<exists>d'. VhdxDisk_open E q (Some g) ro = Inr (d', g) \<and> vd_metadata d' = writer_metadata p \<and>
      (\<forall>b. unat b < unat (lay_count p) \<longrightarrow>
        read_block d' g b = Inr (Full (payload_of (unat (disk_block_size d)) (r b)))))"
proof -
  let ?n = "unat (lay_count p)" and ?bs = "unat (disk_block_size d)" and ?sp = "co_sparse_size opts"
  have pf: "wp_block_size p = disk_block_size d" "wp_virtual_disk_size p = disk_virtual_size d" "\<not> wp_fixed p"
    by (simp_all add: p_def compact_params_def)
  have "disk_block_size d \<noteq> 0" using assms(6) by (auto simp: params_ok_def pf)
  then have cnt: "disk_block_count d = Inr (lay_count p)"
    by (simp add: disk_block_count_def block_count_def lay_count_def pf disk_block_size_def disk_virtual_size_def)
  let ?ws = "compact_writes ?sp r ?n" and ?rs = "map (\<lambda>i. r (word_of_nat i)) [0..<?n]"
  have wd: "unat (word_of_nat i :: u64) = i" if "i < ?n" for i
    using that lay_count_ratio(1) [OF assms(6)] by (simp add: unat_of_nat_u64)
  have reads: "\<forall>i < length ?rs. read_block d f (0 + word_of_nat i) = Inr (?rs ! i)"
    using assms(9) wd by simp
  have "length (payload_of (unat (wp_block_size p)) (r b)) = unat (wp_block_size p)" if "unat b < ?n" for b
    using read_block_lengths [OF assms(9) [OF that]] by (cases "r b") (auto simp: payload_of_def pf)
  note W = compact_writes_ok [where r = r and sparse = ?sp, OF assms(6) this assms(8) [folded pf(1)]]
  obtain w w' g where run: "VhdxWriter_create E tmp capacity p = Inr w" "write_blocks w ?ws = Inr w'"
      "writer_finish w' = Inr (tmp, g)"
    and out: "\<forall>q ro. \<exists>d'. VhdxDisk_open E q (Some g) ro = Inr (d', g) \<and> vd_metadata d' = writer_metadata p \<and>
      data_write_guid (active_header d') = wp_data_write_guid p \<and> disk_block_count d' = Inr (lay_count p) \<and>
      (\<forall>b. unat b < ?n \<longrightarrow> read_block d' g b = Inr (expected_block p (last_sources ?ws (unat b))))"
    using session_ok [OF assms(2,6) pf(3) assms(7) W(1,2), of tmp] by blast
  obtain k z where loop: "compact_blocks ?sp d f 0 ?n (w, 0, 0) = Inr (w', 0 + k, 0 + z)" "k + z = word_of_nat ?n"
    using compact_blocks_session [OF reads, of w ?sp w' 0 0] run(2) by auto
  let ?out = "if co_in_place opts then in_path else compacted_path in_path"
  obtain fs' where fs': "fs_rename (fs_store fs1 tmp g) tmp ?out = Inr fs'"
    using rename_stored_ok by blast
  have "compact E tempfile_in g1 g2 capacity fs in_path opts = Inr (fs', \<lparr>cr_input = in_path, cr_output = ?out,
      cr_blocks_total = lay_count p, cr_blocks_written = k, cr_blocks_zero = z, cr_bytes_in = f_len f, cr_bytes_out = f_len g\<rparr>)"
    using assms(3,4,5,10) cnt run loop(1) fs' by (simp add: compact_def Let_def p_def)
  moreover have "\<forall>q ro. \<exists>d'. VhdxDisk_open E q (Some g) ro = Inr (d', g) \<and> vd_metadata d' = writer_metadata p \<and>
      (\<forall>b. unat b < ?n \<longrightarrow> read_block d' g b = Inr (Full (payload_of ?bs (r b))))"
    using out W(3) by (metis pf(1))
  ultimately show ?thesis
    using loop(2) rename_stored [OF fs'] by auto
qed

lemma sample_compact_params:
  assumes "vd_metadata d = small_metadata False"
  defines "p \<equiv> compact_params 1 2 d"
  shows "disk_block_size d = 1048576" and "\<not> disk_has_parent d" and "params_ok ref_externs p"
    and "lay_count p = 2" and "unat (lay_payload_start p) = 4194304"
proof -
  show bs: "disk_block_size d = 1048576" "\<not> disk_has_parent d"
    by (simp_all add: disk_block_size_def disk_has_parent_def block_size_def assms(1) small_metadata_def)
  have p: "p = small_params\<lparr>wp_virtual_disk_size := 2097152, wp_data_write_guid := 1,
      wp_file_write_guid := 2, wp_page_83_data := 77\<rparr>"
    by (simp add: p_def compact_params_def small_params_def bs disk_virtual_size_def)
       (simp add: assms(1) small_metadata_def)
  show "params_ok ref_externs p" unfolding p by (simp add: params_ok_def small_params_def)
  show "lay_count p = 2" "unat (lay_payload_start p) = 4194304"
    unfolding p by (simp_all add: lay_count_def lay_payload_start_def lay_bat_offset_def lay_metadata_offset_def
      lay_bat_length_def lay_total_def lay_ratio_def small_params_def div_ceil_def align_up_def offset_defs
      nat_payload_index_def push_bit_eq_mult Let_def max_def word_le_nat_alt)
qed

text \<open>
  C6 (compacting preserves the disk): compacting a disk without parent whose blocks can be
  read, with enough room and a temporary name, succeeds, in place or beside the original; the report counts every block once; the output opens as a disk with
  the same sizes whose every block reads as the payload of the input, zeros where it is
  absent; the temporary file is gone and no other file has changed.
\<close>

theorem compact_preserves_disk:
  fixes d :: vhdx_disk and opts :: compact_options and g1 g2 :: uuid
  defines "p \<equiv> compact_params g1 g2 d"
  assumes "uuid_laws E" and "repair_unless E (co_skip_fsck opts) fs in_path = Inr fs1"
    and "VhdxDisk_open E in_path (fs_open fs1 in_path) True = Inr (d, f)" and "\<not> disk_has_parent d"
    and "params_ok E p" and "capacity < 2 ^ 63"
    and "unat (lay_payload_start p) + unat (lay_count p) * unat (disk_block_size d) \<le> capacity"
    and "\<And>b. unat b < unat (lay_count p) \<Longrightarrow> read_block d f b = Inr (r b)"
    and "tempfile_in (case path_parent in_path of Some q \<Rightarrow> q | None \<Rightarrow> ''.'') = Inr tmp"
  shows "\<exists>fs' rep g. compact E tempfile_in g1 g2 capacity fs in_path opts = Inr (fs', rep) \<and>
    cr_output rep = (if co_in_place opts then in_path else compacted_path in_path) \<and>
    cr_blocks_total rep = lay_count p \<and> cr_blocks_written rep + cr_blocks_zero rep = lay_count p \<and>
    (\<forall>q. fs_open fs' q = (if fs_resolve fs1 q = fs_resolve fs1 (cr_output rep) then Some g
      else if fs_resolve fs1 q = fs_resolve fs1 tmp then None else fs_open fs1 q)) \<and>
    (\<forall>q ro. \<exists>d'. VhdxDisk_open E q (Some g) ro = Inr (d', g) \<and> vd_metadata d' = writer_metadata p \<and>
      (\<forall>b. unat b < unat (lay_count p) \<longrightarrow>
        read_block d' g b = Inr (Full (payload_of (unat (disk_block_size d)) (r b)))))"
  using assms(2-10) unfolding p_def by (rule compact_ok)

theorem compact_preserves_disk_witness:
  "\<exists>fs' rep g d. compact ref_externs (\<lambda>dir. Inr (path_join dir ''tmp.vhdx'')) 1 2 8388608
      \<lparr>fs_files = fmap_of_list [(''a.vhdx'', small_image 6 2 (replicate 1048576 7))], fs_resolve = id\<rparr>
      ''a.vhdx'' (CompactOptions_default\<lparr>co_skip_fsck := True\<rparr>) = Inr (fs', rep) \<and>
    cr_output rep = ''a.compacted.vhdx'' \<and> fs_open fs' ''a.compacted.vhdx'' = Some g \<and>
    fs_open fs' ''a.vhdx'' = Some (small_image 6 2 (replicate 1048576 7)) \<and> fs_open fs' ''tmp.vhdx'' = None \<and>
    VhdxDisk_open ref_externs ''a.compacted.vhdx'' (Some g) True = Inr (d, g) \<and>
    read_block d g 0 = Inr (Full (replicate 1048576 7)) \<and> read_block d g 1 = Inr (Full (replicate 1048576 0))"
proof -
  define f where "f = small_image 6 2 (replicate 1048576 7)"
  define fs where "fs = \<lparr>fs_files = fmap_of_list [(''a.vhdx'', f)], fs_resolve = id\<rparr>"
  define opts where "opts = CompactOptions_default\<lparr>co_skip_fsck := True\<rparr>"
  obtain d where o: "VhdxDisk_open ref_externs ''a.vhdx'' (Some f) True = Inr (d, f)"
      and md: "vd_metadata d = small_metadata False"
      and bat: "vd_bat d = \<lparr>bat_entries = [BatEntry_new 6 4194304, BatEntry_new 2 5242880], bat_chunk_ratio = 4096,
        bat_block_count = 2\<rparr>"
    using small_image_open(1) [of "replicate 1048576 7" "''a.vhdx''" 6 2 True] unfolding f_def by auto
  have pay: "read_exact_at f 4194304 1048576 = Inr (replicate 1048576 7)"
    using small_image_open(2) [of "replicate 1048576 7" 6 2] unfolding f_def by simp
  let ?p = "compact_params 1 2 d"
  note C = sample_compact_params [OF md]
  note bs = C(1) and np = C(2) and ok = C(3) and lay = C(4,5)
  define r where "r b = (if b = 0 then Full (replicate 1048576 7) else Full (replicate 1048576 0))" for b :: u64
  have reads: "read_block d f b = Inr (r b)" if "unat b < unat (lay_count ?p)" for b
  proof -
    have "b = 0 \<or> b = 1" using that lay(1) by (auto simp: word_unat_eq_iff)
    then show ?thesis
      using small_disk_read(3,4) [OF md bat] pay by (auto simp: r_def PayloadState_from_raw_def block_state_defs)
  qed
  have opn: "fs_open fs ''a.vhdx'' = Some f" by (simp add: fs_def fs_open_def)
  have prep: "repair_unless ref_externs (co_skip_fsck opts) fs ''a.vhdx'' = Inr fs"
    by (simp add: opts_def repair_unless_def)
  have dir: "(case path_parent ''a.vhdx'' of Some q \<Rightarrow> q | None \<Rightarrow> ''.'') = ''''" by code_simp
  have "compacted_path ''a.vhdx'' = ''a.compacted.vhdx''" by code_simp
  then have out: "(if co_in_place opts then ''a.vhdx'' else compacted_path ''a.vhdx'') = ''a.compacted.vhdx''"
    by (simp add: opts_def CompactOptions_default_def)
  obtain fs' rep g where run: "compact ref_externs (\<lambda>dir. Inr (path_join dir ''tmp.vhdx'')) 1 2 8388608 fs ''a.vhdx'' opts = Inr (fs', rep)"
      and rep: "cr_output rep = ''a.compacted.vhdx''"
      and fs': "\<forall>q. fs_open fs' q = (if fs_resolve fs q = fs_resolve fs (cr_output rep) then Some g
        else if fs_resolve fs q = fs_resolve fs ''tmp.vhdx'' then None else fs_open fs q)"
      and g: "\<forall>q ro. \<exists>d'. VhdxDisk_open ref_externs q (Some g) ro = Inr (d', g) \<and> vd_metadata d' = writer_metadata ?p \<and>
        (\<forall>b. unat b < unat (lay_count ?p) \<longrightarrow>
          read_block d' g b = Inr (Full (payload_of (unat (disk_block_size d)) (r b))))"
    using compact_preserves_disk [OF ref_uuid_laws prep _ np ok _ _ reads, of 8388608
        "\<lambda>dir. Inr (path_join dir ''tmp.vhdx'')" "''tmp.vhdx''"] o opn
    unfolding dir out by (auto simp: lay bs path_join_def is_absolute_def fs_def)
  obtain d' where d': "VhdxDisk_open ref_externs ''a.compacted.vhdx'' (Some g) True = Inr (d', g)"
      and blocks: "\<forall>b. unat b < unat (lay_count ?p) \<longrightarrow>
          read_block d' g b = Inr (Full (payload_of (unat (disk_block_size d)) (r b)))"
    using g by blast
  have "read_block d' g 0 = Inr (Full (replicate 1048576 7))" "read_block d' g 1 = Inr (Full (replicate 1048576 0))"
    using blocks [rule_format, of 0] blocks [rule_format, of 1] by (simp_all add: lay r_def payload_of_def)
  moreover have "fs_open fs' ''a.compacted.vhdx'' = Some g" "fs_open fs' ''a.vhdx'' = Some f" "fs_open fs' ''tmp.vhdx'' = None"
    using fs' rep opn by (simp_all add: fs_def)
  ultimately show ?thesis
    using run rep d' unfolding fs_def f_def opts_def by blast
qed

end
