(* ===== verification/Vhdx_Merge.thy ===== *)
theory Vhdx_Merge
  imports Vhdx_Contents Vhdx_Compact Vhdx_Flatten Vhdx_Events
begin

text \<open>
  \<open>merge.rs\<close>: copying a differencing disk into its parent, in place.  The operation works on
  the file system: the child is read through one handle and the parent written through
  another, and each access goes through the file system, so that the two see each other's
  writes should they be the same file.  The progress events are part of the result;
  \<open>sync_all\<close> and the page-cache hint are left out.
\<close>

section \<open>One block\<close>

record merge_options =
  mo_keep_child :: bool
  mo_skip_fsck :: bool

record merge_report =
  mr_child :: path
  mr_parent :: path
  mr_blocks_copied :: u64
  mr_partial_sectors_copied :: u64
  mr_deleted_child :: bool

text \<open>
  The local variables of the loop: the parent's table, the end of its payload, two counters;
  and the events sent so far.
\<close>

record merge_state =
  mg_bat :: bat
  mg_cursor :: u64
  mg_blocks :: u64
  mg_sectors :: u64
  mg_events :: "merge_event list"

text \<open>Where the block goes: where the parent has it, or at the end of the file.\<close>

definition merge_target :: "u64 \<Rightarrow> u64 \<Rightarrow> dfile \<Rightarrow> merge_state \<Rightarrow> (u64 \<times> dfile \<times> merge_state) res" where
  "merge_target bs blk f st =
    bindR (payload_entry (mg_bat st) blk) (\<lambda>o'.
    case o' of
      Some e \<Rightarrow>
        if PayloadState_from_raw (entry_state e) = FullyPresent \<and> entry_file_offset e \<noteq> 0
        then Inr (entry_file_offset e, f, st)
        else
          bindR (set_len f (mg_cursor st + bs)) (\<lambda>f.
          Inr (mg_cursor st, f, st\<lparr>mg_cursor := mg_cursor st + bs\<rparr>))
    | None \<Rightarrow>
        bindR (set_len f (mg_cursor st + bs)) (\<lambda>f.
        Inr (mg_cursor st, f, st\<lparr>mg_cursor := mg_cursor st + bs\<rparr>)))"

text \<open>What the parent has at the target: its data when the block was there already, zeros otherwise.\<close>

definition parent_data :: "u64 \<Rightarrow> u64 \<Rightarrow> u64 \<Rightarrow> dfile \<Rightarrow> bat \<Rightarrow> bytes res" where
  "parent_data bs blk off f b =
    bindR (payload_entry b blk) (\<lambda>o'.
    case o' of
      Some e \<Rightarrow>
        if PayloadState_from_raw (entry_state e) = FullyPresent \<and> entry_file_offset e = off
        then read_exact_at f off (unat bs)
        else Inr (replicate (unat bs) 0)
    | None \<Rightarrow> Inr (replicate (unat bs) 0))"

text \<open>The sector loop, for the sectors \<open>s\<close>, \<dots>, \<open>s + n - 1\<close>.\<close>

fun copy_present :: "bytes \<Rightarrow> bytes \<Rightarrow> nat \<Rightarrow> nat \<Rightarrow> nat \<Rightarrow> bytes \<times> u64 \<Rightarrow> bytes \<times> u64" where
  "copy_present payload bm lss s 0 st = st"
| "copy_present payload bm lss s (Suc n) (block, copied) =
    copy_present payload bm lss (Suc s) n
      (if bit_is_set bm s
       then (bput (s * lss) (bslice payload (s * lss) (s * lss + lss)) block, copied + 1)
       else (block, copied))"

definition store_present :: "u64 \<Rightarrow> u64 \<Rightarrow> bytes \<Rightarrow> dfile \<Rightarrow> merge_state \<Rightarrow> (dfile \<times> merge_state) res" where
  "store_present blk off data f st =
    bindR (write_all_at f off data) (\<lambda>f.
    bindR (set_payload_entry (mg_bat st) blk (BatEntry_new PAYLOAD_BLOCK_FULLY_PRESENT off)) (\<lambda>b.
    Inr (f, st\<lparr>mg_bat := b, mg_blocks := mg_blocks st + 1\<rparr>)))"

definition merge_step :: "u64 \<Rightarrow> nat \<Rightarrow> nat \<Rightarrow> u64 \<Rightarrow> block_read \<Rightarrow> dfile \<Rightarrow> merge_state \<Rightarrow> (dfile \<times> merge_state) res" where
  "merge_step bs lss spb blk read f st =
    (case read of
       Absent \<Rightarrow> Inr (f, st)
     | Full data \<Rightarrow>
         bindR (merge_target bs blk f st) (\<lambda>(off, f, st).
         store_present blk off data f st)
     | Partial payload bm \<Rightarrow>
         bindR (merge_target bs blk f st) (\<lambda>(off, f, st).
         bindR (parent_data bs blk off f (mg_bat st)) (\<lambda>block.
         let (block, copied) = copy_present payload bm lss 0 spb (block, mg_sectors st) in
         store_present blk off block f (st\<lparr>mg_sectors := copied\<rparr>))))"

section \<open>The operation\<close>

fun merge_loop :: "vhdx_disk \<Rightarrow> path \<Rightarrow> path \<Rightarrow> u64 \<Rightarrow> nat \<Rightarrow> nat \<Rightarrow> u64 \<Rightarrow> nat \<Rightarrow> fsys \<times> merge_state
    \<Rightarrow> (fsys \<times> merge_state) res" where
  "merge_loop child_disk child_path parent_path bs lss spb blk 0 st = Inr st"
| "merge_loop child_disk child_path parent_path bs lss spb blk (Suc n) (fs, st) =
    bindR (ok_or (fs_open fs child_path) (Io NotFound)) (\<lambda>child_file.
    bindR (read_block child_disk child_file blk) (\<lambda>read.
    bindR (ok_or (fs_open fs parent_path) (Io NotFound)) (\<lambda>parent_file.
    bindR (merge_step bs lss spb blk read parent_file st) (\<lambda>(parent_file, st).
    merge_loop child_disk child_path parent_path bs lss spb (blk + 1) n (fs_store fs parent_path parent_file,
      st\<lparr>mg_events := mg_events st @ [MergeBlockDone blk bs (read \<noteq> Absent)]\<rparr>)))))"

text \<open>The checks of child and parent, after the repairs; the result has the child's disk.\<close>

definition merge_checks :: "externs \<Rightarrow> fsys \<Rightarrow> path \<Rightarrow> vhdx_disk \<Rightarrow> path \<Rightarrow> parent_locator \<Rightarrow> unit res" where
  "merge_checks E fs child_path child_disk parent_path pl =
    bindR (VhdxDisk_open E parent_path (fs_open fs parent_path) True) (\<lambda>(parent_disk, _).
    let actual = data_write_guid (active_header parent_disk) in
    bindR (case parent_linkage E pl of
        Some expected \<Rightarrow>
          if actual \<noteq> expected then Inl (ParentGuidMismatch child_path expected actual) else Inr ()
      | None \<Rightarrow> Inr ()) (\<lambda>_.
    if disk_virtual_size parent_disk \<noteq> disk_virtual_size child_disk
    then Inl (InvalidStructure ''virtual disk size mismatch'')
    else if disk_block_size parent_disk \<noteq> disk_block_size child_disk
    then Inl (InvalidStructure ''block size mismatch'')
    else if logical_sector_size (vd_metadata parent_disk) \<noteq> logical_sector_size (vd_metadata child_disk)
    then Inl (InvalidStructure ''logical sector size mismatch'')
    else Inr ()))"

text \<open>What is read of the parent before the loop: its headers, the region of its table, the table.\<close>

definition read_parent :: "externs \<Rightarrow> dfile \<Rightarrow> (header_pair \<times> region_entry \<times> bat) res" where
  "read_parent E f =
    bindR (verify_file_type f) (\<lambda>_.
    bindR (HeaderPair_read E f) (\<lambda>pair.
    bindR (RegionTablePair_read E f) (\<lambda>rp.
    bindR (RegionTablePair_active rp) (\<lambda>region.
    bindR (ok_or (RegionTable_bat region) (MissingRegion ''BAT'')) (\<lambda>bat_region.
    bindR (ok_or (RegionTable_metadata region) (MissingRegion ''Metadata'')) (\<lambda>md_region.
    bindR (read_exact_at f (re_file_offset md_region) (unat (re_length md_region))) (\<lambda>md_buf.
    bindR (Metadata_parse E md_buf) (\<lambda>md.
    bindR (read_exact_at f (re_file_offset bat_region) (unat (re_length bat_region))) (\<lambda>bat_buf.
    bindR (block_count md) (\<lambda>bcount.
    bindR (chunk_ratio md) (\<lambda>ratio.
    bindR (Bat_parse bat_buf bcount ratio (fp_has_parent (file_parameters md))) (\<lambda>table.
    Inr (pair, bat_region, table)))))))))))))"

text \<open>After the loop: the table, and the headers with new identifiers.\<close>

definition write_parent ::
    "externs \<Rightarrow> uuid \<Rightarrow> uuid \<Rightarrow> header_pair \<Rightarrow> region_entry \<Rightarrow> bat \<Rightarrow> dfile \<Rightarrow> dfile res" where
  "write_parent E g1 g2 pair bat_region b f =
    (let renew = (\<lambda>h. h\<lparr>data_write_guid := g1, file_write_guid := g2, log_guid := nil_uuid\<rparr>) in
     bindR (bat_region_buf b (ucast (re_length bat_region))) (\<lambda>buf.
     bindR (write_all_at f (re_file_offset bat_region) buf) (\<lambda>f.
     bindR (HeaderPair_write_new E f (HeaderPair_active pair) renew) (\<lambda>(f, _).
     bindR (HeaderPair_write_new E f (HeaderPair_active pair) renew) (\<lambda>(f, _).
     Inr f)))))"

definition aligned_end :: "dfile \<Rightarrow> (dfile \<times> u64) res" where
  "aligned_end f =
    (let cursor = word_of_nat (f_len f); aligned = align_up cursor (1024 * 1024) in
     if aligned \<noteq> cursor then bindR (set_len f aligned) (\<lambda>f. Inr (f, aligned))
     else Inr (f, cursor))"

definition merge :: "externs \<Rightarrow> uuid \<Rightarrow> uuid \<Rightarrow> fsys \<Rightarrow> path \<Rightarrow> merge_options
    \<Rightarrow> (fsys \<times> merge_report \<times> merge_event list) res" where
  "merge E g1 g2 fs child_path opts =
    bindR (repair_unless E (mo_skip_fsck opts) fs child_path) (\<lambda>fs.
    bindR (VhdxDisk_open E child_path (fs_open fs child_path) True) (\<lambda>(child_disk, _).
    if \<not> disk_has_parent child_disk
    then Inl (InvalidStructure ''not a differencing disk; nothing to merge'')
    else
      bindR (ok_or (md_parent_locator (vd_metadata child_disk))
        (InvalidStructure ''HasParent set but no parent locator'')) (\<lambda>pl.
      bindR (ok_or (resolve_parent fs child_path pl)
        (ParentNotFound child_path ''parent locator did not resolve to an existing file'')) (\<lambda>parent_path.
      bindR (repair_unless E (mo_skip_fsck opts) fs parent_path) (\<lambda>fs.
      bindR (merge_checks E fs child_path child_disk parent_path pl) (\<lambda>_.
      bindR (ok_or (fs_open fs parent_path) (Io NotFound)) (\<lambda>parent_file.
      bindR (read_parent E parent_file) (\<lambda>(pair, bat_region, table).
      bindR (aligned_end parent_file) (\<lambda>(parent_file, cursor).
      bindR (disk_block_count child_disk) (\<lambda>bcount.
      let bs = ucast (disk_block_size child_disk) :: u64;
          lss = ucast (logical_sector_size (vd_metadata child_disk)) :: u64 in
      if lss = 0 then Inl (Panic ''attempt to divide by zero'')
      else
        bindR (merge_loop child_disk child_path parent_path bs (unat lss) (unat (bs div lss)) 0 (unat bcount)
          (fs_store fs parent_path parent_file,
           \<lparr>mg_bat = table, mg_cursor = cursor, mg_blocks = 0, mg_sectors = 0,
            mg_events = [MergeStarted bcount (ucast bs) (saturating_mul bcount bs)]\<rparr>)) (\<lambda>(fs, st).
        bindR (on_file fs parent_path (\<lambda>f.
          bindR (write_parent E g1 g2 pair bat_region (mg_bat st) f) (\<lambda>f. Inr (f, ())))) (\<lambda>(fs, _).
        bindR (if mo_keep_child opts then Inr fs else fs_remove_file fs child_path) (\<lambda>fs.
        bindR (Chain_discover E fs parent_path) (\<lambda>_.
        Inr (fs, \<lparr>mr_child = child_path, mr_parent = parent_path, mr_blocks_copied = mg_blocks st,
          mr_partial_sectors_copied = mg_sectors st, mr_deleted_child = (\<not> mo_keep_child opts)\<rparr>,
          mg_events st @ [MergeFinished])))))))))))))))"

section \<open>The state of the merge\<close>

definition apart :: "nat \<Rightarrow> nat \<Rightarrow> nat \<Rightarrow> nat \<Rightarrow> bool" where
  "apart o1 n1 o2 n2 \<longleftrightarrow> o1 + n1 \<le> o2 \<or> o2 + n2 \<le> o1"

text \<open>
  The payloads of the first \<open>n\<close> blocks, of partially present ones too, lie inside the file,
  apart from each other and from the reserved ranges.
\<close>

definition payload_ok :: "nat \<Rightarrow> nat \<Rightarrow> (nat \<times> nat) list \<Rightarrow> bat \<Rightarrow> nat \<Rightarrow> bool" where
  "payload_ok bs n reserved t len \<longleftrightarrow> (\<forall>k<n. holds_data (entry_of t k) \<longrightarrow>
     off_of (entry_of t k) + bs \<le> len \<and>
     (\<forall>(r, m)\<in>set reserved. apart (off_of (entry_of t k)) bs r m) \<and>
     (\<forall>j<n. j \<noteq> k \<longrightarrow> holds_data (entry_of t j) \<longrightarrow>
       apart (off_of (entry_of t k)) bs (off_of (entry_of t j)) bs))"

lemma payload_okD:
  assumes "payload_ok bs n reserved t len" and "k < n" and "holds_data (entry_of t k)"
  shows "off_of (entry_of t k) + bs \<le> len" and "(r, m) \<in> set reserved \<Longrightarrow> apart (off_of (entry_of t k)) bs r m"
    and "j < n \<Longrightarrow> j \<noteq> k \<Longrightarrow> holds_data (entry_of t j) \<Longrightarrow>
      apart (off_of (entry_of t k)) bs (off_of (entry_of t j)) bs"
  using assms unfolding payload_ok_def by blast+

text \<open>
  The invariant of the loop over the blocks: the table \<open>t\<close> is well formed, the file ends at
  the cursor, the payloads are apart, the reserved ranges hold what they held in \<open>f0\<close>, with
  those of the bitmaps (\<open>maps\<close>) among them, and block \<open>k\<close> has content \<open>c k\<close>.
\<close>

definition merge_inv :: "u64 \<Rightarrow> u64 \<Rightarrow> nat \<Rightarrow> nat \<Rightarrow> nat \<Rightarrow> (nat \<times> nat) list \<Rightarrow> (nat \<times> nat) list
    \<Rightarrow> dfile \<Rightarrow> (nat \<Rightarrow> block_read) \<Rightarrow> dfile \<Rightarrow> merge_state \<Rightarrow> bool" where
  "merge_inv cr n len bs spb reserved maps f0 c f st \<longleftrightarrow>
     table_ok cr n len (mg_bat st) \<and> f_len f = unat (mg_cursor st) \<and> unat (mg_cursor st) mod 1048576 = 0 \<and>
     0 < bs \<and> bs mod 1048576 = 0 \<and> f_len f \<le> f_max f \<and> f_max f < 2 ^ 63 \<and> f_max f = f_max f0 \<and>
     payload_ok bs (unat n) reserved (mg_bat st) (f_len f) \<and>
     (\<forall>(r, m)\<in>set reserved. r + m \<le> f_len f \<and> file_bytes f r m = file_bytes f0 r m) \<and>
     (\<forall>k<unat n. content_at bs spb f (mg_bat st) k = Some (c k)) \<and>
     (\<forall>k<unat n. is_partial (entry_of (mg_bat st) k) \<longrightarrow> bitmap_range (mg_bat st) spb k \<in> set maps) \<and>
     set maps \<subseteq> set reserved"

lemma merge_invD:
  assumes "merge_inv cr n len bs spb reserved maps f0 c f st"
  shows "table_ok cr n len (mg_bat st)" and "f_len f = unat (mg_cursor st)" and "unat (mg_cursor st) mod 1048576 = 0"
    and "0 < bs" and "bs mod 1048576 = 0" and "f_len f \<le> f_max f" and "f_max f < 2 ^ 63" and "f_max f = f_max f0"
    and "payload_ok bs (unat n) reserved (mg_bat st) (f_len f)"
    and "(r, m) \<in> set reserved \<Longrightarrow> r + m \<le> f_len f \<and> file_bytes f r m = file_bytes f0 r m"
    and "k < unat n \<Longrightarrow> content_at bs spb f (mg_bat st) k = Some (c k)"
    and "k < unat n \<Longrightarrow> is_partial (entry_of (mg_bat st) k) \<Longrightarrow> bitmap_range (mg_bat st) spb k \<in> set maps"
    and "set maps \<subseteq> set reserved"
  using assms by (auto simp: merge_inv_def)

text \<open>
  The contents survive in a file that keeps what the blocks hold and the reserved ranges.
\<close>

lemma merge_inv_content:
  assumes inv: "merge_inv cr n len bs spb reserved maps f0 c f st" and k: "k < unat n"
    and "holds_data (entry_of (mg_bat st) k) \<Longrightarrow> file_bytes g (off_of (entry_of (mg_bat st) k)) bs =
      file_bytes f (off_of (entry_of (mg_bat st) k)) bs"
    and "\<And>r m. (r, m) \<in> set reserved \<Longrightarrow> file_bytes g r m = file_bytes f r m"
  shows "content_at bs spb g (mg_bat st) k = Some (c k)"
  by (rule content_at_frame [OF merge_invD(11) [OF inv k] assms(3)])
    (use assms(4) merge_invD(12) [OF inv k] merge_invD(13) [OF inv] in \<open>auto simp: prod_eq_iff\<close>)

lemma merge_inv_sectors [simp]:
  "merge_inv cr n len bs spb reserved maps f0 c f (st\<lparr>mg_sectors := x\<rparr>) = merge_inv cr n len bs spb reserved maps f0 c f st"
  by (simp add: merge_inv_def)

text \<open>What the merge takes of the parent's block for the sectors that a partial block of the child lacks.\<close>

definition base_of :: "nat \<Rightarrow> block_read \<Rightarrow> bytes" where
  "base_of bs r = (case r of Full data \<Rightarrow> data | _ \<Rightarrow> replicate bs 0)"

text \<open>A place for block \<open>b\<close>: inside the file, apart from everything else.\<close>

definition place_ok :: "nat \<Rightarrow> nat \<Rightarrow> (nat \<times> nat) list \<Rightarrow> bat \<Rightarrow> nat \<Rightarrow> nat \<Rightarrow> nat \<Rightarrow> bool" where
  "place_ok bs n reserved t len b off \<longleftrightarrow> off + bs \<le> len \<and> off mod 1048576 = 0 \<and>
     (\<forall>(r, m)\<in>set reserved. apart off bs r m) \<and>
     (\<forall>j<n. j \<noteq> b \<longrightarrow> holds_data (entry_of t j) \<longrightarrow> apart off bs (off_of (entry_of t j)) bs)"

lemma store_present_ok:
  assumes inv: "merge_inv cr n len bs spb reserved maps f0 c f st" and b: "unat b < unat n"
    and place: "place_ok bs (unat n) reserved (mg_bat st) (f_len f) (unat b) (unat off)" and data: "length data = bs"
  shows "\<exists>f' st'. store_present b off data f st = Inr (f', st') \<and>
    merge_inv cr n len bs spb reserved maps f0 (c(unat b := Full data)) f' st' \<and> mg_cursor st' = mg_cursor st \<and>
    mg_blocks st' = mg_blocks st + 1 \<and> mg_sectors st' = mg_sectors st"
proof -
  let ?f = "patch f (unat off) data" and ?e = "BatEntry_new PAYLOAD_BLOCK_FULLY_PRESENT off"
  note I = inv [unfolded merge_inv_def]
  have lt: "unat off < 2 ^ 63" "unat off + bs \<le> f_len f" "unat off mod 1048576 = 0"
    using place I by (auto simp: place_ok_def)
  have wr: "write_all_at f off data = Inr ?f"
    using lt data by (auto simp: write_all_at_ok)
  have len: "f_len ?f = f_len f" using lt(2) data I by auto
  obtain t where t: "set_payload_entry (mg_bat st) b ?e = Inr t" "table_ok cr n len t"
      "\<And>k. entry_of t k = (if k = unat b then ?e else entry_of (mg_bat st) k)"
      "\<And>k. k < unat n \<Longrightarrow> bitmap_range t spb k = bitmap_range (mg_bat st) spb k"
      "\<And>k f. k < unat n \<Longrightarrow> k \<noteq> unat b \<Longrightarrow> content_at bs spb f t k = content_at bs spb f (mg_bat st) k"
    by (rule table_update [OF merge_invD(1) [OF inv] b]) (rule that)
  note new = new_present [OF lt(3)]
  have pay: "payload_ok bs (unat n) reserved t (f_len f)"
    using I place new unfolding payload_ok_def place_ok_def t(3) by (auto simp: apart_def)
  have frame: "file_bytes ?f o2 m = file_bytes f o2 m" if "apart (unat off) bs o2 m" "o2 + m \<le> f_len f" for o2 m
    using that data by (intro file_bytes_patch_other) (auto simp: apart_def)
  have res: "\<forall>(r, m)\<in>set reserved. r + m \<le> f_len ?f \<and> file_bytes ?f r m = file_bytes f0 r m"
    using I place frame unfolding len place_ok_def by fastforce
  have cont: "content_at bs spb ?f t k = Some ((c(unat b := Full data)) k)" if k: "k < unat n" for k
  proof (cases "k = unat b")
    case True
    then show ?thesis
      using new data by (simp add: t(3) content_at_def block_content_def file_bytes_patch_same)
  next
    case False
    have "content_at bs spb ?f (mg_bat st) k = Some (c k)"
    proof (rule merge_inv_content [OF inv k])
      show "file_bytes ?f (off_of (entry_of (mg_bat st) k)) bs = file_bytes f (off_of (entry_of (mg_bat st) k)) bs"
        if "holds_data (entry_of (mg_bat st) k)"
        using that place False k I by (intro frame) (auto simp: place_ok_def payload_ok_def)
      show "file_bytes ?f r m = file_bytes f r m" if "(r, m) \<in> set reserved" for r m
        using that place merge_invD(10) [OF inv that] by (intro frame) (auto simp: place_ok_def)
    qed
    with False k show ?thesis by (simp add: t(5))
  qed
  have "bitmap_range t spb k \<in> set maps" if "k < unat n" "is_partial (entry_of t k)" for k
    using that new(1) merge_invD(12) [OF inv] by (auto simp: t(3,4) split: if_splits)
  then have "merge_inv cr n len bs spb reserved maps f0 (c(unat b := Full data)) ?f (st\<lparr>mg_bat := t, mg_blocks := mg_blocks st + 1\<rparr>)"
    unfolding merge_inv_def using I t(2) pay res cont len by (simp del: f_len_patch)
  then show ?thesis by (simp add: store_present_def wr t(1))
qed

lemma grow_file:
  assumes "f_len f \<le> unat n" and "unat n \<le> f_max f" and "unat n < 2 ^ 63"
  obtains g where "set_len f n = Inr g" and "f_len g = unat n" and "f_max g = f_max f"
    and "\<And>o' m. o' + m \<le> f_len f \<Longrightarrow> file_bytes g o' m = file_bytes f o' m"
proof -
  define g where "g = f\<lparr>f_data := (\<lambda>i. if i < min (unat n) (f_len f) then f_data f i else 0), f_len := unat n\<rparr>"
  have "set_len f n = Inr g" using assms by (simp add: set_len_def seek_def g_def)
  moreover have "file_bytes g o' m = file_bytes f o' m" if "o' + m \<le> f_len f" for o' m
    using that assms(1) by (intro file_bytes_eqI) (simp add: g_def)
  ultimately show ?thesis using that [of g] by (simp add: g_def)
qed

lemma merge_inv_grow:
  assumes inv: "merge_inv cr n len bs spb reserved maps f0 c f st" and b: "unat b < unat n" and bs: "unat bsw = bs"
    and room: "unat (mg_cursor st) + bs \<le> f_max f" and np: "\<not> is_present (entry_of (mg_bat st) (unat b))"
  shows "\<exists>g. set_len f (mg_cursor st + bsw) = Inr g \<and> unat (mg_cursor st + bsw) = unat (mg_cursor st) + bs \<and>
    merge_inv cr n len bs spb reserved maps f0 c g (st\<lparr>mg_cursor := mg_cursor st + bsw\<rparr>) \<and>
    place_ok bs (unat n) reserved (mg_bat st) (f_len g) (unat b) (unat (mg_cursor st))"
proof -
  note I = merge_invD [OF inv]
  have cur: "unat (mg_cursor st + bsw) = unat (mg_cursor st) + bs"
    using room I(7) bs by (subst unat_add_u64) simp_all
  obtain g where g: "set_len f (mg_cursor st + bsw) = Inr g" "f_len g = unat (mg_cursor st) + bs" "f_max g = f_max f"
      "\<And>o' m. o' + m \<le> f_len f \<Longrightarrow> file_bytes g o' m = file_bytes f o' m"
    using grow_file [of f "mg_cursor st + bsw"] cur room I(2,7) by auto
  have "payload_ok bs (unat n) reserved (mg_bat st) (f_len g)"
    using I(9) unfolding payload_ok_def g(2) I(2) by (metis add.commute trans_le_add2)
  moreover have "content_at bs spb g (mg_bat st) k = Some (c k)" if k: "k < unat n" for k
    using payload_okD(1) [OF I(9) k] I(10) by (intro merge_inv_content [OF inv k] g(4)) auto
  moreover have "r + m \<le> f_len g \<and> file_bytes g r m = file_bytes f0 r m" if "(r, m) \<in> set reserved" for r m
    using I(10) [OF that] g(2,4) I(2) by simp
  moreover have "(unat (mg_cursor st) + bs) mod 1048576 = 0"
    using I(3,5) by (simp add: mod_add_eq [symmetric])
  ultimately have "merge_inv cr n len bs spb reserved maps f0 c g (st\<lparr>mg_cursor := mg_cursor st + bsw\<rparr>)"
    unfolding merge_inv_def using I(1,4-8,12,13) g(2,3) cur room by auto
  moreover have "apart (unat (mg_cursor st)) bs r m" if "r + m \<le> f_len f" for r m
    using that I(2) by (simp add: apart_def)
  then have "place_ok bs (unat n) reserved (mg_bat st) (f_len g) (unat b) (unat (mg_cursor st))"
    unfolding place_ok_def using I(3,9,10) g(2) by (auto simp: payload_ok_def)
  ultimately show ?thesis using g(1) cur by blast
qed

lemma merge_target_ok:
  assumes inv: "merge_inv cr n len bs spb reserved maps f0 c f st" and b: "unat b < unat n" and bs: "unat bsw = bs"
    and room: "unat (mg_cursor st) + bs \<le> f_max f" and zero: "(0, m) \<in> set reserved" "0 < m"
  shows "\<exists>off g st'. merge_target bsw b f st = Inr (off, g, st') \<and> merge_inv cr n len bs spb reserved maps f0 c g st' \<and>
    place_ok bs (unat n) reserved (mg_bat st') (f_len g) (unat b) (unat off) \<and>
    parent_data bsw b off g (mg_bat st') = Inr (base_of bs (c (unat b))) \<and>
    mg_blocks st' = mg_blocks st \<and> mg_sectors st' = mg_sectors st \<and>
    unat (mg_cursor st') \<le> unat (mg_cursor st) + bs"
proof -
  note I = merge_invD [OF inv]
  let ?e = "entry_of (mg_bat st) (unat b)"
  have e: "payload_entry (mg_bat st) b = Inr (Some ?e)" using entry_of_payload(1) [OF I(1) b] .
  note content = I(11) [OF b]
  show ?thesis
  proof (cases "is_present ?e")
    case True
    have P: "off_of ?e + bs \<le> f_len f" "\<forall>(r, m)\<in>set reserved. apart (off_of ?e) bs r m"
        "\<forall>j<unat n. j \<noteq> unat b \<longrightarrow> holds_data (entry_of (mg_bat st) j) \<longrightarrow>
          apart (off_of ?e) bs (off_of (entry_of (mg_bat st) j)) bs"
      using I(9) b True by (auto simp: payload_ok_def)
    have "off_of ?e \<noteq> 0" using P(2) zero I(4) by (auto simp: apart_def)
    then have nz: "entry_file_offset ?e \<noteq> 0" by auto
    have "merge_target bsw b f st = Inr (entry_file_offset ?e, f, st)"
      using True nz by (simp add: merge_target_def e)
    moreover have "place_ok bs (unat n) reserved (mg_bat st) (f_len f) (unat b) (off_of ?e)"
      using P offset_aligned by (simp add: place_ok_def)
    moreover have "parent_data bsw b (entry_file_offset ?e) f (mg_bat st) = Inr (base_of bs (c (unat b)))"
    proof -
      have "c (unat b) = Full (file_bytes f (off_of ?e) bs)"
        using content True by (simp add: content_at_def block_content_def)
      moreover have "read_exact_at f (entry_file_offset ?e) bs = Inr (file_bytes f (off_of ?e) bs)"
        using P(1) I(6,7) by (simp add: read_exact_at_ok)
      ultimately show ?thesis using True bs by (simp add: parent_data_def e base_of_def)
    qed
    ultimately show ?thesis using inv by (intro exI [of _ "entry_file_offset ?e"] exI [of _ f] exI [of _ st]) simp
  next
    case False
    obtain g where g: "set_len f (mg_cursor st + bsw) = Inr g" "unat (mg_cursor st + bsw) = unat (mg_cursor st) + bs"
        "merge_inv cr n len bs spb reserved maps f0 c g (st\<lparr>mg_cursor := mg_cursor st + bsw\<rparr>)"
        "place_ok bs (unat n) reserved (mg_bat st) (f_len g) (unat b) (unat (mg_cursor st))"
      using merge_inv_grow [OF inv b bs room False] by blast
    have "merge_target bsw b f st = Inr (mg_cursor st, g, st\<lparr>mg_cursor := mg_cursor st + bsw\<rparr>)"
      using False by (simp add: merge_target_def e g(1))
    moreover have "base_of bs (c (unat b)) = replicate bs 0"
      using False content
      by (cases "c (unat b)") (auto simp: content_at_def block_content_def base_of_def split: payload_state.splits if_splits)
    then have "parent_data bsw b (mg_cursor st) g (mg_bat st) = Inr (base_of bs (c (unat b)))"
      using False bs by (simp add: parent_data_def e)
    ultimately show ?thesis using g(2-4)
      by (intro exI [of _ "mg_cursor st"] exI [of _ g] exI [of _ "st\<lparr>mg_cursor := mg_cursor st + bsw\<rparr>"]) simp
  qed
qed

section \<open>The merged block\<close>

definition merged :: "nat \<Rightarrow> nat \<Rightarrow> nat \<Rightarrow> block_read \<Rightarrow> block_read \<Rightarrow> block_read" where
  "merged bs lss spb child parent = (case child of
     Absent \<Rightarrow> parent
   | Full data \<Rightarrow> Full data
   | Partial payload bm \<Rightarrow> Full (fst (copy_present payload bm lss 0 spb (base_of bs parent, 0))))"

lemma copy_present_fst: "fst (copy_present payload bm lss s n (block, k)) = fst (copy_present payload bm lss s n (block, 0))"
proof (induction n arbitrary: s block k)
  case (Suc n)
  then show ?case
    using Suc [of "Suc s" "bput (s * lss) (bslice payload (s * lss) (s * lss + lss)) block" "k + 1"]
      Suc [of "Suc s" "bput (s * lss) (bslice payload (s * lss) (s * lss + lss)) block" "1"]
    by (auto simp del: fst_conv) (metis Suc)
qed simp

lemma copy_present_sectors:
  assumes "length block = bs" and "length payload = bs" and "(s + n) * lss \<le> bs"
  shows "length (fst (copy_present payload bm lss s n (block, k))) = bs \<and>
    (\<forall>j. j * lss + lss \<le> bs \<longrightarrow> bslice (fst (copy_present payload bm lss s n (block, k))) (j * lss) (j * lss + lss) =
      (if s \<le> j \<and> j < s + n \<and> bit_is_set bm j then bslice payload (j * lss) (j * lss + lss)
       else bslice block (j * lss) (j * lss + lss)))"
  using assms
proof (induction n arbitrary: s block k)
  case 0
  then show ?case by auto
next
  case (Suc n)
  let ?x = "bslice payload (s * lss) (s * lss + lss)"
  let ?block = "if bit_is_set bm s then bput (s * lss) ?x block else block"
  have fit: "s * lss + lss \<le> bs" using Suc.prems(3) by (simp add: add_mult_distrib)
  have x: "length ?x = lss" using Suc.prems(2) fit by (simp add: length_slice)
  have len: "length ?block = bs" using Suc.prems(1) fit x by (simp add: length_put)
  have step: "copy_present payload bm lss s (Suc n) (block, k) =
      copy_present payload bm lss (Suc s) n (?block, if bit_is_set bm s then k + 1 else k)"
    by simp
  have sector: "bslice ?block (j * lss) (j * lss + lss) =
      (if j = s \<and> bit_is_set bm s then bslice payload (j * lss) (j * lss + lss) else bslice block (j * lss) (j * lss + lss))"
    if j: "j * lss + lss \<le> bs" for j
  proof -
    consider "j < s" | "j = s" | "s < j" by linarith
    then show ?thesis
    proof cases
      case 1
      then have "j * lss + lss \<le> s * lss" using mult_le_mono1 [of "Suc j" s lss] by simp
      then show ?thesis using 1 Suc.prems(1) fit x by (simp add: slice_put_before)
    next
      case 2
      then show ?thesis using Suc.prems(1) fit x by (simp add: slice_put_same)
    next
      case 3
      then have "s * lss + lss \<le> j * lss" using mult_le_mono1 [of "Suc s" j lss] by simp
      then show ?thesis using 3 Suc.prems(1) fit x j by (simp add: slice_put_after)
    qed
  qed
  have "(Suc s + n) * lss \<le> bs" using Suc.prems(3) by simp
  note IH = Suc.IH [OF len Suc.prems(2) this, of "if bit_is_set bm s then k + 1 else k", folded step]
  show ?case
  proof (intro conjI allI impI)
    show "length (fst (copy_present payload bm lss s (Suc n) (block, k))) = bs" using IH by blast
    fix j assume j: "j * lss + lss \<le> bs"
    have "Suc s \<le> j \<and> j < Suc s + n \<or> j = s \<longleftrightarrow> s \<le> j \<and> j < s + Suc n" by auto
    then show "bslice (fst (copy_present payload bm lss s (Suc n) (block, k))) (j * lss) (j * lss + lss) =
      (if s \<le> j \<and> j < s + Suc n \<and> bit_is_set bm j then bslice payload (j * lss) (j * lss + lss)
       else bslice block (j * lss) (j * lss + lss))"
      unfolding conjunct2 [OF IH, rule_format, OF j] sector [OF j] by (cases "j = s") auto
  qed
qed

text \<open>
  A partial block of the child over a block that the parent does not have in full hides what
  the parent, or its parent, has.
\<close>

definition hides :: "block_read \<Rightarrow> block_read \<Rightarrow> bool" where
  "hides child parent \<longleftrightarrow> (\<exists>payload bm. child = Partial payload bm) \<and> (\<forall>data. parent \<noteq> Full data)"

lemma merged_sectors:
  assumes "0 < lss" and "spb * lss \<le> bs" and "s < spb"
    and "length (payload_of bs child) = bs" and "length (base_of bs parent) = bs"
  shows "sector_in lss (merged bs lss spb child parent) (s * lss) =
    (case sector_in lss child (s * lss) of
       Some x \<Rightarrow> Some x
     | None \<Rightarrow> if hides child parent then Some (replicate lss 0) else sector_in lss parent (s * lss))"
proof (cases child)
  case (Partial payload bm)
  have fit: "s * lss + lss \<le> bs" using assms(2,3) mult_le_mono1 [of "Suc s" spb lss] by simp
  have "bslice (base_of bs parent) (s * lss) (s * lss + lss) =
      (if hides child parent then replicate lss 0 else the (sector_in lss parent (s * lss)))"
    "\<not> hides child parent \<Longrightarrow> sector_in lss parent (s * lss) \<noteq> None"
    using fit Partial by (auto simp: base_of_def hides_def bslice_replicate split: block_read.splits)
  then show ?thesis
    using copy_present_sectors [of "base_of bs parent" bs payload 0 spb lss bm 0] assms fit
    by (auto simp: merged_def Partial payload_of_def)
qed (simp_all add: merged_def hides_def)

section \<open>The loop\<close>

lemma merge_step_ok:
  assumes inv: "merge_inv cr n len bs spb reserved maps f0 c f st" and b: "unat b < unat n" and bs: "unat bsw = bs"
    and room: "unat (mg_cursor st) + bs \<le> f_max f" and zero: "(0, m) \<in> set reserved" "0 < m"
    and child: "length (payload_of bs r) = bs" and lss: "spb * lss \<le> bs"
  shows "\<exists>g st'. merge_step bsw lss spb b r f st = Inr (g, st') \<and>
    merge_inv cr n len bs spb reserved maps f0 (c(unat b := merged bs lss spb r (c (unat b)))) g st' \<and>
    unat (mg_cursor st') \<le> unat (mg_cursor st) + bs"
proof -
  have base: "length (base_of bs (c (unat b))) = bs"
    using content_at_length [OF merge_invD(11) [OF inv b]] by (auto simp: base_of_def split: block_read.split)
  obtain off g st1 where t: "merge_target bsw b f st = Inr (off, g, st1)" "merge_inv cr n len bs spb reserved maps f0 c g st1"
      "place_ok bs (unat n) reserved (mg_bat st1) (f_len g) (unat b) (unat off)"
      "parent_data bsw b off g (mg_bat st1) = Inr (base_of bs (c (unat b)))"
      "unat (mg_cursor st1) \<le> unat (mg_cursor st) + bs"
    using merge_target_ok [OF inv b bs room zero] by blast
  show ?thesis
  proof (cases r)
    case (Full data)
    then show ?thesis
      using store_present_ok [OF t(2) b t(3), of data] t(1,5) child
      by (auto simp: merge_step_def merged_def payload_of_def)
  next
    case (Partial payload bm)
    let ?cp = "copy_present payload bm lss 0 spb (base_of bs (c (unat b)), mg_sectors st1)"
    have data: "length (fst ?cp) = bs"
      using copy_present_sectors [OF base, of payload 0 spb lss bm] child lss by (simp add: Partial payload_of_def)
    have "merge_inv cr n len bs spb reserved maps f0 c g (st1\<lparr>mg_sectors := snd ?cp\<rparr>)"
      using t(2) by simp
    from store_present_ok [OF this b _ data, of off] t(3) obtain g' st' where
        "store_present b off (fst ?cp) g (st1\<lparr>mg_sectors := snd ?cp\<rparr>) = Inr (g', st')"
        "merge_inv cr n len bs spb reserved maps f0 (c(unat b := Full (fst ?cp))) g' st'" "mg_cursor st' = mg_cursor st1"
      by auto
    moreover have "fst ?cp = fst (copy_present payload bm lss 0 spb (base_of bs (c (unat b)), 0))"
      by (rule copy_present_fst)
    ultimately show ?thesis
      using t(1,4,5) by (simp add: merge_step_def merged_def Partial case_prod_unfold Let_def)
  next
    case Absent
    then show ?thesis using inv by (simp add: merge_step_def merged_def)
  qed
qed

lemma merge_inv_events: "merge_inv cr n len bs spb reserved maps f0 c f (st\<lparr>mg_events := es\<rparr>) = merge_inv cr n len bs spb reserved maps f0 c f st"
  by (simp add: merge_inv_def)

lemma merge_step_events: "merge_step bs lss spb blk read f st = Inr (f', st') \<Longrightarrow> mg_events st' = mg_events st"
  by (auto simp: merge_step_def merge_target_def store_present_def res_simps split: block_read.splits option.splits
      if_splits prod.splits)

lemma merge_loop_ok:
  assumes "merge_inv cr n len bs spb reserved maps f0 c f st" and "fs_open fs parent = Some f"
    and "fs_open fs child = Some cf" and "fs_resolve fs child \<noteq> fs_resolve fs parent"
    and "unat b + k = unat n" and bs: "unat bsw = bs" and "unat (mg_cursor st) + k * bs \<le> f_max f"
    and zero: "(0, m) \<in> set reserved" "0 < m" and lss: "spb * lss \<le> bs"
    and reads: "\<And>b. unat b < unat n \<Longrightarrow> read_block cd cf b = Inr (r (unat b)) \<and> length (payload_of bs (r (unat b))) = bs"
  shows "\<exists>fs' st' g. merge_loop cd child parent bsw lss spb b k (fs, st) = Inr (fs', st') \<and>
    merge_inv cr n len bs spb reserved maps f0
      (\<lambda>j. if unat b \<le> j \<and> j < unat n then merged bs lss spb (r j) (c j) else c j) g st' \<and>
    fs_resolve fs' = fs_resolve fs \<and>
    (\<forall>q. fs_open fs' q = (if fs_resolve fs q = fs_resolve fs parent then Some g else fs_open fs q)) \<and>
    mg_events st' = mg_events st @ block_events MergeBlockDone bsw b (map (\<lambda>j. r j \<noteq> Absent) [unat b..<unat n])"
  using assms(1-5,7)
proof (induction k arbitrary: b fs st c f)
  case 0
  then have "(\<lambda>j. if unat b \<le> j \<and> j < unat n then merged bs lss spb (r j) (c j) else c j) = c"
    by (auto simp: fun_eq_iff)
  with 0 show ?case by (auto simp: fs_open_def)
next
  case (Suc k)
  have b: "unat b < unat n" using Suc.prems(5) by simp
  have "unat b + 1 < 18446744073709551616" using b unat_u64_lt [of n] by linarith
  then have b1: "unat (b + 1) = unat b + 1" by (simp add: unat_add_u64)
  have room: "unat (mg_cursor st) + bs \<le> f_max f" using Suc.prems(6) by simp
  let ?done = "\<lambda>st. st\<lparr>mg_events := mg_events st @ [MergeBlockDone b bsw (r (unat b) \<noteq> Absent)]\<rparr>"
  obtain g st0 where g0: "merge_step bsw lss spb b (r (unat b)) f st = Inr (g, st0)"
      "merge_inv cr n len bs spb reserved maps f0 (c(unat b := merged bs lss spb (r (unat b)) (c (unat b)))) g st0"
      "unat (mg_cursor st0) \<le> unat (mg_cursor st) + bs" "mg_events st0 = mg_events st"
    using merge_step_ok [OF Suc.prems(1) b bs room zero _ lss, of "r (unat b)"] reads [OF b] merge_step_events by auto
  define st1 where "st1 = ?done st0"
  have g: "merge_inv cr n len bs spb reserved maps f0 (c(unat b := merged bs lss spb (r (unat b)) (c (unat b)))) g st1"
      "unat (mg_cursor st1) \<le> unat (mg_cursor st) + bs"
      "mg_events st1 = mg_events st @ [MergeBlockDone b bsw (r (unat b) \<noteq> Absent)]"
    using g0(2-4) by (simp_all add: st1_def merge_inv_events)
  let ?fs = "fs_store fs parent g" and ?c = "c(unat b := merged bs lss spb (r (unat b)) (c (unat b)))"
  have "f_max g = f_max f" using merge_invD(8) [OF g(1)] merge_invD(8) [OF Suc.prems(1)] by simp
  then have room': "unat (mg_cursor st1) + k * bs \<le> f_max g" using g(2) Suc.prems(6) by simp
  have step: "merge_loop cd child parent bsw lss spb b (Suc k) (fs, st) =
      merge_loop cd child parent bsw lss spb (b + 1) k (?fs, st1)"
    using Suc.prems(2,3) reads [OF b] g0(1) by (simp add: st1_def)
  have "\<exists>fs' st' h. merge_loop cd child parent bsw lss spb (b + 1) k (?fs, st1) = Inr (fs', st') \<and>
    merge_inv cr n len bs spb reserved maps f0
      (\<lambda>j. if unat (b + 1) \<le> j \<and> j < unat n then merged bs lss spb (r j) (?c j) else ?c j) h st' \<and>
    fs_resolve fs' = fs_resolve ?fs \<and>
    (\<forall>q. fs_open fs' q = (if fs_resolve ?fs q = fs_resolve ?fs parent then Some h else fs_open ?fs q)) \<and>
    mg_events st' = mg_events st1 @ block_events MergeBlockDone bsw (b + 1) (map (\<lambda>j. r j \<noteq> Absent) [unat (b + 1)..<unat n])"
    using Suc.prems(3-5) b1 by (intro Suc.IH [OF g(1) _ _ _ _ room']) (simp_all add: fs_open_store)
  then obtain fs' st' h where h: "merge_loop cd child parent bsw lss spb (b + 1) k (?fs, st1) = Inr (fs', st')"
      "merge_inv cr n len bs spb reserved maps f0
        (\<lambda>j. if unat (b + 1) \<le> j \<and> j < unat n then merged bs lss spb (r j) (?c j) else ?c j) h st'"
      "fs_resolve fs' = fs_resolve fs"
      "\<forall>q. fs_open fs' q = (if fs_resolve fs q = fs_resolve fs parent then Some h else fs_open fs q)"
      "mg_events st' = mg_events st1 @ block_events MergeBlockDone bsw (b + 1) (map (\<lambda>j. r j \<noteq> Absent) [unat (b + 1)..<unat n])"
    by (auto simp: fs_open_store)
  have "(\<lambda>j. if unat (b + 1) \<le> j \<and> j < unat n then merged bs lss spb (r j) (?c j) else ?c j) =
      (\<lambda>j. if unat b \<le> j \<and> j < unat n then merged bs lss spb (r j) (c j) else c j)"
    using b by (auto simp: b1 fun_eq_iff)
  moreover have "[unat b..<unat n] = unat b # [unat (b + 1)..<unat n]"
    using b by (subst upt_rec) (simp add: b1)
  ultimately show ?case
    unfolding step using h g(3) by (intro exI [of _ fs'] exI [of _ st'] exI [of _ h]) simp
qed

section \<open>Sectors that neither file has\<close>

text \<open>
  Sectors that neither file has: where the child has some sectors of a block and the
  parent's entry is in any other state than fully present, the block is put at the end of the
  parent with the child's sectors and zeros in all others, and marked fully present.  For a
  parent that is a differencing disk itself, whose absent or partial block shows data of its
  own or of its parent, the zeros hide these data.
\<close>

lemma merge_zero_fills_missing:
  assumes "payload_entry (mg_bat st) blk = Inr (Some e)" and "\<not> is_present e"
    and "set_len f (mg_cursor st + bs) = Inr g" and "length payload = unat bs" and "spb * lss \<le> unat bs"
  shows "\<exists>data copied. merge_step bs lss spb blk (Partial payload bm) f st =
      store_present blk (mg_cursor st) data g (st\<lparr>mg_cursor := mg_cursor st + bs, mg_sectors := copied\<rparr>) \<and>
    length data = unat bs \<and>
    (\<forall>j. j * lss + lss \<le> unat bs \<longrightarrow> bslice data (j * lss) (j * lss + lss) =
      (if j < spb \<and> bit_is_set bm j then bslice payload (j * lss) (j * lss + lss) else replicate lss 0))"
proof -
  let ?cp = "copy_present payload bm lss 0 spb (replicate (unat bs) 0, mg_sectors st)"
  have "merge_target bs blk f st = Inr (mg_cursor st, g, st\<lparr>mg_cursor := mg_cursor st + bs\<rparr>)"
    using assms(1-3) by (simp add: merge_target_def)
  moreover have "parent_data bs blk (mg_cursor st) g (mg_bat st) = Inr (replicate (unat bs) 0)"
    using assms(1,2) by (simp add: parent_data_def)
  ultimately have "merge_step bs lss spb blk (Partial payload bm) f st =
      store_present blk (mg_cursor st) (fst ?cp) g (st\<lparr>mg_cursor := mg_cursor st + bs, mg_sectors := snd ?cp\<rparr>)"
    by (simp add: merge_step_def case_prod_unfold Let_def)
  then show ?thesis
    using copy_present_sectors [of "replicate (unat bs) 0" "unat bs" payload 0 spb lss bm "mg_sectors st"] assms(4,5)
    by (intro exI [of _ "fst ?cp"] exI [of _ "snd ?cp"]) (auto simp: bslice_replicate)
qed

theorem merge_zero_fills_missing_witness:
  "\<exists>data copied g. merge_step 1024 512 2 0 (Partial (replicate 1024 9) [1]) ((blank_file 0)\<lparr>f_max := 4096\<rparr>)
      \<lparr>mg_bat = sample_bat, mg_cursor = 0, mg_blocks = 0, mg_sectors = 0, mg_events = []\<rparr> =
      store_present 0 0 data g \<lparr>mg_bat = sample_bat, mg_cursor = 1024, mg_blocks = 0, mg_sectors = copied, mg_events = []\<rparr> \<and>
    bslice data 0 512 = replicate 512 9 \<and> bslice data 512 1024 = replicate 512 0"
proof -
  let ?f = "(blank_file 0)\<lparr>f_max := 4096\<rparr>" and ?st = "\<lparr>mg_bat = sample_bat, mg_cursor = 0, mg_blocks = 0, mg_sectors = 0, mg_events = []\<rparr>"
  have e: "payload_entry (mg_bat ?st) 0 = Inr (Some BatEntry_empty)"
    using payload_entry_has(1) [OF sample_bat_has(1)] by (simp add: sample_bat_def nat_payload_index_def)
  have np: "\<not> is_present BatEntry_empty"
    by (simp add: entry_empty PayloadState_from_raw_def block_state_defs)
  have len: "set_len ?f (mg_cursor ?st + 1024) = Inr ((blank_file 1024)\<lparr>f_max := 4096\<rparr>)"
    by (simp add: set_len_def seek_def blank_file_def)
  have bits: "bit_is_set [1] 0" "\<not> bit_is_set [1] 1" by code_simp+
  obtain data copied where "merge_step 1024 512 2 0 (Partial (replicate 1024 9) [1]) ?f ?st =
      store_present 0 (mg_cursor ?st) data ((blank_file 1024)\<lparr>f_max := 4096\<rparr>) (?st\<lparr>mg_cursor := mg_cursor ?st + 1024, mg_sectors := copied\<rparr>)"
    and "\<forall>j. j * 512 + 512 \<le> unat (1024 :: u64) \<longrightarrow> bslice data (j * 512) (j * 512 + 512) =
      (if j < 2 \<and> bit_is_set [1] j then bslice (replicate 1024 9) (j * 512) (j * 512 + 512) else replicate 512 0)"
    using merge_zero_fills_missing [OF e np len, of "replicate 1024 9" 2 512 "[1]"] by auto
  moreover from this(2) have "bslice data 0 512 = replicate 512 9" "bslice data 512 1024 = replicate 512 0"
    using bits by (auto dest: spec [of _ 0] spec [of _ 1] simp: bslice_replicate)
  ultimately show ?thesis by auto
qed

end
