(* ===== verification/Vhdx_Merge_View.thy ===== *)
theory Vhdx_Merge_View
  imports Vhdx_Merge
begin

text \<open>
  What a merge does to the chain: the parent as a disk before and after, the discovery of its
  chain afterwards, and the view through any links below.  The parent may be a root or a
  differencing disk itself, with partially present blocks of its own.
\<close>

section \<open>The parent before and after\<close>

definition sectors_of :: "vhdx_disk \<Rightarrow> nat" where
  "sectors_of d = unat (disk_block_size d) div unat (logical_sector_size (vd_metadata d))"

text \<open>The bitmaps of the partially present blocks, and what of a file is not payload.\<close>

definition bitmaps_of :: "vhdx_disk \<Rightarrow> (nat \<times> nat) list" where
  "bitmaps_of d = map (bitmap_range (vd_bat d) (sectors_of d))
     (filter (\<lambda>k. is_partial (entry_of (vd_bat d) k)) [0..<unat (bat_block_count (vd_bat d))])"

definition metadata_range :: "vhdx_disk \<Rightarrow> nat \<times> nat" where
  "metadata_range d = (unat (re_file_offset (vd_metadata_region d)), unat (re_length (vd_metadata_region d)))"

definition table_range :: "vhdx_disk \<Rightarrow> nat \<times> nat" where
  "table_range d = (unat (re_file_offset (vd_bat_region d)), unat (re_length (vd_bat_region d)))"

definition reserved_of :: "vhdx_disk \<Rightarrow> (nat \<times> nat) list" where
  "reserved_of d = (0, 327680) # table_range d # metadata_range d # bitmaps_of d"

text \<open>
  What the merge relies on of the parent and nothing checks: the regions, the payloads and the
  bitmaps of partially present blocks lie inside the file, the payloads apart from everything
  else and the table apart from the metadata and the bitmaps, and every block is in a state
  the reader accepts.
\<close>

definition image_ok :: "vhdx_disk \<Rightarrow> dfile \<Rightarrow> bool" where
  "image_ok d f \<longleftrightarrow>
     (let bs = unat (disk_block_size d); n = bat_block_count (vd_bat d); t = vd_bat d in
      bs mod 1048576 = 0 \<and> table_ok (bat_chunk_ratio t) n (length (bat_entries t)) t \<and>
      total_bat_entries n (bat_chunk_ratio t) (disk_has_parent d) = Inr (length (bat_entries t)) \<and>
      length (bat_entries t) * 8 \<le> snd (table_range d) \<and>
      payload_ok bs (unat n) (reserved_of d) t (f_len f) \<and>
      (\<forall>(r, m)\<in>set (reserved_of d). r + m \<le> f_len f) \<and>
      327680 \<le> fst (table_range d) \<and>
      (\<forall>(r, m)\<in>set (metadata_range d # bitmaps_of d).
        327680 \<le> r \<and> apart (fst (table_range d)) (snd (table_range d)) r m) \<and>
      (\<forall>k<unat n. content_at bs (sectors_of d) f t k \<noteq> None))"

lemma image_okD:
  assumes "image_ok d f"
  shows "unat (disk_block_size d) mod 1048576 = 0"
    and "table_ok (bat_chunk_ratio (vd_bat d)) (bat_block_count (vd_bat d)) (length (bat_entries (vd_bat d))) (vd_bat d)"
    and "total_bat_entries (bat_block_count (vd_bat d)) (bat_chunk_ratio (vd_bat d)) (disk_has_parent d) =
      Inr (length (bat_entries (vd_bat d)))"
    and "length (bat_entries (vd_bat d)) * 8 \<le> snd (table_range d)"
    and "payload_ok (unat (disk_block_size d)) (unat (bat_block_count (vd_bat d))) (reserved_of d) (vd_bat d) (f_len f)"
    and "(r, m) \<in> set (reserved_of d) \<Longrightarrow> r + m \<le> f_len f"
    and "327680 \<le> fst (table_range d)"
    and "(r, m) \<in> set (metadata_range d # bitmaps_of d) \<Longrightarrow>
      327680 \<le> r \<and> apart (fst (table_range d)) (snd (table_range d)) r m"
    and "k < unat (bat_block_count (vd_bat d)) \<Longrightarrow>
      content_at (unat (disk_block_size d)) (sectors_of d) f (vd_bat d) k \<noteq> None"
  using assms unfolding image_ok_def Let_def by blast+

lemma reserved_members [simp]:
  "(0, 327680) \<in> set (reserved_of d)" "table_range d \<in> set (reserved_of d)" "metadata_range d \<in> set (reserved_of d)"
  "x \<in> set (bitmaps_of d) \<Longrightarrow> x \<in> set (reserved_of d)"
  by (simp_all add: reserved_of_def)

lemma partial_reserved:
  "k < unat (bat_block_count (vd_bat d)) \<Longrightarrow> is_partial (entry_of (vd_bat d) k) \<Longrightarrow>
    bitmap_range (vd_bat d) (sectors_of d) k \<in> set (bitmaps_of d)"
  by (auto simp: bitmaps_of_def)

lemma open_parts:
  assumes "VhdxDisk_open E q (Some f) ro = Inr (d, f)"
  shows "RegionTable_bat (vd_region d) = Some (vd_bat_region d)"
    and "RegionTable_metadata (vd_region d) = Some (vd_metadata_region d)"
    and "\<exists>buf. read_exact_at f (re_file_offset (vd_metadata_region d)) (unat (re_length (vd_metadata_region d))) = Inr buf \<and>
      Metadata_parse E buf = Inr (vd_metadata d)"
    and "\<exists>buf. read_exact_at f (re_file_offset (vd_bat_region d)) (unat (re_length (vd_bat_region d))) = Inr buf \<and>
      Bat_parse buf (bat_block_count (vd_bat d)) (bat_chunk_ratio (vd_bat d)) (disk_has_parent d) = Inr (vd_bat d)"
  using assms open_wf(1) [OF assms]
  by (auto simp: VhdxDisk_open_def bindR_eq_Inr ok_or_eq_Inr disk_wf_def disk_has_parent_def split: if_splits)

lemma read_parent_open:
  assumes "VhdxDisk_open E q (Some f) ro = Inr (d, f)"
  shows "read_parent E f = Inr (vd_header_pair d, vd_bat_region d, vd_bat d)"
  using open_steps(1-4) [OF assms] open_parts [OF assms] open_wf(1) [OF assms]
  by (auto simp: read_parent_def disk_wf_def disk_has_parent_def)

text \<open>A file that differs from an opened one in headers and table opens as the disk with the new table.\<close>

lemma open_changed:
  assumes o: "VhdxDisk_open E q (Some f) ro = Inr (d, f)"
    and "verify_file_type g = verify_file_type f" and "HeaderPair_read E g = Inr hp"
    and "RegionTablePair_read E g = RegionTablePair_read E f"
    and "read_exact_at g (re_file_offset (vd_metadata_region d)) (unat (re_length (vd_metadata_region d))) =
      read_exact_at f (re_file_offset (vd_metadata_region d)) (unat (re_length (vd_metadata_region d)))"
    and "read_exact_at g (re_file_offset (vd_bat_region d)) (unat (re_length (vd_bat_region d))) = Inr buf"
    and "Bat_parse buf (bat_block_count (vd_bat d)) (bat_chunk_ratio (vd_bat d)) (disk_has_parent d) = Inr t"
    and "ro' \<or> log_guid (HeaderPair_active hp) = nil_uuid"
  shows "VhdxDisk_open E q' (Some g) ro' = Inr (d\<lparr>vd_path := q', vd_read_only := ro', vd_header_pair := hp,
    vd_bat := t, vd_file_len := f_len g\<rparr>, g)"
  using assms(2-) open_steps(1-5) [OF o] open_parts [OF o] open_wf(1) [OF o]
  by (auto simp: VhdxDisk_open_def disk_wf_def disk_has_parent_def)

lemma aligned_end_ok:
  assumes "f_len f + 1048576 \<le> f_max f" and "f_max f < 2 ^ 63"
  obtains g cur where "aligned_end f = Inr (g, cur)" and "f_len g = unat cur" and "unat cur mod 1048576 = 0"
    and "f_len f \<le> f_len g" and "f_len g < f_len f + 1048576" and "f_max g = f_max f"
    and "\<And>o' m. o' + m \<le> f_len f \<Longrightarrow> file_bytes g o' m = file_bytes f o' m"
proof -
  let ?c = "word_of_nat (f_len f) :: u64" and ?a = "align_up (word_of_nat (f_len f)) (1024 * 1024) :: u64"
  have c: "unat ?c = f_len f" using assms by (simp add: unat_of_nat_u64)
  have mib: "(1024 * 1024 :: u64) = MIB" by (simp add: offset_defs)
  have a: "f_len f \<le> unat ?a" "unat ?a mod 1048576 = 0" "unat ?a < f_len f + 1048576"
    using align_up_MIB [of ?c] assms unfolding mib c by simp_all
  show ?thesis
  proof (cases "?a = ?c")
    case True
    then have "aligned_end f = Inr (f, ?c)" by (simp add: aligned_end_def Let_def)
    then show ?thesis using a c True that [of f ?c] by simp
  next
    case False
    obtain g where g: "set_len f ?a = Inr g" "f_len g = unat ?a" "f_max g = f_max f"
        "\<And>o' m. o' + m \<le> f_len f \<Longrightarrow> file_bytes g o' m = file_bytes f o' m"
      using grow_file [of f ?a] a assms by auto
    then have "aligned_end f = Inr (g, ?a)" using False by (simp add: aligned_end_def Let_def)
    then show ?thesis using a g that [of g ?a] by simp
  qed
qed

text \<open>What the reader delivers of a block.\<close>

definition initial_content :: "vhdx_disk \<Rightarrow> dfile \<Rightarrow> nat \<Rightarrow> block_read" where
  "initial_content d f k = the (content_at (unat (disk_block_size d)) (sectors_of d) f (vd_bat d) k)"

lemma initial_content_at:
  "image_ok d f \<Longrightarrow> k < unat (bat_block_count (vd_bat d)) \<Longrightarrow>
    content_at (unat (disk_block_size d)) (sectors_of d) f (vd_bat d) k = Some (initial_content d f k)"
  using image_okD(9) [of d f k] by (auto simp: initial_content_def)

lemma image_reads:
  assumes img: "image_ok d f" and wf: "disk_wf d" and len: "f_len f < 2 ^ 63"
    and b: "unat b < unat (bat_block_count (vd_bat d))"
  shows "read_block d f b = Inr (initial_content d f (unat b))"
proof (rule read_block_at [OF wf image_okD(2) [OF img] b sectors_of_def initial_content_at [OF img b] _ _ len])
  show "off_of (entry_of (vd_bat d) (unat b)) + unat (disk_block_size d) \<le> f_len f"
    if "holds_data (entry_of (vd_bat d) (unat b))"
    using payload_okD(1) [OF image_okD(5) [OF img] b that] .
  show "fst (bitmap_range (vd_bat d) (sectors_of d) (unat b)) + snd (bitmap_range (vd_bat d) (sectors_of d) (unat b)) \<le> f_len f"
    if "is_partial (entry_of (vd_bat d) (unat b))"
    using image_okD(6) [OF img] reserved_members(4) [OF partial_reserved [OF b that]] by simp
qed

text \<open>The invariant holds at the start.\<close>

abbreviation parent_inv :: "vhdx_disk \<Rightarrow> dfile \<Rightarrow> (nat \<Rightarrow> block_read) \<Rightarrow> dfile \<Rightarrow> merge_state \<Rightarrow> bool" where
  "parent_inv d \<equiv> merge_inv (bat_chunk_ratio (vd_bat d)) (bat_block_count (vd_bat d)) (length (bat_entries (vd_bat d)))
     (unat (disk_block_size d)) (sectors_of d) (reserved_of d) (bitmaps_of d)"

lemma merge_start:
  assumes img: "image_ok d f" and wf: "disk_wf d" and room: "f_len f + 1048576 \<le> f_max f" "f_max f < 2 ^ 63"
  obtains g cur where "aligned_end f = Inr (g, cur)" and "unat cur < f_len f + 1048576" and "f_max g = f_max f"
    and "parent_inv d f (initial_content d f) g
      \<lparr>mg_bat = vd_bat d, mg_cursor = cur, mg_blocks = 0, mg_sectors = 0, mg_events = es\<rparr>"
proof -
  let ?bs = "unat (disk_block_size d)" and ?t = "vd_bat d" and ?n = "unat (bat_block_count (vd_bat d))"
  note I = image_okD [OF img]
  obtain g cur where g: "aligned_end f = Inr (g, cur)" "f_len g = unat cur" "unat cur mod 1048576 = 0"
      "f_len f \<le> f_len g" "f_len g < f_len f + 1048576" "f_max g = f_max f"
      "\<And>o' m. o' + m \<le> f_len f \<Longrightarrow> file_bytes g o' m = file_bytes f o' m"
    using aligned_end_ok [OF room] by blast
  have "0 < ?bs" using wf by (simp add: disk_wf_def unat_gt_0)
  moreover have "payload_ok ?bs ?n (reserved_of d) ?t (f_len g)"
    using I(5) g(4) unfolding payload_ok_def by (meson order_trans)
  moreover have res: "r + m \<le> f_len g \<and> file_bytes g r m = file_bytes f r m" if "(r, m) \<in> set (reserved_of d)" for r m
    using I(6) [OF that] g(4,7) by simp
  moreover have "content_at ?bs (sectors_of d) g ?t k = Some (initial_content d f k)" if k: "k < ?n" for k
  proof (rule content_at_frame [OF initial_content_at [OF img k]])
    show "file_bytes g (off_of (entry_of ?t k)) ?bs = file_bytes f (off_of (entry_of ?t k)) ?bs" if "holds_data (entry_of ?t k)"
      using payload_okD(1) [OF I(5) k that] by (rule g(7))
    show "file_bytes g (fst (bitmap_range ?t (sectors_of d) k)) (snd (bitmap_range ?t (sectors_of d) k)) =
        file_bytes f (fst (bitmap_range ?t (sectors_of d) k)) (snd (bitmap_range ?t (sectors_of d) k))"
      if "is_partial (entry_of ?t k)"
      using res reserved_members(4) [OF partial_reserved [OF k that]] by simp
  qed
  moreover have "bitmap_range ?t (sectors_of d) k \<in> set (bitmaps_of d)" if "k < ?n" "is_partial (entry_of ?t k)" for k
    using that by (rule partial_reserved)
  moreover have "set (bitmaps_of d) \<subseteq> set (reserved_of d)" by auto
  ultimately have "parent_inv d f (initial_content d f) g
      \<lparr>mg_bat = ?t, mg_cursor = cur, mg_blocks = 0, mg_sectors = 0, mg_events = es\<rparr>"
    unfolding merge_inv_def using I(1,2) g(2,3,5,6) room by auto
  then show ?thesis using that g(1,2,5,6) by simp
qed

lemma sub_bytes:
  assumes "file_bytes g a m = file_bytes f a m" and "a \<le> o'" and "o' + n \<le> a + m"
  shows "file_bytes g o' n = file_bytes f o' n"
proof (rule file_bytes_eqI)
  fix i assume i: "o' \<le> i" "i < o' + n"
  have "file_bytes g a m ! (i - a) = file_bytes f a m ! (i - a)" using assms(1) by simp
  then show "f_data g i = f_data f i" using i assms(2,3) by (simp add: nth_file_bytes)
qed

text \<open>Both header copies are renewed, nothing else of the file changes.\<close>

lemma headers_renewed:
  assumes E: "uuid_laws E" and r: "HeaderPair_read E f = Inr p"
    and m: "version (m (HeaderPair_active p)) = 1" "log_version (m (HeaderPair_active p)) = 0"
    and seq: "sequence_number (HeaderPair_active p) + 1 \<noteq> 0"
  shows "\<exists>f1 f2 n p2. HeaderPair_write_new E f (HeaderPair_active p) m = Inr (f1, n) \<and>
    HeaderPair_write_new E f1 (HeaderPair_active p) m = Inr (f2, n) \<and> same_body f f2 \<and>
    HeaderPair_read E f2 = Inr p2 \<and> HeaderPair_active p2 = successor E (HeaderPair_active p) m"
proof -
  obtain f1 f2 n where w: "HeaderPair_write_new E f (HeaderPair_active p) m = Inr (f1, n)"
      "HeaderPair_write_new E f1 (HeaderPair_active p) m = Inr (f2, n)"
      "slot E f2 0 = successor E (HeaderPair_active p) m" "slot E f2 1 = successor E (HeaderPair_active p) m"
    using write_new_twice [of E f p m, OF E r m seq] by blast
  have s: "has_slots f" "has_slots f1" "has_slots f2"
    using HeaderPair_readD(1) [OF r] w(1,2) write_new_keeps_length by blast+
  have "same_body f f2"
    using same_body_header [OF E s(1) w(1)] same_body_header [OF E s(2) w(2)] by (rule same_body_trans)
  moreover obtain p2 where "HeaderPair_read E f2 = Inr p2" "HeaderPair_active p2 = successor E (HeaderPair_active p) m"
    using same_headers_active [OF s(3) w(3,4) successor_valid(1) [of m _ E, OF m]] by blast
  ultimately show ?thesis using w(1,2) by blast
qed

text \<open>The first 320 KiB being the same, so is what is read of them.\<close>

lemma same_start:
  assumes s: "file_bytes g 0 327680 = file_bytes f 0 327680" and "327680 \<le> f_len f" and "327680 \<le> f_len g"
  shows "verify_file_type g = verify_file_type f" and "HeaderPair_read E g = HeaderPair_read E f"
    and "RegionTablePair_read E g = RegionTablePair_read E f"
proof -
  have r: "read_exact_at g off n = read_exact_at f off n" if "unat off + n \<le> 327680" for off n
    using that sub_bytes [OF s, of "unat off" n] assms(2,3) by (auto simp: read_exact_at_def seek_def)
  show "verify_file_type g = verify_file_type f" "HeaderPair_read E g = HeaderPair_read E f"
    "RegionTablePair_read E g = RegionTablePair_read E f"
    by (simp_all add: r verify_file_type_def HeaderPair_read_def RegionTablePair_read_def offset_defs size_defs)
qed

text \<open>
  The file the table and the headers were written to: the rest of it is as it was.
\<close>

lemma write_parent_file:
  assumes E: "uuid_laws E" and o: "VhdxDisk_open E q (Some f0) ro0 = Inr (d, f0)" and img: "image_ok d f0"
    and inv: "parent_inv d f0 c f st"
    and seq: "sequence_number (HeaderPair_active (vd_header_pair d)) + 1 \<noteq> 0"
  obtains g p2 buf where "write_parent E g1 g2 (vd_header_pair d) (vd_bat_region d) (mg_bat st) f = Inr g"
    and "f_len g = f_len f" and "verify_file_type g = verify_file_type f0"
    and "HeaderPair_read E g = Inr p2" and "RegionTablePair_read E g = RegionTablePair_read E f0"
    and "HeaderPair_active p2 = successor E (HeaderPair_active (vd_header_pair d))
      (\<lambda>h. h\<lparr>data_write_guid := g1, file_write_guid := g2, log_guid := nil_uuid\<rparr>)"
    and "\<And>r m. 327680 \<le> r \<Longrightarrow> apart (fst (table_range d)) (snd (table_range d)) r m \<Longrightarrow> r + m \<le> f_len f \<Longrightarrow>
      file_bytes g r m = file_bytes f r m"
    and "read_exact_at g (re_file_offset (vd_bat_region d)) (unat (re_length (vd_bat_region d))) = Inr buf"
    and "Bat_parse buf (bat_block_count (vd_bat d)) (bat_chunk_ratio (vd_bat d)) (disk_has_parent d) = Inr (mg_bat st)"
proof -
  let ?t = "vd_bat d" and ?n = "bat_block_count (vd_bat d)"
  let ?bo = "re_file_offset (vd_bat_region d)" and ?bl = "unat (re_length (vd_bat_region d))"
  let ?h = "HeaderPair_active (vd_header_pair d)"
  let ?renew = "\<lambda>h. h\<lparr>data_write_guid := g1, file_write_guid := g2, log_guid := nil_uuid\<rparr>"
  note I = merge_invD [OF inv] and G = image_okD [OF img, unfolded table_range_def fst_conv snd_conv]
  have res: "file_bytes f 0 327680 = file_bytes f0 0 327680" "327680 \<le> f_len f" "unat ?bo + ?bl \<le> f_len f"
    using I(10) [of 0 327680] I(10) [of "unat ?bo" ?bl] by (simp_all add: reserved_of_def table_range_def)
  have T: "table_ok (bat_chunk_ratio ?t) ?n (length (bat_entries ?t)) (mg_bat st)" by (rule I(1))
  define buf where "buf = Bat_encode (mg_bat st) @ replicate (?bl - length (bat_entries ?t) * 8) 0"
  have len: "length buf = ?bl" using T G(4) by (simp add: buf_def table_ok_def)
  have enc: "bat_region_buf (mg_bat st) (ucast (re_length (vd_bat_region d))) = Inr buf"
    using T G(4) by (simp add: bat_region_buf_def Let_def buf_def table_ok_def bput_def unat_ucast_u32_u64)
  let ?f1 = "patch f (unat ?bo) buf"
  have lt: "unat ?bo < 2 ^ 63" using open_parts(4) [OF o] by (auto simp: read_exact_at_ok)
  have w1: "write_all_at f ?bo buf = Inr ?f1" using lt res(3) len by (auto simp: write_all_at_ok)
  have l1: "f_len ?f1 = f_len f" using res(3) len by auto
  have frame: "file_bytes ?f1 o' m = file_bytes f o' m" if "apart (unat ?bo) ?bl o' m" "o' + m \<le> f_len f" for o' m
    using that len by (intro file_bytes_patch_other) (auto simp: apart_def)
  have start: "file_bytes ?f1 0 327680 = file_bytes f0 0 327680"
    using frame [of 0 327680] G(7) res(1,2) by (simp add: apart_def)
  have l0: "327680 \<le> f_len f0" using G(6) [OF reserved_members(1)] by simp
  have "327680 \<le> f_len ?f1" unfolding l1 by (rule res(2))
  note same = same_start [OF start l0 this]
  have r1: "HeaderPair_read E ?f1 = Inr (vd_header_pair d)" using same(2) open_steps(2) [OF o] by simp
  have v: "version (?renew ?h) = 1" "log_version (?renew ?h) = 0"
    using HeaderPair_readD(3) [OF r1] by (simp_all add: is_valid_def)
  obtain f2 g n p2 where w: "HeaderPair_write_new E ?f1 ?h ?renew = Inr (f2, n)" "HeaderPair_write_new E f2 ?h ?renew = Inr (g, n)"
      and body: "same_body ?f1 g" and p2: "HeaderPair_read E g = Inr p2" "HeaderPair_active p2 = successor E ?h ?renew"
    using headers_renewed [of E ?f1 "vd_header_pair d" ?renew, OF E r1 v seq] by blast
  have lg: "f_len g = f_len f" using body l1 by (simp add: same_body_def)
  have rest: "file_bytes g r m = file_bytes f r m"
    if "327680 \<le> r" "apart (fst (table_range d)) (snd (table_range d)) r m" "r + m \<le> f_len f" for r m
  proof -
    have "file_bytes g r m = file_bytes ?f1 r m"
      using that(1,3) body [unfolded same_body_def l1] by (intro file_bytes_eqI) simp
    then show ?thesis using frame [of r m] that by (simp add: table_range_def)
  qed
  show ?thesis
  proof (rule that [of g p2 buf])
    show "write_parent E g1 g2 (vd_header_pair d) (vd_bat_region d) (mg_bat st) f = Inr g"
      using w by (simp add: write_parent_def Let_def enc w1)
    show "verify_file_type g = verify_file_type f0" "RegionTablePair_read E g = RegionTablePair_read E f0"
      using same_body_checks(1,2) [OF body] same by simp_all
    have "read_exact_at g ?bo ?bl = read_exact_at ?f1 ?bo ?bl" using same_body_read [OF body, of ?bo ?bl] G(7) by simp
    also have "\<dots> = Inr buf"
      unfolding read_exact_at_ok l1 using lt res(3) file_bytes_patch_same [of ?bl buf f "unat ?bo"] len by simp
    finally show "read_exact_at g ?bo ?bl = Inr buf" .
    show "Bat_parse buf ?n (bat_chunk_ratio ?t) (disk_has_parent d) = Inr (mg_bat st)"
      using bat_roundtrip_parse [of "mg_bat st" "disk_has_parent d"] T G(3) by (simp add: buf_def table_ok_def)
  qed (use lg p2 rest in blast)+
qed

text \<open>It opens as the old disk with the new table, and its blocks are those of the invariant.\<close>

lemma write_parent_ok:
  assumes E: "uuid_laws E" and o: "VhdxDisk_open E q (Some f0) ro0 = Inr (d, f0)" and img: "image_ok d f0"
    and inv: "parent_inv d f0 c f st"
    and seq: "sequence_number (HeaderPair_active (vd_header_pair d)) + 1 \<noteq> 0"
  shows "\<exists>g. write_parent E g1 g2 (vd_header_pair d) (vd_bat_region d) (mg_bat st) f = Inr g \<and>
    (\<forall>q' ro'. \<exists>d'. VhdxDisk_open E q' (Some g) ro' = Inr (d', g) \<and> vd_metadata d' = vd_metadata d \<and>
      data_write_guid (active_header d') = g1 \<and>
      (\<forall>b. unat b < unat (bat_block_count (vd_bat d)) \<longrightarrow> read_block d' g b = Inr (c (unat b))))"
proof -
  let ?bs = "unat (disk_block_size d)" and ?t = "vd_bat d" and ?n = "unat (bat_block_count (vd_bat d))"
  let ?mo = "re_file_offset (vd_metadata_region d)" and ?ml = "unat (re_length (vd_metadata_region d))"
  obtain g p2 buf where W: "write_parent E g1 g2 (vd_header_pair d) (vd_bat_region d) (mg_bat st) f = Inr g"
      "f_len g = f_len f" "verify_file_type g = verify_file_type f0"
      "HeaderPair_read E g = Inr p2" "RegionTablePair_read E g = RegionTablePair_read E f0"
    and p2: "HeaderPair_active p2 = successor E (HeaderPair_active (vd_header_pair d))
      (\<lambda>h. h\<lparr>data_write_guid := g1, file_write_guid := g2, log_guid := nil_uuid\<rparr>)"
    and frame: "\<And>r m. 327680 \<le> r \<Longrightarrow> apart (fst (table_range d)) (snd (table_range d)) r m \<Longrightarrow> r + m \<le> f_len f \<Longrightarrow>
      file_bytes g r m = file_bytes f r m"
    and bat: "read_exact_at g (re_file_offset (vd_bat_region d)) (unat (re_length (vd_bat_region d))) = Inr buf"
      "Bat_parse buf (bat_block_count (vd_bat d)) (bat_chunk_ratio (vd_bat d)) (disk_has_parent d) = Inr (mg_bat st)"
    by (rule write_parent_file [OF E o img inv seq]) (rule that)
  note I = merge_invD [OF inv] and G = image_okD [OF img]
  have md: "read_exact_at g ?mo ?ml = read_exact_at f0 ?mo ?ml"
    using G(8) [of "unat ?mo" ?ml] I(10) [of "unat ?mo" ?ml] G(6) [of "unat ?mo" ?ml] frame [of "unat ?mo" ?ml] W(2)
    by (simp add: metadata_range_def reserved_of_def read_exact_at_def seek_def)
  have payload: "file_bytes g (off_of (entry_of (mg_bat st) k)) ?bs = file_bytes f (off_of (entry_of (mg_bat st) k)) ?bs"
    if k: "k < ?n" and h: "holds_data (entry_of (mg_bat st) k)" for k
  proof (rule frame)
    let ?o = "off_of (entry_of (mg_bat st) k)"
    note P = payload_okD [OF I(9) k h]
    show "?o + ?bs \<le> f_len f" by (rule P(1))
    show "327680 \<le> ?o" using P(2) [OF reserved_members(1)] I(4) by (auto simp: apart_def)
    show "apart (fst (table_range d)) (snd (table_range d)) ?o ?bs"
      using P(2) [of "fst (table_range d)" "snd (table_range d)"] by (auto simp: apart_def)
  qed
  have reserved: "file_bytes g r m = file_bytes f r m" if "(r, m) \<in> set (bitmaps_of d)" for r m
    using G(8) [of r m] I(10) [of r m] that by (intro frame) simp_all
  have content: "content_at ?bs (sectors_of d) g (mg_bat st) k = Some (c k)" if k: "k < ?n" for k
    by (rule content_at_frame [OF I(11) [OF k] payload [OF k]])
      (use I(12) [OF k] in \<open>auto intro: reserved\<close>)
  show ?thesis
  proof (intro exI [of _ g] conjI allI W(1))
    fix q' ro'
    let ?d = "d\<lparr>vd_path := q', vd_read_only := ro', vd_header_pair := p2, vd_bat := mg_bat st, vd_file_len := f_len g\<rparr>"
    have open_g: "VhdxDisk_open E q' (Some g) ro' = Inr (?d, g)"
      by (rule open_changed [OF o W(3,4,5) md bat]) (simp add: p2 successor_def stamped_def)
    have "read_block ?d g b = Inr (c (unat b))" if b: "unat b < ?n" for b
    proof (rule read_block_at [where len = "length (bat_entries ?t)" and spb = "sectors_of d"])
      show "disk_wf ?d" by (rule open_wf(1) [OF open_g])
      show "f_len g < 2 ^ 63" using I(6,7) W(2) by simp
    qed (use I(1) b content [OF b] payload_okD(1) [OF I(9) b] W(2) I(10,12) in
      \<open>auto simp: table_ok_def sectors_of_def disk_block_size_def\<close>)
    then show "\<exists>d'. VhdxDisk_open E q' (Some g) ro' = Inr (d', g) \<and> vd_metadata d' = vd_metadata d \<and>
        data_write_guid (active_header d') = g1 \<and>
        (\<forall>b. unat b < ?n \<longrightarrow> read_block d' g b = Inr (c (unat b)))"
      using open_g by (intro exI [of _ ?d]) (simp add: active_header_def p2 successor_def stamped_def)
  qed
qed

section \<open>The chain below the parent\<close>

text \<open>
  A discovery goes the same way in a file system with the same links in which only files were
  removed that it does not visit, and the file it starts from has changed its contents but not
  its metadata.
\<close>

lemma first_candidate_less:
  assumes "first_candidate fs dir cs = Some q" and "path_exists fs' q"
    and "\<And>p. path_exists fs' p \<Longrightarrow> path_exists fs p"
  shows "first_candidate fs' dir cs = Some q"
  using assms(1)
proof (induction cs)
  case (Cons c cs)
  have "path_exists fs' p \<Longrightarrow> \<not> path_exists fs p \<Longrightarrow> False" for p using assms(3) by blast
  then show ?case using Cons assms(2) by (auto simp: Let_def split: if_splits option.splits)
qed simp

lemma resolve_parent_less:
  assumes "resolve_parent fs p pl = Some q" and "path_exists fs' q" and "\<And>p. path_exists fs' p \<Longrightarrow> path_exists fs p"
  shows "resolve_parent fs' p pl = Some q"
  using assms(1) first_candidate_less [OF _ assms(2,3)] by (auto simp: resolve_parent_def Let_def split: if_splits)

lemma canonical_path_same:
  "fs_resolve fs' = fs_resolve fs \<Longrightarrow> fs_open fs p \<noteq> None \<Longrightarrow> fs_open fs' p \<noteq> None \<Longrightarrow>
    canonical_path fs' p = canonical_path fs p"
  using canonical_path_open [of fs p] canonical_path_open [of fs' p] by simp

lemma discover_loop_enter:
  assumes "canonical_path fs p \<notin> visited" and "VhdxDisk_open E p (fs_open fs p) True = Inr (d, f)"
  shows "\<not> disk_has_parent d \<Longrightarrow> discover_loop E fs visited p = Inr [node_of p d]"
    and "disk_has_parent d \<Longrightarrow> md_parent_locator (vd_metadata d) = Some pl \<Longrightarrow> resolve_parent fs p pl = Some nxt \<Longrightarrow>
      discover_loop E fs (insert (canonical_path fs p) visited) nxt = Inr rest \<Longrightarrow>
      discover_loop E fs visited p = Inr ((node_of p d)\<lparr>cn_parent_link := Some (link_of E fs p pl)\<rparr> # rest)"
  using assms by (simp_all add: discover_loop.simps [of E fs visited p] Let_def link_of_def flip: canonical_path_def)

text \<open>The step to the parent is the same one when the parent's file has not changed.\<close>

lemma resolve_same:
  assumes "resolve_parent fs p pl = Some nxt" and "discover_loop E fs visited nxt = Inr rest"
    and "\<And>n. n \<in> set rest \<Longrightarrow> fs_open fs' (cn_path n) = fs_open fs (cn_path n)"
    and "\<And>q. path_exists fs' q \<Longrightarrow> path_exists fs q"
  shows "resolve_parent fs' p pl = Some nxt" and "link_of E fs' p pl = link_of E fs p pl"
proof -
  obtain m ms where rest: "rest = m # ms" "cn_path m = nxt" "opens_as E fs m"
    using discover_loop_nodes [OF assms(2)] by (cases rest) auto
  then have "fs_open fs' nxt \<noteq> None"
    using assms(3) [of m] VhdxDisk_open_some by (auto simp: opens_as_def)
  then show r: "resolve_parent fs' p pl = Some nxt"
    using resolve_parent_less [OF assms(1) _ assms(4)] by (simp add: path_exists_def)
  show "link_of E fs' p pl = link_of E fs p pl" by (simp add: link_of_def r assms(1))
qed

lemma discover_loop_same:
  assumes "discover_loop E fs visited p = Inr nodes" and "fs_resolve fs' = fs_resolve fs"
    and "\<And>q. path_exists fs' q \<Longrightarrow> path_exists fs q"
    and "\<And>n. n \<in> set nodes \<Longrightarrow> fs_open fs' (cn_path n) = fs_open fs (cn_path n)"
  shows "discover_loop E fs' visited p = Inr nodes"
  using assms(1,4)
proof (induction nodes arbitrary: visited p)
  case Nil
  then show ?case by (cases rule: discover_loop_cases) simp_all
next
  case (Cons n ns)
  have "cn_path n = p" using discover_loop_nodes [OF Cons.prems(1)] by simp
  then have same: "fs_open fs' p = fs_open fs p" using Cons.prems(2) [of n] by simp
  from Cons.prems(1) show ?case
  proof (cases rule: discover_loop_cases)
    case (1 d f)
    then have "canonical_path fs' p = canonical_path fs p"
      using canonical_path_same [OF assms(2)] same VhdxDisk_open_some by metis
    with 1 show ?thesis using discover_loop_enter(1) [of fs' p visited E d f] same by simp
  next
    case (2 d f pl nxt rest)
    then have can: "canonical_path fs' p = canonical_path fs p"
      using canonical_path_same [OF assms(2)] same VhdxDisk_open_some by metis
    note r = resolve_same [OF 2(5,6) _ assms(3)]
    have rest: "fs_open fs' (cn_path k) = fs_open fs (cn_path k)" if "k \<in> set rest" for k
      using Cons.prems(2) that 2(7) by simp
    have "discover_loop E fs' (insert (canonical_path fs p) visited) nxt = Inr ns"
      using 2(6,7) by (intro Cons.IH Cons.prems(2)) simp_all
    then show ?thesis
      using discover_loop_enter(2) [of fs' p visited E d f pl nxt rest] 2 can same r rest by simp
  qed
qed

text \<open>The files visited before matter only where they are met again.\<close>

lemma discover_loop_visited:
  assumes "discover_loop E fs V p = Inr nodes" and "\<And>n. n \<in> set nodes \<Longrightarrow> canonical_path fs (cn_path n) \<notin> W"
  shows "discover_loop E fs W p = Inr nodes"
  using assms
proof (induction nodes arbitrary: V W p)
  case Nil
  then show ?case by (cases rule: discover_loop_cases) simp_all
next
  case (Cons n ns)
  have p: "cn_path n = p" using discover_loop_nodes [OF Cons.prems(1)] by simp
  then have new: "canonical_path fs p \<notin> W" using Cons.prems(2) [of n] by simp
  from Cons.prems(1) show ?case
  proof (cases rule: discover_loop_cases)
    case (1 d f)
    then show ?thesis using discover_loop_enter(1) [OF new 1(2)] by simp
  next
    case (2 d f pl nxt rest)
    have ns: "rest = ns" using 2(7) by simp
    have "canonical_path fs (cn_path m) \<notin> insert (canonical_path fs p) W" if "m \<in> set ns" for m
      using discover_loop_nodes [OF 2(6)] Cons.prems(2) [of m] that unfolding ns by auto
    then have "discover_loop E fs (insert (canonical_path fs p) W) nxt = Inr ns"
      by (rule Cons.IH [OF 2(6) [unfolded ns]])
    then show ?thesis using discover_loop_enter(2) [OF new 2(2-5)] 2(7) by simp
  qed
qed

lemma resolve_parent_cong:
  assumes "\<And>p. path_exists fs' p = path_exists fs p"
  shows "resolve_parent fs' child pl = resolve_parent fs child pl"
proof -
  have "first_candidate fs' dir cs = first_candidate fs dir cs" for dir cs
    by (induction cs) (simp_all add: Let_def assms split: option.split)
  then show ?thesis by (simp add: resolve_parent_def)
qed

lemma discover_first_changed:
  assumes disc: "Chain_discover E fs p = Inr c" and res: "fs_resolve fs' = fs_resolve fs"
    and less: "\<And>q. path_exists fs' q \<Longrightarrow> path_exists fs q"
    and same: "\<And>n. n \<in> set (tl (ch_nodes c)) \<Longrightarrow> fs_open fs' (cn_path n) = fs_open fs (cn_path n)"
    and o: "VhdxDisk_open E p (fs_open fs p) True = Inr (d, f)"
    and o': "VhdxDisk_open E p (fs_open fs' p) True = Inr (d', f')" and md: "vd_metadata d' = vd_metadata d"
  shows "\<exists>n'. Chain_discover E fs' p = Inr \<lparr>ch_leaf_path = p, ch_nodes = n' # tl (ch_nodes c)\<rparr>"
proof -
  from disc have run: "discover_loop E fs {} p = Inr (ch_nodes c)" and g: "check_guids (ch_nodes c) = Inr ()"
    by (auto simp: Chain_discover_def res_simps)
  have can: "canonical_path fs' p = canonical_path fs p"
    using canonical_path_same [OF res] o o' VhdxDisk_open_some by metis
  from run obtain n' where n': "discover_loop E fs' {} p = Inr (n' # tl (ch_nodes c))"
    and link: "ch_nodes c \<noteq> []" "cn_parent_link n' = cn_parent_link (hd (ch_nodes c))"
  proof (cases rule: discover_loop_cases)
    case (1 d1 f1)
    then have "discover_loop E fs' {} p = Inr [node_of p d']"
      using o o' md by (intro discover_loop_enter) (simp_all add: disk_has_parent_def)
    then show ?thesis using that [of "node_of p d'"] 1 by (simp add: node_of_def)
  next
    case (2 d1 f1 pl nxt rest)
    have d1: "d1 = d" using 2(2) o by simp
    have "discover_loop E fs' {canonical_path fs p} nxt = Inr rest"
      using 2(6,7) by (intro discover_loop_same [OF _ res less] same) simp_all
    moreover note r = resolve_same [OF 2(5,6) _ less]
    have rest: "fs_open fs' (cn_path k) = fs_open fs (cn_path k)" if "k \<in> set rest" for k
      using that 2(7) by (intro same) simp
    let ?n = "(node_of p d')\<lparr>cn_parent_link := Some (link_of E fs' p pl)\<rparr>"
    from \<open>discover_loop E fs' {canonical_path fs p} nxt = Inr rest\<close> have "discover_loop E fs' {} p = Inr (?n # rest)"
      using 2(3,4) d1 md can r(1) rest by (intro discover_loop_enter(2) [OF _ o']) (simp_all add: disk_has_parent_def)
    then show ?thesis using that [of ?n] 2(7) r(2) rest by simp
  qed
  obtain n where n: "ch_nodes c = n # tl (ch_nodes c)" "cn_parent_link n' = cn_parent_link n"
    using link by (cases "ch_nodes c") simp_all
  from g have "check_guids (n # tl (ch_nodes c)) = Inr ()" by (simp flip: n(1))
  then have "check_guids (n' # tl (ch_nodes c)) = Inr ()"
    by (auto simp: n(2) Let_def split: option.splits if_splits)
  then show ?thesis using n' by (simp add: Chain_discover_def)
qed

section \<open>The whole merge\<close>

lemma repair_unless_frame:
  assumes "repair_unless E skip fs p = Inr fs'"
  shows "fs_resolve fs' = fs_resolve fs" and "fs_resolve fs q \<noteq> fs_resolve fs p \<Longrightarrow> fs_open fs' q = fs_open fs q"
  using assms by (auto simp: repair_unless_def res_simps fs_open_store split: if_splits)

lemma repair_keeps_existence:
  assumes "repair_unless E skip fs p = Inr fs'"
  shows "path_exists fs' q = path_exists fs q"
proof (cases "fs_resolve fs q = fs_resolve fs p")
  case True
  then have "fs_open fs q = fs_open fs p" by (simp add: fs_open_def)
  then show ?thesis using assms True
    by (auto simp: repair_unless_def res_simps path_exists_def fs_open_store split: if_splits)
next
  case False
  then show ?thesis using repair_unless_frame(2) [OF assms] by (simp add: path_exists_def)
qed

text \<open>
  The circumstances of a merge that is to succeed.  After the repairs, which leave \<open>fs1\<close>, the
  child opens as \<open>cd\<close>, with contents \<open>cf\<close>, and its parent, which its locator leads to and whose
  GUID it states if it states one, as \<open>pd\<close>.  The chain of the parent can be discovered and
  does not come back to the child.  The two have the same geometry and are different files, the
  blocks of the child can be read, the parent's image is in order and has room for all blocks
  of the child, and its sequence number does not wrap around.
\<close>

definition merge_found :: "externs \<Rightarrow> merge_options \<Rightarrow> fsys \<Rightarrow> path \<Rightarrow> path \<Rightarrow> fsys \<Rightarrow> vhdx_disk \<Rightarrow> dfile
    \<Rightarrow> vhdx_disk \<Rightarrow> dfile \<Rightarrow> bool" where
  "merge_found E opts fs child parent fs1 cd cf pd pf \<longleftrightarrow>
     (\<exists>fs0 pl.
       repair_unless E (mo_skip_fsck opts) fs child = Inr fs0 \<and>
       VhdxDisk_open E child (fs_open fs0 child) True = Inr (cd, cf) \<and> disk_has_parent cd \<and>
       md_parent_locator (vd_metadata cd) = Some pl \<and> resolve_parent fs0 child pl = Some parent \<and>
       repair_unless E (mo_skip_fsck opts) fs0 parent = Inr fs1 \<and>
       VhdxDisk_open E parent (fs_open fs1 parent) True = Inr (pd, pf) \<and>
       parent_linkage E pl \<in> {None, Some (data_write_guid (active_header pd))})"

definition merge_ready :: "externs \<Rightarrow> merge_options \<Rightarrow> fsys \<Rightarrow> path \<Rightarrow> path \<Rightarrow> fsys \<Rightarrow> vhdx_disk \<Rightarrow> dfile
    \<Rightarrow> vhdx_disk \<Rightarrow> dfile \<Rightarrow> bool" where
  "merge_ready E opts fs child parent fs1 cd cf pd pf \<longleftrightarrow>
     merge_found E opts fs child parent fs1 cd cf pd pf \<and>
     fs_resolve fs child \<noteq> fs_resolve fs parent \<and>
     (\<exists>c. Chain_discover E fs1 parent = Inr c \<and>
       (\<forall>n\<in>set (tl (ch_nodes c)). fs_resolve fs (cn_path n) \<noteq> fs_resolve fs child)) \<and>
     disk_virtual_size pd = disk_virtual_size cd \<and> disk_block_size pd = disk_block_size cd \<and>
     logical_sector_size (vd_metadata pd) = logical_sector_size (vd_metadata cd) \<and>
     0 < logical_sector_size (vd_metadata cd) \<and>
     (\<forall>b. unat b < unat (bat_block_count (vd_bat cd)) \<longrightarrow> (\<exists>r. read_block cd cf b = Inr r)) \<and>
     image_ok pd pf \<and>
     f_len pf + 1048576 + unat (bat_block_count (vd_bat cd)) * unat (disk_block_size cd) \<le> f_max pf \<and>
     f_max pf < 2 ^ 63 \<and> sequence_number (active_header pd) + 1 \<noteq> 0"

lemma merge_readyD:
  assumes "merge_ready E opts fs child parent fs1 cd cf pd pf"
  shows "fs_resolve fs child \<noteq> fs_resolve fs parent"
    and "disk_virtual_size pd = disk_virtual_size cd" and "disk_block_size pd = disk_block_size cd"
    and "logical_sector_size (vd_metadata pd) = logical_sector_size (vd_metadata cd)"
    and "0 < logical_sector_size (vd_metadata cd)"
    and "unat b < unat (bat_block_count (vd_bat cd)) \<Longrightarrow> \<exists>r. read_block cd cf b = Inr r"
    and "image_ok pd pf"
    and "f_len pf + 1048576 + unat (bat_block_count (vd_bat cd)) * unat (disk_block_size cd) \<le> f_max pf"
    and "f_max pf < 2 ^ 63" and "sequence_number (active_header pd) + 1 \<noteq> 0"
  using assms unfolding merge_ready_def by blast+

lemma merge_ready_files:
  assumes "merge_ready E opts fs child parent fs1 cd cf pd pf"
  shows "fs_open fs1 parent = Some pf" and "fs_open fs1 child = Some cf" and "fs_resolve fs1 = fs_resolve fs"
    and "disk_wf cd" and "VhdxDisk_open E parent (Some pf) True = Inr (pd, pf)"
    and "merge_checks E fs1 child cd parent pl = Inr () \<or> parent_linkage E pl \<notin> {None, Some (data_write_guid (active_header pd))}"
proof -
  obtain fs0 where F: "repair_unless E (mo_skip_fsck opts) fs child = Inr fs0"
      "VhdxDisk_open E child (fs_open fs0 child) True = Inr (cd, cf)"
      "repair_unless E (mo_skip_fsck opts) fs0 parent = Inr fs1"
      "VhdxDisk_open E parent (fs_open fs1 parent) True = Inr (pd, pf)"
    using assms unfolding merge_ready_def merge_found_def by blast
  show "fs_resolve fs1 = fs_resolve fs"
    using repair_unless_frame(1) [OF F(1)] repair_unless_frame(1) [OF F(3)] by simp
  show pf: "fs_open fs1 parent = Some pf" by (rule open_wf(2) [OF F(4)])
  show "VhdxDisk_open E parent (Some pf) True = Inr (pd, pf)" using F(4) pf by simp
  show "disk_wf cd" by (rule open_wf(1) [OF F(2)])
  show "fs_open fs1 child = Some cf"
    using repair_unless_frame(2) [OF F(3), of child] repair_unless_frame(1) [OF F(1)] merge_readyD(1) [OF assms]
      open_wf(2) [OF F(2)] by simp
  show "merge_checks E fs1 child cd parent pl = Inr () \<or>
      parent_linkage E pl \<notin> {None, Some (data_write_guid (active_header pd))}"
    using F(4) merge_readyD(2-4) [OF assms] by (cases "parent_linkage E pl") (auto simp: merge_checks_def Let_def)
qed

lemma merge_ready_count:
  assumes "merge_ready E opts fs child parent fs1 cd cf pd pf"
  shows "bat_block_count (vd_bat cd) = bat_block_count (vd_bat pd)"
    and "disk_block_count cd = Inr (bat_block_count (vd_bat pd))"
proof -
  show n: "bat_block_count (vd_bat cd) = bat_block_count (vd_bat pd)"
    using merge_ready_files(4) [OF assms] open_wf(1) [OF merge_ready_files(5) [OF assms]] merge_readyD(2,3) [OF assms]
    by (simp add: disk_wf_def block_count_def disk_block_size_def disk_virtual_size_def split: if_splits)
  then show "disk_block_count cd = Inr (bat_block_count (vd_bat pd))"
    using disk_wf_count [OF merge_ready_files(4) [OF assms]] by simp
qed

text \<open>What the reader delivers of a block of the child.\<close>

definition child_read :: "vhdx_disk \<Rightarrow> dfile \<Rightarrow> nat \<Rightarrow> block_read" where
  "child_read cd cf k = (case read_block cd cf (word_of_nat k) of Inr r \<Rightarrow> r | Inl _ \<Rightarrow> Absent)"

lemma child_reads:
  assumes "merge_ready E opts fs child parent fs1 cd cf pd pf" and "unat b < unat (bat_block_count (vd_bat cd))"
  shows "read_block cd cf b = Inr (child_read cd cf (unat b))"
    and "length (payload_of (unat (disk_block_size cd)) (child_read cd cf (unat b))) = unat (disk_block_size cd)"
proof -
  obtain r where r: "read_block cd cf b = Inr r" using merge_readyD(6) [OF assms] by blast
  then show "read_block cd cf b = Inr (child_read cd cf (unat b))" by (simp add: child_read_def)
  then show "length (payload_of (unat (disk_block_size cd)) (child_read cd cf (unat b))) = unat (disk_block_size cd)"
    using read_block_lengths [of cd cf b] by (cases "child_read cd cf (unat b)") (auto simp: payload_of_def)
qed

abbreviation merged_content :: "vhdx_disk \<Rightarrow> dfile \<Rightarrow> vhdx_disk \<Rightarrow> dfile \<Rightarrow> nat \<Rightarrow> block_read" where
  "merged_content cd cf pd pf k \<equiv> merged (unat (disk_block_size cd)) (unat (logical_sector_size (vd_metadata cd)))
     (sectors_of cd) (child_read cd cf k) (initial_content pd pf k)"

text \<open>The loop, from the parent's file rounded up to whole MiB.\<close>

lemma merge_loop_run:
  assumes ready: "merge_ready E opts fs child parent fs1 cd cf pd pf"
  defines "n \<equiv> bat_block_count (vd_bat pd)"
  defines "wrote \<equiv> map (\<lambda>j. child_read cd cf j \<noteq> Absent) [0..<unat n]"
  obtains pf1 cur fs2 st f where "aligned_end pf = Inr (pf1, cur)"
    and "merge_loop cd child parent (ucast (disk_block_size cd)) (unat (logical_sector_size (vd_metadata cd))) (sectors_of cd)
      0 (unat n) (fs_store fs1 parent pf1, \<lparr>mg_bat = vd_bat pd, mg_cursor = cur, mg_blocks = 0, mg_sectors = 0,
        mg_events = es\<rparr>) = Inr (fs2, st)"
    and "parent_inv pd pf (\<lambda>j. if j < unat n then merged_content cd cf pd pf j else initial_content pd pf j) f st"
    and "fs_resolve fs2 = fs_resolve fs"
    and "\<And>q. fs_open fs2 q = (if fs_resolve fs q = fs_resolve fs parent then Some f else fs_open fs1 q)"
    and "mg_events st = es @ block_events MergeBlockDone (ucast (disk_block_size cd)) 0 wrote"
proof -
  let ?bs = "unat (disk_block_size cd)" and ?lss = "unat (logical_sector_size (vd_metadata cd))"
  note R = merge_readyD [OF ready] and F = merge_ready_files [OF ready]
  have n: "bat_block_count (vd_bat cd) = n" using merge_ready_count(1) [OF ready] by (simp add: n_def)
  have spb: "sectors_of pd = sectors_of cd" using R(3,4) by (simp add: sectors_of_def)
  have room1: "f_len pf + 1048576 \<le> f_max pf" using R(8) by linarith
  obtain pf1 cur where st: "aligned_end pf = Inr (pf1, cur)" "unat cur < f_len pf + 1048576" "f_max pf1 = f_max pf"
      and inv: "parent_inv pd pf (initial_content pd pf) pf1
        \<lparr>mg_bat = vd_bat pd, mg_cursor = cur, mg_blocks = 0, mg_sectors = 0, mg_events = es\<rparr>"
    using merge_start [OF R(7) open_wf(1) [OF F(5)] room1 R(9)] by blast
  let ?fs1 = "fs_store fs1 parent pf1"
  let ?st = "\<lparr>mg_bat = vd_bat pd, mg_cursor = cur, mg_blocks = 0, mg_sectors = 0, mg_events = es\<rparr>"
  have "\<exists>fs2 st f. merge_loop cd child parent (ucast (disk_block_size cd)) ?lss (sectors_of cd) 0 (unat n) (?fs1, ?st) = Inr (fs2, st) \<and>
      parent_inv pd pf
        (\<lambda>j. if unat (0 :: u64) \<le> j \<and> j < unat n then merged_content cd cf pd pf j else initial_content pd pf j) f st \<and>
      fs_resolve fs2 = fs_resolve ?fs1 \<and>
      (\<forall>q. fs_open fs2 q = (if fs_resolve ?fs1 q = fs_resolve ?fs1 parent then Some f else fs_open ?fs1 q)) \<and>
      mg_events st = mg_events ?st @ block_events MergeBlockDone (ucast (disk_block_size cd)) 0
        (map (\<lambda>j. child_read cd cf j \<noteq> Absent) [unat (0 :: u64)..<unat n])"
    unfolding n_def R(3) spb
  proof (rule merge_loop_ok [OF inv [unfolded R(3) spb]])
    show "fs_open ?fs1 parent = Some pf1" "fs_open ?fs1 child = Some cf" "fs_resolve ?fs1 child \<noteq> fs_resolve ?fs1 parent"
      using F(2,3) R(1) by (simp_all add: fs_open_store)
    show "unat (mg_cursor ?st) + unat (bat_block_count (vd_bat pd)) * ?bs \<le> f_max pf1"
      using st(2,3) R(8) n by (simp add: n_def)
    show "(0, 327680) \<in> set (reserved_of pd)" "0 < (327680 :: nat)" by simp_all
    show "sectors_of cd * ?lss \<le> ?bs" by (simp add: sectors_of_def)
    show "read_block cd cf b = Inr (child_read cd cf (unat b)) \<and> length (payload_of ?bs (child_read cd cf (unat b))) = ?bs"
      if "unat b < unat (bat_block_count (vd_bat pd))" for b
      using child_reads [OF ready, of b] that n by (simp add: n_def)
  qed simp_all
  then obtain fs2 st2 f where "merge_loop cd child parent (ucast (disk_block_size cd)) ?lss (sectors_of cd) 0 (unat n) (?fs1, ?st) = Inr (fs2, st2)"
      "parent_inv pd pf (\<lambda>j. if j < unat n then merged_content cd cf pd pf j else initial_content pd pf j) f st2"
      "fs_resolve fs2 = fs_resolve fs"
      "\<And>q. fs_open fs2 q = (if fs_resolve fs q = fs_resolve fs parent then Some f else fs_open fs1 q)"
      "mg_events st2 = es @ block_events MergeBlockDone (ucast (disk_block_size cd)) 0 wrote"
    unfolding fs_resolve_store F(3) fs_open_store wrote_def unat_0 by (simp only: merge_state.simps le0 simp_thms) (metis (no_types, lifting))
  then show ?thesis using that st(1) by blast
qed

text \<open>Removing the child, and discovering the chain of the parent again.\<close>

lemma drop_child:
  assumes "fs_open fs3 child \<noteq> None"
  obtains fs4 where "(if keep then Inr fs3 else fs_remove_file fs3 child) = Inr fs4"
    and "\<And>q. fs_open fs4 q = (if \<not> keep \<and> fs_resolve fs3 q = fs_resolve fs3 child then None else fs_open fs3 q)"
    and "fs_resolve fs4 = fs_resolve fs3"
proof (cases keep)
  case True
  then show ?thesis using that [of fs3] by simp
next
  case False
  from assms obtain fs4 where r: "fs_remove_file fs3 child = Inr fs4"
    by (auto simp: fs_remove_file_def path_exists_def)
  moreover from r have "fs_resolve fs4 = fs_resolve fs3" by (auto simp: fs_remove_file_def split: if_splits)
  ultimately show ?thesis using that [of fs4] False fs_remove_open [OF r] by simp
qed

lemma merge_less:
  assumes ready: "merge_ready E opts fs child parent fs1 cd cf pd pf"
    and o4: "\<And>q. fs_open fs4 q = (if fs_resolve fs q = fs_resolve fs parent then Some g
      else if fs_resolve fs q = fs_resolve fs child \<and> \<not> mo_keep_child opts then None else fs_open fs1 q)"
    and "path_exists fs4 q"
  shows "path_exists fs1 q"
proof -
  note F = merge_ready_files [OF ready]
  have "fs_open fs1 q = fs_open fs1 parent" if "fs_resolve fs q = fs_resolve fs parent"
    using that by (simp add: fs_open_def F(3))
  then show ?thesis using assms(3) F(1) by (auto simp: path_exists_def o4 split: if_splits)
qed

lemma merge_rediscovery:
  assumes ready: "merge_ready E opts fs child parent fs1 cd cf pd pf"
    and res: "fs_resolve fs4 = fs_resolve fs"
    and o4: "\<And>q. fs_open fs4 q = (if fs_resolve fs q = fs_resolve fs parent then Some g
      else if fs_resolve fs q = fs_resolve fs child \<and> \<not> mo_keep_child opts then None else fs_open fs1 q)"
    and g: "VhdxDisk_open E parent (Some g) True = Inr (d, g)" "vd_metadata d = vd_metadata pd"
  shows "\<exists>c. Chain_discover E fs4 parent = Inr c"
proof -
  note F = merge_ready_files [OF ready]
  obtain c where c: "Chain_discover E fs1 parent = Inr c"
      "\<forall>n\<in>set (tl (ch_nodes c)). fs_resolve fs (cn_path n) \<noteq> fs_resolve fs child"
    using ready unfolding merge_ready_def by blast
  have other: "fs_resolve fs (cn_path n) \<noteq> fs_resolve fs parent" if "n \<in> set (tl (ch_nodes c))" for n
    using discovered [OF c(1)] that by (cases "ch_nodes c") (auto simp: F(3) image_iff)
  have same: "fs_open fs4 (cn_path n) = fs_open fs1 (cn_path n)" if "n \<in> set (tl (ch_nodes c))" for n
    using other [OF that] c(2) that by (simp add: o4)
  have "VhdxDisk_open E parent (fs_open fs1 parent) True = Inr (pd, pf)" using F(1,5) by simp
  moreover have "VhdxDisk_open E parent (fs_open fs4 parent) True = Inr (d, g)" using g(1) by (simp add: o4)
  ultimately show ?thesis
    using discover_first_changed [OF c(1) _ merge_less [OF ready o4] same _ _ g(2)] res F(3) by auto
qed

text \<open>The steps put together.\<close>

lemma merge_assembled:
  assumes ready: "merge_ready E opts fs child parent fs1 cd cf pd pf"
    and start: "aligned_end pf = Inr (pf1, cur)"
    and loop: "merge_loop cd child parent (ucast (disk_block_size cd)) (unat (logical_sector_size (vd_metadata cd)))
      (sectors_of cd) 0 (unat (bat_block_count (vd_bat pd))) (fs_store fs1 parent pf1,
        \<lparr>mg_bat = vd_bat pd, mg_cursor = cur, mg_blocks = 0, mg_sectors = 0, mg_events =
          [MergeStarted (bat_block_count (vd_bat pd)) (disk_block_size cd)
            (saturating_mul (bat_block_count (vd_bat pd)) (ucast (disk_block_size cd)))]\<rparr>) = Inr (fs2, st)"
    and "fs_open fs2 parent = Some f"
    and "write_parent E g1 g2 (vd_header_pair pd) (vd_bat_region pd) (mg_bat st) f = Inr g"
    and "(if mo_keep_child opts then Inr (fs_store fs2 parent g) else fs_remove_file (fs_store fs2 parent g) child) = Inr fs4"
    and "Chain_discover E fs4 parent = Inr c"
  shows "merge E g1 g2 fs child opts = Inr (fs4, \<lparr>mr_child = child, mr_parent = parent, mr_blocks_copied = mg_blocks st,
    mr_partial_sectors_copied = mg_sectors st, mr_deleted_child = (\<not> mo_keep_child opts)\<rparr>,
    mg_events st @ [MergeFinished])"
proof -
  note F = merge_ready_files [OF ready]
  obtain fs0 pl where P: "repair_unless E (mo_skip_fsck opts) fs child = Inr fs0"
      "VhdxDisk_open E child (fs_open fs0 child) True = Inr (cd, cf)" "disk_has_parent cd"
      "md_parent_locator (vd_metadata cd) = Some pl" "resolve_parent fs0 child pl = Some parent"
      "repair_unless E (mo_skip_fsck opts) fs0 parent = Inr fs1"
      "parent_linkage E pl \<in> {None, Some (data_write_guid (active_header pd))}"
    using ready unfolding merge_ready_def merge_found_def by blast
  have checks: "merge_checks E fs1 child cd parent pl = Inr ()" using F(6) P(7) by blast
  have rd: "read_parent E pf = Inr (vd_header_pair pd, vd_bat_region pd, vd_bat pd)" by (rule read_parent_open [OF F(5)])
  have lss: "(ucast (logical_sector_size (vd_metadata cd)) :: u64) \<noteq> 0"
    using merge_readyD(5) [OF ready] by (simp add: word_less_nat_alt flip: unat_gt_0)
  have spb: "unat ((ucast (disk_block_size cd) :: u64) div ucast (logical_sector_size (vd_metadata cd))) = sectors_of cd"
    by (simp add: unat_div sectors_of_def)
  have bs: "ucast (ucast (disk_block_size cd) :: u64) = disk_block_size cd"
    by (rule bit_word_eqI) (simp add: bit_ucast_iff)
  show ?thesis
    using P(1-6) checks F(1) rd start merge_ready_count(2) [OF ready] lss loop assms(4-7)
    by (simp add: merge_def Let_def spb bs on_file_def)
qed

lemma merge_ok:
  fixes g1 g2 :: uuid
  assumes E: "uuid_laws E" and ready: "merge_ready E opts fs child parent fs1 cd cf pd pf"
  shows "\<exists>fs' rep wrote g. merge E g1 g2 fs child opts =
      Inr (fs', rep, merge_events (bat_block_count (vd_bat pd)) (disk_block_size cd) wrote) \<and>
    wrote = map (\<lambda>j. child_read cd cf j \<noteq> Absent) [0..<unat (bat_block_count (vd_bat pd))] \<and>
    mr_parent rep = parent \<and> mr_deleted_child rep = (\<not> mo_keep_child opts) \<and> fs_resolve fs' = fs_resolve fs \<and>
    (\<forall>q. fs_open fs' q = (if fs_resolve fs q = fs_resolve fs parent then Some g
      else if fs_resolve fs q = fs_resolve fs child \<and> \<not> mo_keep_child opts then None else fs_open fs1 q)) \<and>
    (\<forall>q ro. \<exists>d. VhdxDisk_open E q (Some g) ro = Inr (d, g) \<and> vd_metadata d = vd_metadata pd \<and>
      data_write_guid (active_header d) = g1 \<and>
      (\<forall>b. unat b < unat (bat_block_count (vd_bat pd)) \<longrightarrow>
        read_block d g b = Inr (merged_content cd cf pd pf (unat b))))"
proof -
  let ?n = "bat_block_count (vd_bat pd)" and ?bs = "disk_block_size cd"
  let ?es = "[MergeStarted ?n ?bs (saturating_mul ?n (ucast ?bs))]"
  let ?wrote = "map (\<lambda>j. child_read cd cf j \<noteq> Absent) [0..<unat ?n]"
  note R = merge_readyD [OF ready] and F = merge_ready_files [OF ready]
  obtain pf1 cur fs2 st f where start: "aligned_end pf = Inr (pf1, cur)"
    and loop: "merge_loop cd child parent (ucast ?bs) (unat (logical_sector_size (vd_metadata cd))) (sectors_of cd)
      0 (unat ?n) (fs_store fs1 parent pf1, \<lparr>mg_bat = vd_bat pd, mg_cursor = cur, mg_blocks = 0, mg_sectors = 0,
        mg_events = ?es\<rparr>) = Inr (fs2, st)"
    and inv: "parent_inv pd pf (\<lambda>j. if j < unat ?n then merged_content cd cf pd pf j else initial_content pd pf j) f st"
    and fs2: "fs_resolve fs2 = fs_resolve fs"
      "\<And>q. fs_open fs2 q = (if fs_resolve fs q = fs_resolve fs parent then Some f else fs_open fs1 q)"
    and evs: "mg_events st = ?es @ block_events MergeBlockDone (ucast ?bs) 0 ?wrote"
    by (rule merge_loop_run [OF ready]) (rule that)
  have seq: "sequence_number (HeaderPair_active (vd_header_pair pd)) + 1 \<noteq> 0" using R(10) by (simp add: active_header_def)
  obtain g where wp: "write_parent E g1 g2 (vd_header_pair pd) (vd_bat_region pd) (mg_bat st) f = Inr g"
    and g: "\<And>q ro. \<exists>d. VhdxDisk_open E q (Some g) ro = Inr (d, g) \<and> vd_metadata d = vd_metadata pd \<and>
      data_write_guid (active_header d) = g1 \<and>
      (\<forall>b. unat b < unat ?n \<longrightarrow> read_block d g b = Inr (merged_content cd cf pd pf (unat b)))"
    using write_parent_ok [OF E F(5) R(7) inv seq, of g1 g2] by auto
  let ?fs3 = "fs_store fs2 parent g"
  have o3: "fs_open ?fs3 q = (if fs_resolve fs q = fs_resolve fs parent then Some g else fs_open fs1 q)" for q
    by (simp add: fs_open_store fs2)
  have "fs_open ?fs3 child \<noteq> None" using F(2) R(1) by (simp add: o3)
  then obtain fs4 where fs4: "(if mo_keep_child opts then Inr ?fs3 else fs_remove_file ?fs3 child) = Inr fs4"
      "fs_resolve fs4 = fs_resolve fs"
    and "\<And>q. fs_open fs4 q = (if \<not> mo_keep_child opts \<and> fs_resolve ?fs3 q = fs_resolve ?fs3 child then None
      else fs_open ?fs3 q)"
    by (rule drop_child) (use that fs2(1) in auto)
  then have o4: "fs_open fs4 q = (if fs_resolve fs q = fs_resolve fs parent then Some g
      else if fs_resolve fs q = fs_resolve fs child \<and> \<not> mo_keep_child opts then None else fs_open fs1 q)" for q
    using R(1) by (simp add: o3 fs2(1))
  obtain c where disc: "Chain_discover E fs4 parent = Inr c"
    using g [of parent True] merge_rediscovery [OF ready fs4(2) o4] by blast
  have run: "merge E g1 g2 fs child opts = Inr (fs4, \<lparr>mr_child = child, mr_parent = parent, mr_blocks_copied = mg_blocks st,
      mr_partial_sectors_copied = mg_sectors st, mr_deleted_child = (\<not> mo_keep_child opts)\<rparr>,
      merge_events ?n ?bs ?wrote)"
    using merge_assembled [OF ready start loop _ wp fs4(1) disc] by (simp add: fs2(2) evs merge_events_def)
  show ?thesis
    using run g o4 fs4(2) by (intro exI [of _ fs4] exI [of _ ?wrote] exI [of _ g] exI conjI) (assumption | simp)+
qed

section \<open>The view through the chain\<close>

lemma link_content_block:
  assumes "unat b < link_count l" and "link_read l b = Inr r" and "lo < link_size l"
  shows "link_content l sz (unat b * link_size l + lo) = sector_in sz r lo"
  using assms by (simp add: link_content_def)

text \<open>Block \<open>k\<close> of a child hides what the links below have: it is partial and the parent's is not full.\<close>

definition block_hides :: "vhdx_disk \<times> dfile \<Rightarrow> vhdx_disk \<times> dfile \<Rightarrow> nat \<Rightarrow> bool" where
  "block_hides c p k \<longleftrightarrow> (case (link_read c (word_of_nat k), link_read p (word_of_nat k)) of
     (Inr r, Inr q) \<Rightarrow> hides r q
   | _ \<Rightarrow> False)"

lemma merged_view:
  assumes k: "k < n" "n < 2 ^ 64" and s: "s < bs div sz" and sz: "0 < sz"
    and geo: "\<And>l. l \<in> {c, p, m} \<Longrightarrow> link_count l = n \<and> link_size l = bs"
    and r: "link_read c (word_of_nat k) = Inr r" "length (payload_of bs r) = bs"
    and q: "link_read p (word_of_nat k) = Inr q" "length (base_of bs q) = bs"
    and x: "link_read m (word_of_nat k) = Inr (merged bs sz (bs div sz) r q)"
  shows "chain_sector (m # rest) sz (k * bs + s * sz) =
    (if link_content c sz (k * bs + s * sz) = None \<and> block_hides c p k then replicate sz 0
     else chain_sector (c # p # rest) sz (k * bs + s * sz))"
proof -
  have b: "unat (word_of_nat k :: u64) = k" using k by (intro unat_of_nat_u64) simp
  have "Suc s * sz \<le> bs" using s mult_le_mono1 [of "Suc s" "bs div sz" sz] div_times_less_eq_dividend [of bs sz] by linarith
  then have lo: "s * sz < bs" using sz by simp
  have content: "link_content l sz (k * bs + s * sz) = sector_in sz y (s * sz)"
    if "l \<in> {c, p, m}" "link_read l (word_of_nat k) = Inr y" for l y
    using link_content_block [of "word_of_nat k" l y "s * sz" sz] that geo k b lo by simp
  have "sector_in sz (merged bs sz (bs div sz) r q) (s * sz) =
      (case sector_in sz r (s * sz) of Some y \<Rightarrow> Some y
       | None \<Rightarrow> if hides r q then Some (replicate sz 0) else sector_in sz q (s * sz))"
    using sz s r(2) q(2) by (intro merged_sectors) simp_all
  then show ?thesis
    using content [OF _ r(1)] content [OF _ q(1)] content [OF _ x]
    by (auto simp: block_hides_def r q split: option.splits)
qed

lemma merge_view:
  fixes g1 g2 :: uuid and cd :: vhdx_disk
  defines "n \<equiv> unat (bat_block_count (vd_bat cd))" and "bs \<equiv> unat (disk_block_size cd)"
    and "sz \<equiv> unat (logical_sector_size (vd_metadata cd))"
  assumes "uuid_laws E" and "merge_ready E opts fs child parent fs1 cd cf pd pf"
  shows "\<exists>fs' rep evs g. merge E g1 g2 fs child opts = Inr (fs', rep, evs) \<and>
    mr_parent rep = parent \<and> mr_deleted_child rep = (\<not> mo_keep_child opts) \<and> fs_resolve fs' = fs_resolve fs \<and>
    (\<forall>q. fs_open fs' q = (if fs_resolve fs q = fs_resolve fs parent then Some g
      else if fs_resolve fs q = fs_resolve fs child \<and> \<not> mo_keep_child opts then None else fs_open fs1 q)) \<and>
    (\<forall>q ro. \<exists>d. VhdxDisk_open E q (Some g) ro = Inr (d, g) \<and> vd_metadata d = vd_metadata pd \<and>
      data_write_guid (active_header d) = g1 \<and>
      (\<forall>k < n. \<forall>s < bs div sz. \<forall>rest.
        chain_sector ((d, g) # rest) sz (k * bs + s * sz) =
          (if link_content (cd, cf) sz (k * bs + s * sz) = None \<and> block_hides (cd, cf) (pd, pf) k
           then replicate sz 0
           else chain_sector ((cd, cf) # (pd, pf) # rest) sz (k * bs + s * sz))))"
proof -
  note R = merge_readyD [OF assms(5)] and F = merge_ready_files [OF assms(5)] and N = merge_ready_count(1) [OF assms(5)]
  obtain fs' rep wrote g where run: "merge E g1 g2 fs child opts =
        Inr (fs', rep, merge_events (bat_block_count (vd_bat pd)) (disk_block_size cd) wrote)"
      "mr_parent rep = parent" "mr_deleted_child rep = (\<not> mo_keep_child opts)" "fs_resolve fs' = fs_resolve fs"
      "\<forall>q. fs_open fs' q = (if fs_resolve fs q = fs_resolve fs parent then Some g
        else if fs_resolve fs q = fs_resolve fs child \<and> \<not> mo_keep_child opts then None else fs_open fs1 q)"
    and g: "\<And>q ro. \<exists>d. VhdxDisk_open E q (Some g) ro = Inr (d, g) \<and> vd_metadata d = vd_metadata pd \<and>
      data_write_guid (active_header d) = g1 \<and>
      (\<forall>b. unat b < unat (bat_block_count (vd_bat pd)) \<longrightarrow>
        read_block d g b = Inr (merged_content cd cf pd pf (unat b)))"
    using merge_ok [OF assms(4,5), of g1 g2] by blast
  have view: "chain_sector ((d, g) # rest) sz (k * bs + s * sz) =
      (if link_content (cd, cf) sz (k * bs + s * sz) = None \<and> block_hides (cd, cf) (pd, pf) k then replicate sz 0
       else chain_sector ((cd, cf) # (pd, pf) # rest) sz (k * bs + s * sz))"
    if d: "VhdxDisk_open E q (Some g) ro = Inr (d, g)" "vd_metadata d = vd_metadata pd"
      and blocks: "\<forall>b. unat b < unat (bat_block_count (vd_bat pd)) \<longrightarrow>
        read_block d g b = Inr (merged_content cd cf pd pf (unat b))"
      and k: "k < n" and s: "s < bs div sz" for d q ro k s rest
  proof (rule merged_view [OF k _ s])
    have lt: "n < 2 ^ 64" using unat_u64_lt [of "bat_block_count (vd_bat cd)"] by (simp add: n_def)
    then show "n < 2 ^ 64" .
    have b: "unat (word_of_nat k :: u64) = k" using k lt by (intro unat_of_nat_u64) simp
    have kp: "unat (word_of_nat k :: u64) < unat (bat_block_count (vd_bat pd))" using k b N by (simp add: n_def)
    show "0 < sz" using R(5) by (simp add: sz_def word_less_nat_alt)
    have wf: "disk_wf pd" "disk_wf d" using open_wf(1) F(5) d(1) by blast+
    show "link_count l = n \<and> link_size l = bs" if "l \<in> {(cd, cf), (pd, pf), (d, g)}" for l
      using that wf d(2) N R(3)
      by (auto simp: link_count_def link_size_def n_def bs_def disk_wf_def block_count_def disk_block_size_def split: if_splits)
    show "link_read (cd, cf) (word_of_nat k) = Inr (child_read cd cf k)"
        "length (payload_of bs (child_read cd cf k)) = bs"
      using child_reads [OF assms(5), of "word_of_nat k"] k b by (simp_all add: n_def link_read_def bs_def)
    show "link_read (pd, pf) (word_of_nat k) = Inr (initial_content pd pf k)"
      using image_reads [OF R(7) wf(1) _ kp] R(8,9) b by (simp add: link_read_def)
    show "length (base_of bs (initial_content pd pf k)) = bs"
      using content_at_length [OF initial_content_at [OF R(7)], of k] kp b R(3)
      by (auto simp: base_of_def bs_def split: block_read.split)
    show "link_read (d, g) (word_of_nat k) = Inr (merged bs sz (bs div sz) (child_read cd cf k) (initial_content pd pf k))"
      using blocks kp b by (simp add: link_read_def bs_def sz_def sectors_of_def)
  qed
  have "\<exists>d. VhdxDisk_open E q (Some g) ro = Inr (d, g) \<and> vd_metadata d = vd_metadata pd \<and>
      data_write_guid (active_header d) = g1 \<and>
      (\<forall>k < n. \<forall>s < bs div sz. \<forall>rest. chain_sector ((d, g) # rest) sz (k * bs + s * sz) =
        (if link_content (cd, cf) sz (k * bs + s * sz) = None \<and> block_hides (cd, cf) (pd, pf) k then replicate sz 0
         else chain_sector ((cd, cf) # (pd, pf) # rest) sz (k * bs + s * sz)))" for q ro
    using g [of q ro] view by blast
  then show ?thesis using run by blast
qed

text \<open>
  C3 (merging keeps what the chain shows): when the circumstances are those of \<open>merge_ready\<close>, a
  merge succeeds.  The parent's path then holds a disk with the old metadata and a new data
  GUID, which over any links below shows in every sector what child and parent showed over
  them, but for sectors of a partial block that the child does not have, where the parent's
  block is not fully present: these are zero.  The child is gone unless it was to be kept, and
  no other file has changed since the repairs.
\<close>

theorem merge_keeps_child_view:
  fixes g1 g2 :: uuid and cd :: vhdx_disk
  defines "n \<equiv> unat (bat_block_count (vd_bat cd))" and "bs \<equiv> unat (disk_block_size cd)"
    and "sz \<equiv> unat (logical_sector_size (vd_metadata cd))"
  assumes "uuid_laws E" and "merge_ready E opts fs child parent fs1 cd cf pd pf"
  shows "\<exists>fs' rep evs g. merge E g1 g2 fs child opts = Inr (fs', rep, evs) \<and>
    mr_parent rep = parent \<and> mr_deleted_child rep = (\<not> mo_keep_child opts) \<and>
    (\<forall>q. fs_open fs' q = (if fs_resolve fs q = fs_resolve fs parent then Some g
      else if fs_resolve fs q = fs_resolve fs child \<and> \<not> mo_keep_child opts then None else fs_open fs1 q)) \<and>
    (\<forall>q ro. \<exists>d. VhdxDisk_open E q (Some g) ro = Inr (d, g) \<and> vd_metadata d = vd_metadata pd \<and>
      data_write_guid (active_header d) = g1 \<and>
      (\<forall>k < n. \<forall>s < bs div sz. \<forall>rest.
        chain_sector ((d, g) # rest) sz (k * bs + s * sz) =
          (if link_content (cd, cf) sz (k * bs + s * sz) = None \<and> block_hides (cd, cf) (pd, pf) k
           then replicate sz 0
           else chain_sector ((cd, cf) # (pd, pf) # rest) sz (k * bs + s * sz))))"
  using merge_view [OF assms(4,5)] unfolding n_def bs_def sz_def by blast

section \<open>A concrete merge\<close>

lemma discover_root:
  assumes "VhdxDisk_open E p (fs_open fs p) True = Inr (d, f)" and "\<not> disk_has_parent d"
  shows "Chain_discover E fs p = Inr \<lparr>ch_leaf_path = p, ch_nodes = [node_of p d]\<rparr>"
  using assms by (simp add: Chain_discover_def discover_loop.simps [of E fs _ p] Let_def node_of_def)

lemma small_image_region:
  assumes "VhdxDisk_open ref_externs q (Some (small_image s0 s1 payload)) ro = Inr (d, small_image s0 s1 payload)"
    and "f_len (small_image s0 s1 payload) \<noteq> 0"
  shows "re_file_offset (vd_bat_region d) = 3145728" "re_length (vd_bat_region d) = 1048576"
    "re_file_offset (vd_metadata_region d) = 2097152" "re_length (vd_metadata_region d) = 1048576"
proof -
  have "vd_region d = sample_regions\<lparr>rt_checksum_ok := True\<rparr>"
    using small_image_regions [OF assms(2)] open_steps(3,4) [OF assms(1)] by auto
  moreover have "RegionTable_bat (sample_regions\<lparr>rt_checksum_ok := True\<rparr>) = Some
      \<lparr>re_guid = REGION_GUID_BAT, re_file_offset = 3145728, re_length = 1048576, re_required = True\<rparr>"
    "RegionTable_metadata (sample_regions\<lparr>rt_checksum_ok := True\<rparr>) = Some
      \<lparr>re_guid = REGION_GUID_METADATA, re_file_offset = 2097152, re_length = 1048576, re_required = True\<rparr>"
    by (simp_all add: RegionTable_bat_def RegionTable_metadata_def RegionTable_find_def sample_regions_def
        REGION_GUID_BAT_def REGION_GUID_METADATA_def)
  ultimately have "vd_bat_region d =
      \<lparr>re_guid = REGION_GUID_BAT, re_file_offset = 3145728, re_length = 1048576, re_required = True\<rparr>"
    "vd_metadata_region d =
      \<lparr>re_guid = REGION_GUID_METADATA, re_file_offset = 2097152, re_length = 1048576, re_required = True\<rparr>"
    using open_parts(1,2) [OF assms(1)] by simp_all
  then show "re_file_offset (vd_bat_region d) = 3145728" "re_length (vd_bat_region d) = 1048576"
    "re_file_offset (vd_metadata_region d) = 2097152" "re_length (vd_metadata_region d) = 1048576"
    by simp_all
qed

lemma small_image_ok:
  assumes "vd_bat d = \<lparr>bat_entries = [BatEntry_new 6 4194304, BatEntry_new 2 5242880], bat_chunk_ratio = 4096,
      bat_block_count = 2\<rparr>" and "vd_metadata d = small_metadata False"
    and "re_file_offset (vd_bat_region d) = 3145728" "re_length (vd_bat_region d) = 1048576"
    and "re_file_offset (vd_metadata_region d) = 2097152" "re_length (vd_metadata_region d) = 1048576"
    and "f_len f = 8388608"
  shows "image_ok d f"
proof -
  have bs: "unat (disk_block_size d) = 1048576" by (simp add: disk_block_size_def assms(2) small_metadata_def block_size_def)
  have two: "(\<forall>k < Suc (Suc 0). P k) \<longleftrightarrow> P 0 \<and> P (Suc 0)" for P :: "nat \<Rightarrow> bool" by (auto simp: less_Suc_eq)
  have e: "entry_of (vd_bat d) 0 = BatEntry_new 6 4194304" "entry_of (vd_bat d) (Suc 0) = BatEntry_new 2 5242880"
    by (simp_all add: assms(1) entry_of_def nat_payload_index_def)
  have st: "is_present (BatEntry_new 6 4194304)" "PayloadState_from_raw (entry_state (BatEntry_new 2 5242880)) = Zero"
      "off_of (BatEntry_new 6 4194304) = 4194304"
    by (simp_all add: entry_state_new entry_file_offset_new PayloadState_from_raw_def block_state_defs)
  have t: "table_ok 4096 2 (Suc (Suc 0)) (vd_bat d)"
    unfolding table_ok_def by (auto simp: assms(1) has_payload_def index_ok_def nat_payload_index_def)
  have n: "unat (bat_block_count (vd_bat d)) = Suc (Suc 0)" by (simp add: assms(1))
  have np: "\<not> is_partial (BatEntry_new 6 4194304)" "\<not> is_partial (BatEntry_new 2 5242880)"
    using st(1,2) by simp_all
  have maps: "bitmaps_of d = []"
    unfolding bitmaps_of_def n by (simp add: e np upt_rec)
  have res: "table_range d = (3145728, 1048576)" "metadata_range d = (2097152, 1048576)"
      "reserved_of d = [(0, 327680), (3145728, 1048576), (2097152, 1048576)]"
    by (simp_all add: reserved_of_def table_range_def metadata_range_def maps assms(3-6))
  have "payload_ok 1048576 (Suc (Suc 0)) (reserved_of d) (vd_bat d) (f_len f)"
    unfolding payload_ok_def two e res assms(7) by (simp add: st np apart_def)
  moreover have "\<forall>k < Suc (Suc 0). content_at 1048576 (sectors_of d) f (vd_bat d) k \<noteq> None"
    unfolding two content_at_def e by (simp add: block_content_def st np)
  moreover have "total_bat_entries 2 4096 (disk_has_parent d) = Inr 2"
    by (simp add: total_bat_entries_def Let_def disk_has_parent_def assms(2) small_metadata_def)
  ultimately show ?thesis
    unfolding image_ok_def Let_def bs n maps res using t by (simp add: assms apart_def)
qed

lemma small_image_active:
  assumes "VhdxDisk_open ref_externs q (Some (small_image s0 s1 payload)) ro = Inr (d, small_image s0 s1 payload)"
    and "f_len (small_image s0 s1 payload) \<noteq> 0"
  shows "data_write_guid (active_header d) = nil_uuid" "sequence_number (active_header d) = 2"
proof -
  let ?f = "small_image s0 s1 payload"
  obtain regions where r: "RegionTable_encode ref_externs sample_regions = Inr regions" "length regions = 65536"
    using region_table_roundtrip_parse [OF ref_uuid_laws, of sample_regions] by auto
  obtain md where img: "?f = sample_image ref_externs regions md (small_bat_raw s0 s1) payload"
    using assms(2) r(1) by (auto simp: small_image_def blank_file_def split: sum.splits)
  define g where "g = patch (patch (patch (blank_file 8388608)
      0 FILE_TYPE_SIGNATURE) 65536 (Header_encode ref_externs (sample_header 1)))
      131072 (Header_encode ref_externs (sample_header 2))"
  have g: "f_len g = 8388608" "file_bytes g 65536 65536 = Header_encode ref_externs (sample_header 1)"
      "file_bytes g 131072 65536 = Header_encode ref_externs (sample_header 2)"
    using ref_uuid_laws by (simp_all add: g_def blank_file_def file_bytes_patch_same file_bytes_patch_other)
  have "file_bytes (patch h o1 bs) o2 65536 = file_bytes h o2 65536"
    if "8388608 \<le> f_len h" "o2 + 65536 \<le> o1" "o1 \<le> 4194304" for h o1 o2 bs
    using that by (intro file_bytes_patch_other) auto
  then have "file_bytes ?f 65536 65536 = Header_encode ref_externs (sample_header 1)"
      "file_bytes ?f 131072 65536 = Header_encode ref_externs (sample_header 2)"
    unfolding img sample_image_def g_def [symmetric] using g by (simp_all add: patch_longer del: f_len_patch)
  then have s: "slot ref_externs ?f 0 = stamped ref_externs (sample_header 1)"
      "slot ref_externs ?f (Suc 0) = stamped ref_externs (sample_header 2)"
    by (simp_all add: slot_def header_roundtrip_parse ref_uuid_laws)
  have "has_slots ?f"
    unfolding img sample_image_def g_def [symmetric] has_slots_def by (intro patch_longer) (simp add: g)
  then have "\<exists>hp. HeaderPair_read ref_externs ?f = Inr hp \<and> HeaderPair_active hp = stamped ref_externs (sample_header 2)"
    by (simp add: HeaderPair_read_slots s HeaderPair_active_def word_le_nat_alt)
  then have "active_header d = stamped ref_externs (sample_header 2)"
    using open_steps(2) [OF assms(1)] by (auto simp: active_header_def)
  then show "data_write_guid (active_header d) = nil_uuid" "sequence_number (active_header d) = 2"
    by (simp_all add: stamped_def sample_header_def blank_header_def)
qed

text \<open>The room a file has does not matter to a reader.\<close>

lemma read_more_room: "read_exact_at (f\<lparr>f_max := m\<rparr>) off n = read_exact_at f off n"
  by (simp add: read_exact_at_def seek_def file_bytes_def)

lemma open_more_room:
  assumes "VhdxDisk_open E q (Some f) True = Inr (d, f)"
  shows "\<exists>d'. VhdxDisk_open E q (Some (f\<lparr>f_max := m\<rparr>)) True = Inr (d', f\<lparr>f_max := m\<rparr>) \<and> vd_metadata d' = vd_metadata d \<and>
    vd_bat d' = vd_bat d \<and> active_header d' = active_header d \<and> vd_bat_region d' = vd_bat_region d \<and>
    vd_metadata_region d' = vd_metadata_region d"
proof -
  note r = read_more_room
  have "verify_file_type (f\<lparr>f_max := m\<rparr>) = verify_file_type f" "HeaderPair_read E (f\<lparr>f_max := m\<rparr>) = HeaderPair_read E f"
      "RegionTablePair_read E (f\<lparr>f_max := m\<rparr>) = RegionTablePair_read E f"
    by (simp_all add: verify_file_type_def HeaderPair_read_def RegionTablePair_read_def r)
  moreover obtain buf where "read_exact_at f (re_file_offset (vd_bat_region d)) (unat (re_length (vd_bat_region d))) = Inr buf"
      "Bat_parse buf (bat_block_count (vd_bat d)) (bat_chunk_ratio (vd_bat d)) (disk_has_parent d) = Inr (vd_bat d)"
    using open_parts(4) [OF assms] by blast
  ultimately have "VhdxDisk_open E q (Some (f\<lparr>f_max := m\<rparr>)) True = Inr (d\<lparr>vd_path := q, vd_read_only := True,
      vd_header_pair := vd_header_pair d, vd_bat := vd_bat d, vd_file_len := f_len f\<rparr>, f\<lparr>f_max := m\<rparr>)"
    using open_changed [OF assms, of "f\<lparr>f_max := m\<rparr>" "vd_header_pair d" buf "vd_bat d" True q] open_steps(2) [OF assms]
    by (simp add: r)
  then show ?thesis by (auto simp: active_header_def)
qed
definition merge_child_params :: writer_params where
  "merge_child_params = (child_params ref_externs nil_uuid)\<lparr>wp_virtual_disk_size := 2097152\<rparr>"

text \<open>A child of two blocks, of which it has the second.\<close>

lemma merge_child_file:
  obtains f where "\<And>q ro. \<exists>d. VhdxDisk_open ref_externs q (Some f) ro = Inr (d, f) \<and>
    vd_metadata d = writer_metadata merge_child_params \<and> disk_block_count d = Inr 2 \<and>
    read_block d f 0 = Inr Absent \<and> read_block d f 1 = Inr (Full (replicate 1048576 9))"
proof -
  let ?p = merge_child_params
  have ok: "params_ok ref_externs ?p"
    using child_params_ok [of nil_uuid] by (simp add: merge_child_params_def params_ok_def child_params_def small_params_def)
  have lay: "lay_count ?p = 2" "unat (lay_payload_start ?p) \<le> 4194304" "wp_block_size ?p = 1048576" "\<not> wp_fixed ?p"
    by (simp_all add: merge_child_params_def child_params_def lay_count_def lay_payload_start_def lay_bat_offset_def
        lay_metadata_offset_def lay_bat_length_def lay_total_def lay_ratio_def small_params_def div_ceil_def
        align_up_def offset_defs nat_payload_index_def nat_bitmap_index_def push_bit_eq_mult Let_def max_def
        word_le_nat_alt)
  let ?ws = "[(1 :: u64, SrcBuf (replicate 1048576 9))]"
  obtain f where f: "\<And>q ro. \<exists>d. VhdxDisk_open ref_externs q (Some f) ro = Inr (d, f) \<and> vd_metadata d = writer_metadata ?p \<and>
      data_write_guid (active_header d) = wp_data_write_guid ?p \<and> disk_block_count d = Inr (lay_count ?p) \<and>
      (\<forall>b. unat b < unat (lay_count ?p) \<longrightarrow> read_block d f b = Inr (expected_block ?p (last_sources ?ws (unat b))))"
    using session_file [OF ok lay(4), of ?ws] lay by (auto simp: source_ok_def)
  show ?thesis
  proof (rule that [of f])
    fix q ro
    obtain d where d: "VhdxDisk_open ref_externs q (Some f) ro = Inr (d, f)" "vd_metadata d = writer_metadata ?p"
        "disk_block_count d = Inr (lay_count ?p)"
        "\<forall>b. unat b < unat (lay_count ?p) \<longrightarrow> read_block d f b = Inr (expected_block ?p (last_sources ?ws (unat b)))"
      using f by blast
    have "read_block d f 0 = Inr Absent" "read_block d f 1 = Inr (Full (replicate 1048576 9))"
      using d(4) [rule_format, of 0] d(4) [rule_format, of 1] by (simp_all add: lay last_sources_def expected_block_def)
    with d show "\<exists>d. VhdxDisk_open ref_externs q (Some f) ro = Inr (d, f) \<and>
        vd_metadata d = writer_metadata ?p \<and> disk_block_count d = Inr 2 \<and>
        read_block d f 0 = Inr Absent \<and> read_block d f 1 = Inr (Full (replicate 1048576 9))"
      by (intro exI [of _ d]) (simp add: lay)
  qed
qed

text \<open>The two disks of the directory \<open>/d\<close>, as far as the metadata tell.\<close>

lemma leaf_facts:
  assumes "vd_metadata cd = writer_metadata merge_child_params"
  shows "disk_has_parent cd"
    and "md_parent_locator (vd_metadata cd) = Some (new_vhdx_relative ref_externs (str ''base.vhdx'') nil_uuid)"
    and "disk_virtual_size cd = 2097152" and "disk_block_size cd = 1048576"
    and "logical_sector_size (vd_metadata cd) = 512" and "physical_sector_size (vd_metadata cd) = 4096"
    and "page_83_data (vd_metadata cd) = 13"
  by (simp_all add: assms disk_has_parent_def disk_virtual_size_def disk_block_size_def writer_metadata_def
      merge_child_params_def child_params_def small_params_def block_size_def)

lemma two_blocks_read:
  assumes "bat_block_count (vd_bat d) = 2" and "read_block d f 0 = Inr r0" and "read_block d f 1 = Inr r1"
    and "unat b < unat (bat_block_count (vd_bat d))"
  shows "\<exists>r. read_block d f b = Inr r"
proof -
  have "b = 0 \<or> b = 1" using assms(1,4) by (auto simp: word_unat_eq_iff)
  then show ?thesis using assms(2,3) by blast
qed

lemma merge_parent_file:
  obtains f where "f_len f = 8388608" and "f_max f = 16777216"
    and "\<And>q. \<exists>d. VhdxDisk_open ref_externs q (Some f) True = Inr (d, f) \<and> vd_metadata d = small_metadata False \<and>
      data_write_guid (active_header d) = nil_uuid \<and> sequence_number (active_header d) = 2 \<and> image_ok d f \<and>
      read_block d f 0 = Inr (Full (replicate 1048576 7))"
proof -
  define f where "f = small_image 6 2 (replicate 1048576 7)"
  have pay: "read_exact_at f 4194304 1048576 = Inr (replicate 1048576 7)"
    using small_image_open(2) [of "replicate 1048576 7" 6 2] unfolding f_def by simp
  have len: "f_len f = 8388608"
    using small_image_len [of 6 2 "replicate 1048576 7"] pay unfolding f_def [symmetric] by (auto simp: read_exact_at_ok)
  show ?thesis
  proof (rule that [of "f\<lparr>f_max := 16777216\<rparr>"])
    show "f_len (f\<lparr>f_max := 16777216\<rparr>) = 8388608" "f_max (f\<lparr>f_max := 16777216\<rparr>) = 16777216" using len by simp_all
    fix q
    obtain d where d: "VhdxDisk_open ref_externs q (Some f) True = Inr (d, f)" "vd_metadata d = small_metadata False"
        "vd_bat d = \<lparr>bat_entries = [BatEntry_new 6 4194304, BatEntry_new 2 5242880], bat_chunk_ratio = 4096, bat_block_count = 2\<rparr>"
      using small_image_open(1) [of "replicate 1048576 7" q 6 2 True] unfolding f_def [symmetric] by auto
    have nz: "f_len f \<noteq> 0" using len by simp
    note region = small_image_region [of q 6 2 "replicate 1048576 7" True d, folded f_def, OF d(1) nz]
    note active = small_image_active [of q 6 2 "replicate 1048576 7" True d, folded f_def, OF d(1) nz]
    obtain d' where d': "VhdxDisk_open ref_externs q (Some (f\<lparr>f_max := 16777216\<rparr>)) True = Inr (d', f\<lparr>f_max := 16777216\<rparr>)"
        "vd_metadata d' = vd_metadata d" "vd_bat d' = vd_bat d" "active_header d' = active_header d"
        "vd_bat_region d' = vd_bat_region d" "vd_metadata_region d' = vd_metadata_region d"
      using open_more_room [OF d(1), of 16777216] by blast
    have "read_exact_at (f\<lparr>f_max := 16777216\<rparr>) 4194304 1048576 = Inr (replicate 1048576 7)"
      using pay by (simp only: read_more_room)
    then have "read_block d' (f\<lparr>f_max := 16777216\<rparr>) 0 = Inr (Full (replicate 1048576 7))"
      using small_disk_read(3) [OF d'(2) [unfolded d(2)] d'(3) [unfolded d(3)]]
      by (simp add: PayloadState_from_raw_def block_state_defs)
    moreover have "image_ok d' (f\<lparr>f_max := 16777216\<rparr>)"
      by (rule small_image_ok) (use d d' region len in simp_all)
    ultimately show "\<exists>d. VhdxDisk_open ref_externs q (Some (f\<lparr>f_max := 16777216\<rparr>)) True = Inr (d, f\<lparr>f_max := 16777216\<rparr>) \<and>
        vd_metadata d = small_metadata False \<and> data_write_guid (active_header d) = nil_uuid \<and>
        sequence_number (active_header d) = 2 \<and> image_ok d (f\<lparr>f_max := 16777216\<rparr>) \<and>
        read_block d (f\<lparr>f_max := 16777216\<rparr>) 0 = Inr (Full (replicate 1048576 7))"
      by (intro exI [of _ d'] conjI) (simp_all only: d d' active)
  qed
qed

text \<open>A directory with a base file and a child of it that has the second block.\<close>

lemma merge_directory:
  obtains fs cd cf pd pf where
    "\<And>keep. merge_ready ref_externs \<lparr>mo_keep_child = keep, mo_skip_fsck = True\<rparr> fs ''/d/leaf.avhdx'' ''/d/base.vhdx'' fs
      cd cf pd pf"
    and "VhdxDisk_open ref_externs ''/d/leaf.avhdx'' (fs_open fs ''/d/leaf.avhdx'') True = Inr (cd, cf)"
    and "disk_block_count cd = Inr 2" and "disk_block_size cd = 1048576" and "logical_sector_size (vd_metadata cd) = 512"
    and "fs_resolve fs = id" and "read_block cd cf 0 = Inr Absent" and "read_block cd cf 1 = Inr (Full (replicate 1048576 9))"
    and "read_block pd pf 0 = Inr (Full (replicate 1048576 7))" and "bat_block_count (vd_bat pd) = 2"
    and "disk_block_size pd = 1048576" and "\<not> disk_has_parent pd"
proof -
  let ?pl = "new_vhdx_relative ref_externs (str ''base.vhdx'') nil_uuid"
  let ?child = "''/d/leaf.avhdx''" and ?parent = "''/d/base.vhdx''"
  obtain pf where len: "f_len pf = 8388608" "f_max pf = 16777216"
    and pf: "\<And>q. \<exists>d. VhdxDisk_open ref_externs q (Some pf) True = Inr (d, pf) \<and> vd_metadata d = small_metadata False \<and>
      data_write_guid (active_header d) = nil_uuid \<and> sequence_number (active_header d) = 2 \<and> image_ok d pf \<and>
      read_block d pf 0 = Inr (Full (replicate 1048576 7))"
    using merge_parent_file by blast
  obtain cf where cf: "\<And>q ro. \<exists>d. VhdxDisk_open ref_externs q (Some cf) ro = Inr (d, cf) \<and>
    vd_metadata d = writer_metadata merge_child_params \<and> disk_block_count d = Inr 2 \<and>
    read_block d cf 0 = Inr Absent \<and> read_block d cf 1 = Inr (Full (replicate 1048576 9))"
    using merge_child_file by blast
  define fs where "fs = \<lparr>fs_files = fmupd ?child cf (fmupd ?parent pf fmempty), fs_resolve = id\<rparr>"
  have fs: "fs_open fs ?child = Some cf" "fs_open fs ?parent = Some pf" "fs_resolve fs = id"
    by (simp_all add: fs_def fs_open_def)
  obtain pd where pd: "VhdxDisk_open ref_externs ?parent (fs_open fs ?parent) True = Inr (pd, pf)"
      "vd_metadata pd = small_metadata False" "data_write_guid (active_header pd) = nil_uuid"
      "sequence_number (active_header pd) = 2" "image_ok pd pf" "read_block pd pf 0 = Inr (Full (replicate 1048576 7))"
    using pf [of ?parent] unfolding fs(2) by blast
  obtain cd where cd: "VhdxDisk_open ref_externs ?child (fs_open fs ?child) True = Inr (cd, cf)"
      "vd_metadata cd = writer_metadata merge_child_params" "disk_block_count cd = Inr 2"
      "read_block cd cf 0 = Inr Absent" "read_block cd cf 1 = Inr (Full (replicate 1048576 9))"
    using cf [of ?child True] unfolding fs(1) by blast
  note cm = leaf_facts [OF cd(2)]
  have pm: "\<not> disk_has_parent pd" "disk_virtual_size pd = 2097152" "disk_block_size pd = 1048576"
      "logical_sector_size (vd_metadata pd) = 512"
    by (simp_all add: pd(2) disk_has_parent_def disk_virtual_size_def disk_block_size_def small_metadata_def block_size_def)
  have cnt: "bat_block_count (vd_bat cd) = 2"
    using disk_wf_count [OF open_wf(1) [OF cd(1)]] cd(3) by simp
  have pc: "bat_block_count (vd_bat pd) = 2"
    using disk_wf_count [OF open_wf(1) [OF pd(1)]] small_geometry(1) [of False] by (simp add: disk_block_count_def pd(2))
  have rp: "resolve_parent fs ?child ?pl = Some ?parent"
    using resolve_new_relative [OF ref_uuid_text_laws leaf_dir(1), of fs "str ''base.vhdx''" nil_uuid] fs(2)
    unfolding leaf_dir(2) by (simp add: path_exists_def)
  have link: "parent_linkage ref_externs ?pl \<in> {None, Some (data_write_guid (active_header pd))}"
    using new_vhdx_relative_reads(1) [OF ref_uuid_text_laws, of "str ''base.vhdx''" nil_uuid] by (simp add: pd(3))
  note reads = two_blocks_read [OF cnt cd(4,5)]
  have "Chain_discover ref_externs fs ?parent = Inr \<lparr>ch_leaf_path = ?parent, ch_nodes = [node_of ?parent pd]\<rparr>"
    by (rule discover_root [OF pd(1) pm(1)])
  then have chain: "\<exists>c. Chain_discover ref_externs fs ?parent = Inr c \<and>
      (\<forall>n\<in>set (tl (ch_nodes c)). fs_resolve fs (cn_path n) \<noteq> fs_resolve fs ?child)"
    by simp
  have "merge_found ref_externs \<lparr>mo_keep_child = keep, mo_skip_fsck = True\<rparr> fs ?child ?parent fs cd cf pd pf" for keep
    unfolding merge_found_def using cd(1) cm(1,2) rp pd(1) link
    by (intro exI [of _ fs] exI [of _ ?pl]) (simp add: repair_unless_def)
  then have "merge_ready ref_externs \<lparr>mo_keep_child = keep, mo_skip_fsck = True\<rparr> fs ?child ?parent fs cd cf pd pf" for keep
    unfolding merge_ready_def using chain reads pd(5) by (simp add: cm pm fs(3) cnt len pd(4))
  then show ?thesis by (rule that [OF _ cd(1,3) cm(4,5) fs(3) cd(4,5) pd(6) pc pm(3,1)])
qed

theorem merge_keeps_child_view_witness:
  "\<exists>fs fs' rep evs g d. merge ref_externs 5 6 fs ''/d/leaf.avhdx'' \<lparr>mo_keep_child = False, mo_skip_fsck = True\<rparr> = Inr (fs', rep, evs) \<and>
    fs_open fs' ''/d/leaf.avhdx'' = None \<and> fs_open fs' ''/d/base.vhdx'' = Some g \<and>
    VhdxDisk_open ref_externs ''/d/base.vhdx'' (Some g) True = Inr (d, g) \<and> data_write_guid (active_header d) = 5 \<and>
    chain_sector [(d, g)] 512 0 = replicate 512 7 \<and> chain_sector [(d, g)] 512 1048576 = replicate 512 9"
proof -
  let ?child = "''/d/leaf.avhdx''" and ?parent = "''/d/base.vhdx''"
  let ?opts = "\<lparr>mo_keep_child = False, mo_skip_fsck = True\<rparr>"
  obtain fs cd cf pd pf where ready: "\<And>keep. merge_ready ref_externs \<lparr>mo_keep_child = keep, mo_skip_fsck = True\<rparr>
      fs ?child ?parent fs cd cf pd pf"
    and K: "VhdxDisk_open ref_externs ?child (fs_open fs ?child) True = Inr (cd, cf)"
      "disk_block_count cd = Inr 2" "disk_block_size cd = 1048576" "logical_sector_size (vd_metadata cd) = 512"
      "fs_resolve fs = id" "read_block cd cf 0 = Inr Absent" "read_block cd cf 1 = Inr (Full (replicate 1048576 9))"
      "read_block pd pf 0 = Inr (Full (replicate 1048576 7))" "bat_block_count (vd_bat pd) = 2" "disk_block_size pd = 1048576"
    by (rule merge_directory) (rule that)
  have n: "bat_block_count (vd_bat cd) = 2" using merge_ready_count(1) [OF ready] K(9) by simp
  have u: "unat (bat_block_count (vd_bat cd)) = 2" "unat (disk_block_size cd) = 1048576"
      "unat (logical_sector_size (vd_metadata cd)) = 512" "(1048576 :: nat) div 512 = 2048"
    by (simp_all add: n K)
  obtain fs' rep evs g where run: "merge ref_externs 5 6 fs ?child ?opts = Inr (fs', rep, evs)"
      "\<forall>q. fs_open fs' q = (if fs_resolve fs q = fs_resolve fs ?parent then Some g
        else if fs_resolve fs q = fs_resolve fs ?child \<and> \<not> mo_keep_child ?opts then None else fs_open fs q)"
    and g: "\<forall>q ro. \<exists>d. VhdxDisk_open ref_externs q (Some g) ro = Inr (d, g) \<and> vd_metadata d = vd_metadata pd \<and>
      data_write_guid (active_header d) = 5 \<and>
      (\<forall>k < 2. \<forall>s < 2048. \<forall>rest. chain_sector ((d, g) # rest) 512 (k * 1048576 + s * 512) =
        (if link_content (cd, cf) 512 (k * 1048576 + s * 512) = None \<and> block_hides (cd, cf) (pd, pf) k then replicate 512 0
         else chain_sector ((cd, cf) # (pd, pf) # rest) 512 (k * 1048576 + s * 512)))"
    using merge_keeps_child_view [OF ref_uuid_laws ready, of 5 6 False, unfolded u] by blast
  obtain d where d: "VhdxDisk_open ref_externs ?parent (Some g) True = Inr (d, g)" "data_write_guid (active_header d) = 5"
      "\<forall>k < 2. \<forall>s < 2048. \<forall>rest. chain_sector ((d, g) # rest) 512 (k * 1048576 + s * 512) =
        (if link_content (cd, cf) 512 (k * 1048576 + s * 512) = None \<and> block_hides (cd, cf) (pd, pf) k then replicate 512 0
         else chain_sector ((cd, cf) # (pd, pf) # rest) 512 (k * 1048576 + s * 512))"
    using g by blast
  have size: "link_size (cd, cf) = 1048576" "link_size (pd, pf) = 1048576" "link_count (cd, cf) = 2" "link_count (pd, pf) = 2"
    by (simp_all add: link_size_def link_count_def K n)
  have "link_content (cd, cf) 512 0 = None" "link_content (pd, pf) 512 0 = Some (replicate 512 7)"
      "link_content (cd, cf) 512 1048576 = Some (replicate 512 9)" "\<not> block_hides (cd, cf) (pd, pf) 0"
    using link_content_block [of 0 "(cd, cf)" Absent 0 512] link_content_block [of 1 "(cd, cf)" _ 0 512]
      link_content_block [of 0 "(pd, pf)" _ 0 512]
    by (simp_all add: K size link_read_def bslice_replicate block_hides_def hides_def)
  then have "chain_sector [(d, g)] 512 0 = replicate 512 7" "chain_sector [(d, g)] 512 1048576 = replicate 512 9"
    using d(3) [rule_format, of 0 0 "[]"] d(3) [rule_format, of 1 0 "[]"] by simp_all
  moreover have "fs_open fs' ?child = None" "fs_open fs' ?parent = Some g"
    using run(2) by (simp_all add: K(5))
  ultimately show ?thesis using run(1) d(1,2) by blast
qed

end
