(* ===== verification/Vhdx_Flatten_Chain.thy ===== *)
theory Vhdx_Flatten_Chain
  imports Vhdx_Flatten_Output Vhdx_Zst_Writer Vhdx_Tar Vhdx_Path Vhdx_Ntfs Vhdx_Merge_View
begin

text \<open>
  \<open>flatten.rs\<close> on the file system: \<open>flatten_with_progress\<close> and \<open>flatten_to_zst\<close> with their
  common beginning (repair, discovery and opening of the chain), the scan for zero blocks and
  the pass that streams the others.  The encoder of the crate \<open>zstd\<close>, with the \<open>BufWriter\<close> and
  the file behind it, is an argument, as is the time of day.
\<close>

section \<open>The chain\<close>

fun repair_nodes :: "externs \<Rightarrow> bool \<Rightarrow> fsys \<Rightarrow> chain_node list \<Rightarrow> fsys res" where
  "repair_nodes E skip fs [] = Inr fs"
| "repair_nodes E skip fs (node # nodes) =
    bindR (repair_unless E skip fs (cn_path node)) (\<lambda>fs. repair_nodes E skip fs nodes)"

fun open_nodes :: "externs \<Rightarrow> fsys \<Rightarrow> chain_node list \<Rightarrow> (vhdx_disk \<times> dfile) list res" where
  "open_nodes E fs [] = Inr []"
| "open_nodes E fs (node # nodes) =
    bindR (VhdxDisk_open E (cn_path node) (fs_open fs (cn_path node)) True) (\<lambda>link.
    bindR (open_nodes E fs nodes) (\<lambda>links. Inr (link # links)))"

definition open_chain :: "externs \<Rightarrow> bool \<Rightarrow> fsys \<Rightarrow> path \<Rightarrow> (fsys \<times> (vhdx_disk \<times> dfile) list) res" where
  "open_chain E skip_fsck fs leaf_path =
    bindR (repair_unless E skip_fsck fs leaf_path) (\<lambda>fs.
    bindR (Chain_discover E fs leaf_path) (\<lambda>chain.
    bindR (repair_nodes E skip_fsck fs (ch_nodes chain)) (\<lambda>fs.
    bindR (open_nodes E fs (ch_nodes chain)) (\<lambda>links. Inr (fs, links)))))"

section \<open>The compressed output\<close>

text \<open>
  The encoder: creation for a level on a fresh destination file, the number of worker
  threads, writing, finishing, which flushes everything and gives the file, and what of the
  output has reached the destination file so far.
\<close>

record 's zstd_encoder =
  ze_new :: "dfile \<Rightarrow> 32 word \<Rightarrow> 's res"
  ze_multithread :: "'s \<Rightarrow> u32 \<Rightarrow> 's res"
  ze_put :: "'s put"
  ze_finish :: "'s \<Rightarrow> dfile res"
  ze_dest :: "'s \<Rightarrow> dfile"

definition open_encoder :: "'s zstd_encoder \<Rightarrow> dfile \<Rightarrow> zstd_params \<Rightarrow> 's res" where
  "open_encoder Z out params =
    bindR (ze_new Z out (zp_level params)) (\<lambda>enc.
    if zp_threads params \<ge> 1 then ze_multithread Z enc (zp_threads params) else Inr enc)"

text \<open>
  The pass that finds the zero blocks: the flags of the blocks \<open>blk\<close>, \<dots>, \<open>blk + n - 1\<close>, and
  the events, when \<open>scanned\<close> bytes were scanned before.
\<close>

fun analyze_chain_zero_blocks ::
    "(vhdx_disk \<times> dfile) list \<Rightarrow> u64 \<Rightarrow> u64 \<Rightarrow> nat \<Rightarrow> u64 \<Rightarrow> nat \<Rightarrow> u64
      \<Rightarrow> (bool list \<times> flatten_event list) res" where
  "analyze_chain_zero_blocks links leaf_bs ss spb blk 0 scanned = Inr ([], [])"
| "analyze_chain_zero_blocks links leaf_bs ss spb blk (Suc n) scanned =
    bindR (merge_block links blk leaf_bs ss spb) (\<lambda>composite.
    let scanned = saturating_add scanned leaf_bs in
    bindR (analyze_chain_zero_blocks links leaf_bs ss spb (blk + 1) n scanned) (\<lambda>(is_zero, evs).
    Inr (is_all_zero composite # is_zero, ScanProgress scanned # evs)))"

text \<open>
  The second pass, over the flags from block \<open>blk\<close> on, with the number of blocks written
  and the events.
  \<open>own\<close> are the paths that lead to the output: the handle of such a link sees the output.
\<close>

fun stream_blocks ::
    "'s zstd_encoder \<Rightarrow> (path \<Rightarrow> bool) \<Rightarrow> (vhdx_disk \<times> dfile) list \<Rightarrow> u64 \<Rightarrow> u64 \<Rightarrow> nat \<Rightarrow> u64 \<Rightarrow> bool list
      \<Rightarrow> 's zst_writer \<times> u64 \<times> flatten_event list \<Rightarrow> ('s zst_writer \<times> u64 \<times> flatten_event list) res" where
  "stream_blocks Z own links leaf_bs ss spb blk [] st = Inr st"
| "stream_blocks Z own links leaf_bs ss spb blk (is_zero # flags) (w, blocks_written, evs) =
    (if is_zero then
       stream_blocks Z own links leaf_bs ss spb (blk + 1) flags (w, blocks_written, evs @ [BlockDone blk leaf_bs False])
     else
       bindR (merge_block (map (seen own (ze_dest Z (zw_out w))) links) blk leaf_bs ss spb) (\<lambda>composite.
       bindR (write_payload_block (ze_put Z) w composite) (\<lambda>w.
       stream_blocks Z own links leaf_bs ss spb (blk + 1) flags
         (w, blocks_written + 1, evs @ [BlockDone blk leaf_bs True]))))"

definition flatten_to_zst ::
    "externs \<Rightarrow> 's zstd_encoder \<Rightarrow> u64 \<Rightarrow> uuid \<Rightarrow> uuid \<Rightarrow> nat \<Rightarrow> fsys \<Rightarrow> path \<Rightarrow> path \<Rightarrow> flatten_options
      \<Rightarrow> zstd_params \<Rightarrow> (fsys \<times> flatten_report \<times> flatten_event list) res" where
  "flatten_to_zst E Z mtime g1 g2 capacity fs leaf_path output_path opts zp =
    (if fo_compress_ntfs opts then Inl (Unsupported ''--compress-ntfs is incompatible with --zstd'')
     else if fo_subformat opts = Fixed then Inl (Unsupported ''--ty fixed is incompatible with --zstd'')
     else
       bindR (open_chain E (fo_skip_fsck opts) fs leaf_path) (\<lambda>(fs, links).
       case links of
         [] \<Rightarrow> Inl (Panic ''index out of bounds'')
       | (leaf_disk, leaf_file) # parents \<Rightarrow>
         bindR (disk_block_count leaf_disk) (\<lambda>bcount.
         bindR (check_links (disk_virtual_size leaf_disk) (logical_sector_size (vd_metadata leaf_disk)) parents) (\<lambda>_.
         let leaf_bs = ucast (disk_block_size leaf_disk) :: u64;
             ss = ucast (logical_sector_size (vd_metadata leaf_disk)) :: u64;
             spb = unat (leaf_bs div ss);
             total_bytes = saturating_mul bcount leaf_bs in
         if ss = 0 then Inl (Panic ''attempt to divide by zero'')
         else
           bindR (analyze_chain_zero_blocks links leaf_bs ss spb 0 (unat bcount) 0) (\<lambda>(is_zero, scan).
           let zero_blocks = word_of_nat (length (filter (\<lambda>z. z) is_zero)) :: u64;
               non_zero_blocks = bcount - zero_blocks;
               params = (flatten_params g1 g2 opts leaf_disk)\<lparr>wp_fixed := False\<rparr> in
           if leaf_bs = 0 then Inl (Panic ''attempt to divide by zero'')
           else
             let ratio = (push_bit 23 1 * ss) div leaf_bs in
             bindR (total_bat_entries bcount ratio False) (\<lambda>total_entries.
             let layout = Layout_compute params non_zero_blocks total_entries in
             bindR (build_bat_for_layout bcount ratio False (ly_payload_start layout) leaf_bs is_zero) (\<lambda>(table, _).
             bindR (open_encoder Z (new_file capacity) zp) (\<lambda>encoder.
             bindR (write_ustar_header (ze_put Z) encoder (ascii (inner_archive_name output_path))
               (ly_total_size layout) mtime) (\<lambda>encoder.
             bindR (ZstStreamWriter_begin E (ze_put Z) encoder params table layout) (\<lambda>w.
             bindR (stream_blocks Z (\<lambda>p. fs_resolve fs p = fs_resolve fs output_path) links leaf_bs ss spb 0 is_zero
               (w, 0, ScanStarted total_bytes # scan @ [ScanFinished non_zero_blocks zero_blocks,
                 Started bcount (disk_block_size leaf_disk) total_bytes])) (\<lambda>(w, blocks_written, evs).
             bindR (zst_finish (ze_put Z) w) (\<lambda>encoder.
             bindR (write_ustar_eof (ze_put Z) encoder) (\<lambda>encoder.
             bindR (ze_finish Z encoder) (\<lambda>dest_file.
             Inr (fs_store fs output_path dest_file,
               \<lparr>fr_leaf = leaf_path, fr_output = output_path, fr_blocks_total = bcount,
                fr_blocks_written = blocks_written, fr_blocks_zero = zero_blocks,
                fr_compressed_output = Some output_path,
                fr_bytes_uncompressed = saturating_add (ly_total_size layout)
                  (word_of_nat (TAR_HEADER_SIZE + TAR_EOF_SIZE)),
                fr_bytes_compressed = word_of_nat (f_len dest_file)\<rparr>,
               evs @ [Finished])))))))))))))))"

section \<open>The operation\<close>

definition flatten ::
    "externs \<Rightarrow> 's zstd_encoder \<Rightarrow> (fsys \<Rightarrow> path \<Rightarrow> fsys res) \<Rightarrow> u64 \<Rightarrow> uuid \<Rightarrow> uuid \<Rightarrow> nat \<Rightarrow> fsys \<Rightarrow> path \<Rightarrow> path
      \<Rightarrow> flatten_options \<Rightarrow> (fsys \<times> flatten_report \<times> flatten_event list) res" where
  "flatten E Z ntfs mtime g1 g2 capacity fs leaf_path output_path opts =
    (case fo_compress_zstd opts of
       Some zp \<Rightarrow> flatten_to_zst E Z mtime g1 g2 capacity fs leaf_path output_path opts zp
     | None \<Rightarrow>
         bindR (open_chain E (fo_skip_fsck opts) fs leaf_path) (\<lambda>(fs, links).
         bindR (flatten_links E (\<lambda>p. bindR (ntfs fs p) (\<lambda>_. Inr ())) g1 g2 capacity leaf_path output_path opts
           (\<lambda>p. fs_resolve fs p = fs_resolve fs output_path) links) (\<lambda>(report, out, f, evs).
         Inr (fs_store fs out f, report, evs))))"

section \<open>The two passes\<close>

text \<open>\<open>c k\<close> is the merged block \<open>k\<close>.\<close>

definition merges_to :: "(vhdx_disk \<times> dfile) list \<Rightarrow> u64 \<Rightarrow> u64 \<Rightarrow> nat \<Rightarrow> nat \<Rightarrow> (nat \<Rightarrow> bytes) \<Rightarrow> bool" where
  "merges_to links bs ss spb n c \<longleftrightarrow> (\<forall>b. unat b < n \<longrightarrow> merge_block links b bs ss spb = Inr (c (unat b)))"

abbreviation flags_of :: "(nat \<Rightarrow> bytes) \<Rightarrow> nat list \<Rightarrow> bool list" where
  "flags_of c ks \<equiv> map (\<lambda>k. is_all_zero (c k)) ks"

abbreviation payload_bufs :: "(nat \<Rightarrow> bytes) \<Rightarrow> nat list \<Rightarrow> bytes list" where
  "payload_bufs c ks \<equiv> map c (filter (\<lambda>k. \<not> is_all_zero (c k)) ks)"

lemma step_in_range:
  assumes "unat (blk :: u64) + Suc n \<le> N" and "N \<le> 67108864"
  shows "unat (blk + 1) = unat blk + 1" and "unat (blk + 1) + n \<le> N" and "unat blk < N"
proof -
  have "unat blk + 1 < 18446744073709551616" using assms by linarith
  then show "unat (blk + 1) = unat blk + 1" by (simp add: unat_add_u64)
  then show "unat (blk + 1) + n \<le> N" "unat blk < N" using assms(1) by simp_all
qed

text \<open>The events of the scan: the running totals.\<close>

fun scan_events :: "u64 \<Rightarrow> u64 \<Rightarrow> nat \<Rightarrow> flatten_event list" where
  "scan_events bs scanned 0 = []"
| "scan_events bs scanned (Suc n) =
    (let scanned = saturating_add scanned bs in ScanProgress scanned # scan_events bs scanned n)"

lemma analyze_ok:
  assumes "merges_to links bs ss spb N c" and "N \<le> 67108864" and "unat blk + n \<le> N"
  shows "analyze_chain_zero_blocks links bs ss spb blk n scanned =
    Inr (flags_of c [unat blk..<unat blk + n], scan_events bs scanned n)"
  using assms(3)
proof (induction n arbitrary: blk scanned)
  case (Suc n)
  note r = step_in_range [OF Suc.prems assms(2)]
  have "[unat blk..<unat blk + Suc n] = unat blk # [unat (blk + 1)..<unat (blk + 1) + n]"
    by (subst upt_rec) (simp add: r(1))
  then show ?case
    using Suc.IH [OF r(2)] assms(1) r(3) by (simp add: merges_to_def Let_def)
qed simp

lemma stream_blocks_eq:
  assumes "merges_to links bs ss spb N c" and "N \<le> 67108864" and own: "\<forall>l\<in>set links. \<not> own (vd_path (fst l))" and "unat blk + n \<le> N"
  shows "stream_blocks Z own links bs ss spb blk (flags_of c [unat blk..<unat blk + n]) (w, k, evs) =
    bindR (write_payload_blocks (ze_put Z) w (payload_bufs c [unat blk..<unat blk + n])) (\<lambda>w.
      Inr (w, k + word_of_nat (length (payload_bufs c [unat blk..<unat blk + n])),
        evs @ block_events BlockDone bs blk (map Not (flags_of c [unat blk..<unat blk + n]))))"
  using assms(4)
proof (induction n arbitrary: blk w k evs)
  case (Suc n)
  note r = step_in_range [OF Suc.prems assms(2)]
  have ks: "[unat blk..<unat blk + Suc n] = unat blk # [unat (blk + 1)..<unat (blk + 1) + n]"
    by (subst upt_rec) (simp add: r(1))
  have m: "merge_block links blk bs ss spb = Inr (c (unat blk))" using assms(1) r(3) by (simp add: merges_to_def)
  show ?case
    unfolding ks using Suc.IH [OF r(2)] m by (simp add: seen_none [OF own] bindR_assoc algebra_simps)
qed simp

lemma nth_filter_rank:
  "k < length xs \<Longrightarrow> P (xs ! k) \<Longrightarrow> filter P xs ! length (filter P (take k xs)) = xs ! k"
proof (induction xs arbitrary: k)
  case (Cons x xs)
  then show ?case by (cases k) auto
qed simp

lemma payload_buf_rank:
  assumes "k < n" and "\<not> is_all_zero (c k)"
  shows "payload_bufs c [0..<n] ! rank (flags_of c [0..<n]) k = c k"
proof -
  let ?P = "\<lambda>k. \<not> is_all_zero (c k)"
  have "rank (flags_of c [0..<n]) k = length (filter ?P (take k [0..<n]))"
    by (simp add: rank_def take_map filter_map comp_def)
  moreover have "filter ?P [0..<n] ! length (filter ?P (take k [0..<n])) = k"
    using nth_filter_rank [of k "[0..<n]" ?P] assms by simp
  moreover have "length (filter ?P (take k [0..<n])) < length (filter ?P [0..<n])"
    using rank_less [of k "flags_of c [0..<n]"] assms calculation(1) by (simp add: filter_map comp_def)
  ultimately show ?thesis by simp
qed

section \<open>The archive\<close>

text \<open>
  What the crate \<open>zstd\<close> documents of an encoder that meets no input or output error:
  \<open>contents\<close> are the bytes written so far, and decompressing the finished file gives them.
\<close>

definition zstd_works :: "'s zstd_encoder \<Rightarrow> ('s \<Rightarrow> bytes) \<Rightarrow> (dfile \<Rightarrow> bytes) \<Rightarrow> bool" where
  "zstd_works Z contents decompress \<longleftrightarrow>
     (\<forall>out level. \<exists>s. ze_new Z out level = Inr s \<and> contents s = []) \<and>
     (\<forall>s n. \<exists>s'. ze_multithread Z s n = Inr s' \<and> contents s' = contents s) \<and>
     (\<forall>s bs. \<exists>s'. ze_put Z s bs = Inr s' \<and> contents s' = contents s @ bs) \<and>
     (\<forall>s. \<exists>f. ze_finish Z s = Inr f \<and> decompress f = contents s)"

lemma zstd_puts:
  assumes "zstd_works Z contents decompress"
  shows "\<exists>s'. puts (ze_put Z) s ps = Inr s' \<and> contents s' = contents s @ concat ps"
proof (induction ps arbitrary: s)
  case (Cons b ps)
  obtain s1 where s1: "ze_put Z s b = Inr s1" "contents s1 = contents s @ b"
    using assms unfolding zstd_works_def by blast
  obtain s2 where "puts (ze_put Z) s1 ps = Inr s2" "contents s2 = contents s1 @ concat ps"
    using Cons.IH [of s1] by blast
  then show ?case using s1 by simp
qed simp

lemma open_encoder_ok:
  assumes "zstd_works Z contents decompress"
  shows "\<exists>s. open_encoder Z out zp = Inr s \<and> contents s = []"
proof -
  obtain s where s: "ze_new Z out (zp_level zp) = Inr s" "contents s = []"
    using assms unfolding zstd_works_def by blast
  obtain s' where "ze_multithread Z s (zp_threads zp) = Inr s'" "contents s' = contents s"
    using assms unfolding zstd_works_def by blast
  with s show ?thesis by (simp add: open_encoder_def)
qed

text \<open>The blocks of a chain of links that agree and can be read.\<close>

lemma chain_merges:
  fixes leaf :: vhdx_disk
  defines "bs \<equiv> unat (disk_block_size leaf)" and "sz \<equiv> unat (logical_sector_size (vd_metadata leaf))"
  assumes "\<forall>l\<in>set links. link_agrees leaf l" "(leaf, leaf_file) \<in> set links"
    and "0 < sz" "0 < bs" "bs \<le> 268435456" and n: "n \<le> 67108864"
  obtains c where "merges_to links (ucast (disk_block_size leaf)) (ucast (logical_sector_size (vd_metadata leaf))) (bs div sz) n c"
    and "\<And>k. k < n \<Longrightarrow> length (c k) = bs \<and> holds_chain links sz bs k (c k)"
proof -
  let ?m = "\<lambda>b. merge_block links b (ucast (disk_block_size leaf)) (ucast (logical_sector_size (vd_metadata leaf))) (bs div sz)"
  define c where "c k = (SOME buf. ?m (word_of_nat k) = Inr buf)" for k
  have c: "?m b = Inr (c (unat b)) \<and> length (c (unat b)) = bs \<and> holds_chain links sz bs (unat b) (c (unat b))"
    if b: "unat b < n" for b
  proof -
    have "unat b < 67108864" using b n by simp
    then obtain buf where buf: "?m b = Inr buf" "length buf = bs" "holds_chain links sz bs (unat b) buf"
      using chain_blocks_read [OF assms(3,4), of b] assms(5-7) unfolding bs_def sz_def by blast
    then have "c (unat b) = buf" by (simp add: c_def)
    with buf show ?thesis by simp
  qed
  have "length (c k) = bs \<and> holds_chain links sz bs k (c k)" if "k < n" for k
    using c [of "word_of_nat k"] that n by (simp add: unat_of_nat_u64)
  then show ?thesis using c by (intro that [of c]) (simp_all add: merges_to_def)
qed

lemma zst_loop:
  fixes Z :: "'s zstd_encoder"
  defines "put \<equiv> ze_put Z"
  assumes "merges_to links bs ss spb N c" and "N \<le> 67108864" and "\<forall>l\<in>set links. \<not> own (vd_path (fst l))"
  shows "bindR (ZstStreamWriter_begin E put s p b L) (\<lambda>w.
      bindR (stream_blocks Z own links bs ss spb 0 (flags_of c [0..<N]) (w, 0, evs)) (\<lambda>(w, k, evs). bindR (zst_finish put w) (K k evs))) =
    bindR (zst_session E put s p b L (payload_bufs c [0..<N])) (K (word_of_nat (length (payload_bufs c [0..<N])))
      (evs @ block_events BlockDone bs 0 (map Not (flags_of c [0..<N]))))"
  using stream_blocks_eq [OF assms(2-4), of 0 N Z _ 0 evs] by (simp add: put_def zst_session_def bindR_assoc)

text \<open>The events of a run.\<close>

definition zst_events :: "u64 \<Rightarrow> u32 \<Rightarrow> bool list \<Rightarrow> flatten_event list" where
  "zst_events n bs wrote =
    ScanStarted (saturating_mul n (ucast bs)) # scan_events (ucast bs) 0 (length wrote) @
    ScanFinished (word_of_nat (length (filter id wrote))) (word_of_nat (length (filter Not wrote))) #
    write_events n bs wrote"

text \<open>The merged blocks of a chain as the blocks of an image.\<close>

definition delivers_chain :: "externs \<Rightarrow> writer_params \<Rightarrow> (vhdx_disk \<times> dfile) list \<Rightarrow> dfile \<Rightarrow> bool" where
  "delivers_chain E p links f \<longleftrightarrow>
     (\<forall>q ro. \<exists>d. VhdxDisk_open E q (Some f) ro = Inr (d, f) \<and> vd_metadata d = writer_metadata p \<and>
       (\<forall>b. unat b < unat (lay_count p) \<longrightarrow> (\<exists>buf. read_block d f b = Inr (Full buf) \<and>
         holds_chain links (unat (wp_logical_sector_size p)) (unat (wp_block_size p)) (unat b) buf)))"

lemma zero_flag_counts:
  assumes "length flags = unat (n :: u64)"
  shows "n - word_of_nat (length (filter (\<lambda>z. z) flags)) = word_of_nat (length (filter Not flags))"
    and "length (filter id (map Not flags)) = length (filter Not flags)"
    and "length (filter Not (map Not flags)) = length (filter (\<lambda>z. z) flags)"
proof -
  show c: "length (filter id (map Not flags)) = length (filter Not flags)"
      "length (filter Not (map Not flags)) = length (filter (\<lambda>z. z) flags)"
    by (simp_all add: filter_map comp_def id_def)
  show "n - word_of_nat (length (filter (\<lambda>z. z) flags)) = word_of_nat (length (filter Not flags))"
    using wrote_counts [of "map Not flags" n] assms unfolding c by (metis add_diff_cancel_right' length_map)
qed

text \<open>What the encoder is fed is what the archive decompresses to.\<close>

lemma archive_encoded:
  assumes Z: "zstd_works Z contents decompress"
  obtains e0 e1 e2 e3 f where "open_encoder Z out zp = Inr e0" "ze_put Z e0 hdr = Inr e1"
    "puts (ze_put Z) e1 ps = Inr e2" "ze_put Z e2 eof = Inr e3" "ze_finish Z e3 = Inr f"
    "decompress f = hdr @ concat ps @ eof"
proof -
  note put = Z [unfolded zstd_works_def, THEN conjunct2, THEN conjunct2, THEN conjunct1, rule_format]
  obtain e0 where e0: "open_encoder Z out zp = Inr e0" "contents e0 = []"
    using open_encoder_ok [OF Z] by blast
  obtain e1 where e1: "ze_put Z e0 hdr = Inr e1" "contents e1 = hdr"
    using put [of e0 hdr] e0(2) by auto
  obtain e2 where e2: "puts (ze_put Z) e1 ps = Inr e2" "contents e2 = hdr @ concat ps"
    using zstd_puts [OF Z, of e1 ps] e1(2) by auto
  obtain e3 where e3: "ze_put Z e2 eof = Inr e3" "contents e3 = hdr @ concat ps @ eof"
    using put [of e2 eof] e2(2) by auto
  obtain f where "ze_finish Z e3 = Inr f" "decompress f = hdr @ concat ps @ eof"
    using Z e3(2) unfolding zstd_works_def by metis
  with e0(1) e1(1) e2(1) e3(1) show ?thesis by (rule that)
qed

text \<open>The image streamed for the merged blocks of a chain delivers the chain.\<close>

lemma streamed_chain:
  fixes put :: "'s put" and p :: writer_params and c :: "nat \<Rightarrow> bytes"
  defines "bs \<equiv> unat (wp_block_size p)" and "sz \<equiv> unat (wp_logical_sector_size p)" and "N \<equiv> unat (lay_count p)"
  assumes E: "uuid_laws E" and p: "params_ok E p" "wp_parent_locator p = None"
    and c: "\<And>k. k < N \<Longrightarrow> length (c k) = bs \<and> holds_chain links sz bs k (c k)"
  defines "flags \<equiv> flags_of c [0..<N]" and "bufs \<equiv> payload_bufs c [0..<N]"
  defines "L \<equiv> Layout_compute p (word_of_nat (length bufs)) (lay_total p)"
  obtains b img ps where "build_bat_for_layout (lay_count p) (lay_ratio p) False (ly_payload_start L) (ly_block_size L) flags =
      Inr (b, word_of_nat (length bufs))"
    "concat ps = img" "\<And>s. zst_session E put s p b L bufs = puts put s ps" "length img = unat (ly_total_size L)"
    "delivers_chain E p links (file_of img)"
proof -
  have fl: "length flags = N" by (simp add: flags_def)
  have bl: "\<forall>b\<in>set bufs. length b = bs" using c by (auto simp: bufs_def)
  have bn: "length bufs = length (filter Not flags)" by (simp add: bufs_def flags_def filter_map comp_def)
  have pl: "(wp_parent_locator p \<noteq> None) = False" by (simp add: p(2))
  obtain b img ps where st: "build_bat_for_layout (lay_count p) (lay_ratio p) False (ly_payload_start L) (ly_block_size L) flags =
      Inr (b, word_of_nat (length bufs))"
    "concat ps = img" "\<And>s. zst_session E put s p b L bufs = puts put s ps" "length img = unat (ly_total_size L)"
    "\<And>q ro. \<exists>d. VhdxDisk_open E q (Some (file_of img)) ro = Inr (d, file_of img) \<and> vd_metadata d = writer_metadata p \<and>
      data_write_guid (active_header d) = wp_data_write_guid p \<and>
      (\<forall>k. unat k < N \<longrightarrow> read_block d (file_of img) k =
        Inr (Full (if flags ! unat k then replicate bs 0 else bufs ! rank flags (unat k))))"
    using zst_stream_ok [OF E p(1) fl [unfolded N_def] bl [unfolded bs_def] bn, of put]
    unfolding pl L_def N_def bs_def by blast
  have block: "(if flags ! k then replicate bs 0 else bufs ! rank flags k) = c k" if k: "k < N" for k
  proof (cases "is_all_zero (c k)")
    case True
    then have "c k = replicate bs 0" using c [OF k] replicate_length_same [of "c k" 0] by (simp add: is_all_zero_def list_all_iff)
    then show ?thesis using True k by (simp add: flags_def)
  next
    case False
    then show ?thesis using payload_buf_rank [of k N c] k by (simp add: flags_def bufs_def)
  qed
  have "delivers_chain E p links (file_of img)"
    unfolding delivers_chain_def
  proof (intro allI)
    fix q ro
    show "\<exists>d. VhdxDisk_open E q (Some (file_of img)) ro = Inr (d, file_of img) \<and> vd_metadata d = writer_metadata p \<and>
       (\<forall>b. unat b < unat (lay_count p) \<longrightarrow> (\<exists>buf. read_block d (file_of img) b = Inr (Full buf) \<and>
         holds_chain links (unat (wp_logical_sector_size p)) (unat (wp_block_size p)) (unat b) buf))"
      using st(5) [of q ro] block c unfolding N_def bs_def sz_def by fastforce
  qed
  with st(1-4) show ?thesis by (rule that)
qed

text \<open>The run, given that each of its parts goes well.\<close>

lemma flatten_zst_run:
  fixes ld :: vhdx_disk and opts :: flatten_options and g1 g2 :: uuid and c :: "nat \<Rightarrow> bytes" and p :: writer_params
  defines "bs \<equiv> disk_block_size ld" and "sz \<equiv> logical_sector_size (vd_metadata ld)"
  defines "flags \<equiv> flags_of c [0..<unat (lay_count p)]" and "bufs \<equiv> payload_bufs c [0..<unat (lay_count p)]"
  defines "L \<equiv> Layout_compute p (word_of_nat (length bufs)) (lay_total p)"
  assumes p_def: "p = flatten_params g1 g2 opts ld" and zp: "fo_compress_zstd opts = Some zp" and opts: "fo_subformat opts = Dynamic" "\<not> fo_compress_ntfs opts"
    and chain: "open_chain E (fo_skip_fsck opts) fs leaf = Inr (fs1, links)" "links = (ld, lf) # parents"
    and p: "params_ok E p" and agrees: "\<forall>l\<in>set links. link_agrees ld l"
    and own: "\<forall>l\<in>set links. \<not> fs_resolve fs1 (vd_path (fst l)) = fs_resolve fs1 out"
    and c: "merges_to links (ucast bs) (ucast sz) (unat bs div unat sz) (unat (lay_count p)) c"
    and bat: "build_bat_for_layout (lay_count p) (lay_ratio p) False (ly_payload_start L) (ly_block_size L) flags =
      Inr (b, word_of_nat (length bufs))"
    and hdr: "ustar_header (ascii (inner_archive_name out)) (ly_total_size L) mtime = Inr hdr"
    and enc: "open_encoder Z (new_file capacity) zp = Inr e0" "ze_put Z e0 hdr = Inr e1"
      "zst_session E (ze_put Z) e1 p b L bufs = Inr e2" "ze_put Z e2 (replicate 1024 0) = Inr e3" "ze_finish Z e3 = Inr f"
  shows "flatten E Z ntfs mtime g1 g2 capacity fs leaf out opts = Inr (fs_store fs1 out f,
    \<lparr>fr_leaf = leaf, fr_output = out, fr_blocks_total = lay_count p, fr_blocks_written = word_of_nat (length bufs),
     fr_blocks_zero = word_of_nat (length (filter (\<lambda>z. z) flags)), fr_compressed_output = Some out,
     fr_bytes_uncompressed = saturating_add (ly_total_size L) (word_of_nat (TAR_HEADER_SIZE + TAR_EOF_SIZE)),
     fr_bytes_compressed = word_of_nat (f_len f)\<rparr>,
    zst_events (lay_count p) bs (map Not flags))"
proof -
  let ?N = "unat (lay_count p)" and ?lbs = "ucast bs :: u64" and ?ss = "ucast sz :: u64"
  have pf: "wp_block_size p = bs" "wp_virtual_disk_size p = disk_virtual_size ld"
      "wp_logical_sector_size p = sz" "wp_parent_locator p = None" "p\<lparr>wp_fixed := False\<rparr> = p"
    using opts(1) by (simp_all add: p_def flatten_params_def bs_def sz_def)
  have pos: "0 < unat sz" "0 < unat bs" using p by (simp_all add: params_ok_def pf)
  moreover have "unat ?ss = unat sz" "unat ?lbs = unat bs" by simp_all
  ultimately have nz: "?ss \<noteq> 0" "?lbs \<noteq> 0" "bs \<noteq> 0" by (metis less_irrefl unat_0)+
  have N: "?N \<le> 67108864" by (rule lay_count_ratio(1) [OF p])
  have cnt: "disk_block_count ld = Inr (lay_count p)"
    using nz(3) by (simp add: disk_block_count_def block_count_def lay_count_def pf disk_block_size_def disk_virtual_size_def bs_def)
  have total: "total_bat_entries (lay_count p) (lay_ratio p) False = Inr (lay_total p)"
    using lay_count_ratio(7) [OF p] by (simp add: pf)
  have fl: "length flags = ?N" by (simp add: flags_def)
  have bn: "length bufs = length (filter Not flags)" by (simp add: bufs_def flags_def filter_map comp_def)
  note counts = zero_flag_counts [OF fl]
  have scan: "analyze_chain_zero_blocks links ?lbs ?ss (unat bs div unat sz) 0 ?N 0 = Inr (flags, scan_events ?lbs 0 ?N)"
    using analyze_ok [OF c N, of 0 ?N 0] by (simp add: flags_def)
  have ev: "zst_events (lay_count p) bs (map Not flags) =
      ScanStarted (saturating_mul (lay_count p) ?lbs) # scan_events ?lbs 0 ?N @
      ScanFinished (word_of_nat (length bufs)) (word_of_nat (length (filter (\<lambda>z. z) flags))) #
      Started (lay_count p) bs (saturating_mul (lay_count p) ?lbs) #
      block_events BlockDone ?lbs 0 (map Not flags) @ [Finished]"
    unfolding zst_events_def write_events_def counts bn by (simp add: fl)
  have ly: "ly_block_size L = ?lbs" by (simp add: L_def Layout_compute_def Let_def pf)
  note loop = zst_loop [OF c N own, of E Z e1 p b L, folded flags_def bufs_def, unfolded chain(2)]
  have k: "unat (?lbs div ?ss) = unat bs div unat sz" by (simp add: unat_div)
  have ratio: "8388608 * ?ss div ?lbs = lay_ratio p" by (simp add: lay_ratio_def pf push_bit_eq_mult)
  have "write_ustar_header (ze_put Z) e0 (ascii (inner_archive_name out)) (ly_total_size L) mtime = Inr e1"
    using hdr enc(2) by (simp add: write_ustar_header_def)
  moreover have "write_ustar_eof (ze_put Z) e2 = Inr e3"
    using enc(4) by (simp add: write_ustar_eof_def TAR_EOF_SIZE_def TAR_BLOCK_SIZE_def)
  moreover have "check_links (disk_virtual_size ld) sz parents = Inr ()"
    using check_links_ok [of parents ld] agrees chain(2) by (simp add: sz_def)
  ultimately show ?thesis
    using opts nz cnt total bat enc chain
    by (simp add: flatten_def zp flatten_to_zst_def Let_def p_def [symmetric] bs_def [symmetric] sz_def [symmetric]
        L_def [symmetric] pf(5) k ratio push_bit_eq_mult counts(1) bn [symmetric] scan [unfolded chain(2)] ly loop ev)
qed

lemma flatten_zst_ok:
  fixes ld :: vhdx_disk and opts :: flatten_options and g1 g2 :: uuid
  defines "p \<equiv> flatten_params g1 g2 opts ld"
  assumes E: "uuid_laws E" and Z: "zstd_works Z contents decompress" and zp: "fo_compress_zstd opts = Some zp"
    and opts: "fo_subformat opts = Dynamic" "\<not> fo_compress_ntfs opts"
    and chain: "open_chain E (fo_skip_fsck opts) fs leaf = Inr (fs1, links)" "links = (ld, lf) # parents"
    and p: "params_ok E p" and agrees: "\<forall>l\<in>set links. link_agrees ld l"
    and own: "\<forall>l\<in>set links. \<not> fs_resolve fs1 (vd_path (fst l)) = fs_resolve fs1 out"
    and name: "length (inner_archive_name out) \<le> 100" "0 \<notin> set (ascii (inner_archive_name out))"
  shows "\<exists>fs' rep wrote f hdr img. flatten E Z ntfs mtime g1 g2 capacity fs leaf out opts =
      Inr (fs', rep, zst_events (lay_count p) (disk_block_size ld) wrote) \<and>
    length wrote = unat (lay_count p) \<and>
    fr_blocks_written rep = word_of_nat (length (filter id wrote)) \<and>
    fr_blocks_zero rep = word_of_nat (length (filter Not wrote)) \<and>
    (\<forall>q. fs_open fs' q = (if fs_resolve fs1 q = fs_resolve fs1 out then Some f else fs_open fs1 q)) \<and>
    decompress f = hdr @ img @ replicate 1024 0 \<and> length hdr = 512 \<and>
    tar_name hdr = ascii (inner_archive_name out) \<and> tar_number (bslice hdr 124 136) = length img \<and>
    tar_checksum_ok hdr \<and> 512 dvd length img \<and> delivers_chain E p links (file_of img) \<and>
    fr_blocks_total rep = lay_count p \<and>
    unat (fr_bytes_uncompressed rep) = length (decompress f)"
proof -
  let ?N = "unat (lay_count p)"
  have pf: "wp_block_size p = disk_block_size ld" "wp_logical_sector_size p = logical_sector_size (vd_metadata ld)"
      "wp_parent_locator p = None"
    by (simp_all add: p_def flatten_params_def)
  have sz: "0 < unat (wp_logical_sector_size p)" "0 < unat (wp_block_size p)" "unat (wp_block_size p) \<le> 268435456"
    using p by (simp_all add: params_ok_def)
  obtain c where c: "merges_to links (ucast (wp_block_size p)) (ucast (wp_logical_sector_size p))
        (unat (wp_block_size p) div unat (wp_logical_sector_size p)) ?N c"
      "\<And>k. k < ?N \<Longrightarrow> length (c k) = unat (wp_block_size p) \<and>
        holds_chain links (unat (wp_logical_sector_size p)) (unat (wp_block_size p)) k (c k)"
    using chain_merges [OF agrees _ sz [unfolded pf] lay_count_ratio(1) [OF p], of lf] chain(2) unfolding pf by auto
  let ?flags = "flags_of c [0..<?N]" and ?bufs = "payload_bufs c [0..<?N]"
  let ?L = "Layout_compute p (word_of_nat (length ?bufs)) (lay_total p)"
  obtain b img ps where st: "build_bat_for_layout (lay_count p) (lay_ratio p) False (ly_payload_start ?L) (ly_block_size ?L) ?flags =
      Inr (b, word_of_nat (length ?bufs))"
    "concat ps = img" "\<And>s. zst_session E (ze_put Z) s p b ?L ?bufs = puts (ze_put Z) s ps"
    "length img = unat (ly_total_size ?L)" "delivers_chain E p links (file_of img)"
    by (rule streamed_chain [OF E p pf(3), where put = "ze_put Z" and c = c and links = links]) (erule c(2), rule that)
  obtain hdr where hdr: "ustar_header (ascii (inner_archive_name out)) (ly_total_size ?L) mtime = Inr hdr" "length hdr = 512"
      "tar_name hdr = ascii (inner_archive_name out)" "tar_number (bslice hdr 124 136) = unat (ly_total_size ?L)"
      "tar_checksum_ok hdr"
    using ustar_header_reads [OF _ name(2), of "ly_total_size ?L" mtime] name(1) by (auto simp: ascii_def)
  obtain e0 e1 e2 e3 f where enc: "open_encoder Z (new_file capacity) zp = Inr e0" "ze_put Z e0 hdr = Inr e1"
      "puts (ze_put Z) e1 ps = Inr e2" "ze_put Z e2 (replicate 1024 0) = Inr e3" "ze_finish Z e3 = Inr f"
      "decompress f = hdr @ concat ps @ replicate 1024 0"
    by (rule archive_encoded [OF Z])
  have session: "zst_session E (ze_put Z) e1 p b ?L ?bufs = Inr e2" by (simp only: st(3) enc(3))
  note run = flatten_zst_run [OF meta_eq_to_obj_eq [OF p_def] zp opts chain p agrees own c(1) [unfolded pf] st(1) hdr(1)
      enc(1,2) session enc(4,5)]
  have "unat (word_of_nat (length ?bufs) :: u64) \<le> ?N"
    using lay_count_ratio(1) [OF p] length_filter_le [of "\<lambda>k. \<not> is_all_zero (c k)" "[0..<?N]"]
    by (simp add: unat_of_nat_u64)
  note L = zst_layout(10-13) [OF p this]
  have "1048576 dvd length img"
    unfolding st(4) using L(2,3) lay_bounds(6) [OF p] by (simp add: mod_0_imp_dvd)
  then have aligned: "512 dvd length img" by (rule dvd_trans [rotated]) simp
  have "unat (ly_total_size ?L + 1536) = unat (ly_total_size ?L) + 1536"
    using L(4) by (subst unat_add_u64) simp_all
  then have total: "unat (saturating_add (ly_total_size ?L) (word_of_nat (TAR_HEADER_SIZE + TAR_EOF_SIZE))) =
      length (decompress f)"
    by (simp add: enc(6) st(2) hdr(2) st(4) saturating_add_def TAR_HEADER_SIZE_def TAR_EOF_SIZE_def TAR_BLOCK_SIZE_def
        word_less_nat_alt)
  show ?thesis
    by (intro exI [of _ "map Not ?flags"] exI [of _ f] exI conjI, rule run)
       (use hdr enc(6) st(2,4,5) aligned total in \<open>simp_all add: fs_open_store filter_map comp_def\<close>)
qed

section \<open>The chain that is flattened\<close>

lemma open_nodes_ok:
  assumes "open_nodes E fs nodes = Inr links"
  shows "list_all2 (\<lambda>node link. VhdxDisk_open E (cn_path node) (fs_open fs (cn_path node)) True = Inr link) nodes links"
  using assms by (induction nodes arbitrary: links) (auto simp: res_simps)

lemma repair_nodes_skip: "repair_nodes E True fs nodes = Inr fs"
  by (induction nodes) (simp_all add: repair_unless_def)

lemma discovered_nodes: "Chain_discover E fs leaf = Inr c \<Longrightarrow> ch_nodes c \<noteq> [] \<and> cn_path (hd (ch_nodes c)) = leaf"
  by (auto simp: Chain_discover_def res_simps discover_loop.simps [of E fs "{}" leaf] Let_def node_of_def split: if_splits)


section \<open>What flattening gives\<close>

lemma flatten_plain_ok:
  fixes ld :: vhdx_disk and opts :: flatten_options and g1 g2 :: uuid
  defines "p \<equiv> flatten_params g1 g2 opts ld"
  assumes E: "uuid_laws E" and plain: "fo_compress_zstd opts = None" "fo_subformat opts = Dynamic"
    and ntfs: "fo_compress_ntfs opts \<longrightarrow> (\<exists>fs2. ntfs fs1 out = Inr fs2)"
    and chain: "open_chain E (fo_skip_fsck opts) fs leaf = Inr (fs1, (ld, lf) # parents)"
    and p: "params_ok E p" and agrees: "\<forall>l\<in>set ((ld, lf) # parents). link_agrees ld l"
    and room: "unat (lay_payload_start p) + unat (lay_count p) * unat (disk_block_size ld) \<le> capacity" "capacity < 2 ^ 63"
    and own: "\<forall>l\<in>set ((ld, lf) # parents). fs_resolve fs1 (vd_path (fst l)) \<noteq> fs_resolve fs1 out"
  shows "\<exists>fs' rep wrote f. flatten E Z ntfs mtime g1 g2 capacity fs leaf out opts =
      Inr (fs', rep, write_events (lay_count p) (disk_block_size ld) wrote) \<and>
    fr_blocks_total rep = lay_count p \<and> length wrote = unat (lay_count p) \<and>
    fr_blocks_written rep = word_of_nat (length (filter id wrote)) \<and>
    fr_blocks_zero rep = word_of_nat (length (filter Not wrote)) \<and>
    (\<forall>q. fs_open fs' q = (if fs_resolve fs1 q = fs_resolve fs1 out then Some f else fs_open fs1 q)) \<and>
    delivers_chain E p ((ld, lf) # parents) f"
proof -
  have pf: "wp_logical_sector_size p = logical_sector_size (vd_metadata ld)" "wp_block_size p = disk_block_size ld"
    by (simp_all add: p_def flatten_params_def)
  let ?ntfs = "\<lambda>p. bindR (ntfs fs1 p) (\<lambda>_. Inr ())"
  have n: "fo_compress_ntfs opts \<longrightarrow> ?ntfs out = Inr ()" using ntfs by auto
  obtain rep f wrote where run: "flatten_links E ?ntfs g1 g2 capacity leaf out opts (\<lambda>q. fs_resolve fs1 q = fs_resolve fs1 out)
        ((ld, lf) # parents) = Inr (rep, out, f, write_events (lay_count p) (disk_block_size ld) wrote)"
      "length wrote = unat (lay_count p) \<and> fr_blocks_total rep = lay_count p \<and>
       fr_blocks_written rep = word_of_nat (length (filter id wrote)) \<and>
       fr_blocks_zero rep = word_of_nat (length (filter Not wrote))"
      "delivers_chain E p ((ld, lf) # parents) f"
    using flatten_links_ok [where lp = leaf and ntfs = ?ntfs and out = out and own = "\<lambda>q. fs_resolve fs1 q = fs_resolve fs1 out",
        OF E refl p [unfolded p_def] plain(2) agrees n room(2) room(1) [unfolded p_def] own, folded p_def]
    unfolding delivers_chain_def pf by blast
  have "flatten E Z ntfs mtime g1 g2 capacity fs leaf out opts =
      Inr (fs_store fs1 out f, rep, write_events (lay_count p) (disk_block_size ld) wrote)"
    using run(1) by (simp add: flatten_def plain(1) chain)
  then show ?thesis
    using run(2,3) by (intro exI [of _ "fs_store fs1 out f"] exI [of _ rep] exI [of _ wrote] exI [of _ f]) (simp add: fs_open_store)
qed


text \<open>
  C2 (the compressed archive): flattening into a compressed archive succeeds for the same
  chains; decompressing the output gives a tar archive with one member, its name and size
  those of the image, its header checksum correct, and the image is a standalone disk that
  holds the sectors of the chain; the events are those of the scan, then one per block; the
  report's counts and its uncompressed size are right and no other file changes.
\<close>

theorem flatten_zst_archive:
  fixes ld :: vhdx_disk and opts :: flatten_options and g1 g2 :: uuid
  defines "p \<equiv> flatten_params g1 g2 opts ld"
  assumes E: "uuid_laws E" and Z: "zstd_works Z contents decompress" and zp: "fo_compress_zstd opts = Some zp"
    and opts: "fo_subformat opts = Dynamic" "\<not> fo_compress_ntfs opts"
    and chain: "open_chain E (fo_skip_fsck opts) fs leaf = Inr (fs1, (ld, lf) # parents)"
    and p: "params_ok E p" and agrees: "\<forall>l\<in>set ((ld, lf) # parents). link_agrees ld l"
    and own: "\<forall>l\<in>set ((ld, lf) # parents). fs_resolve fs1 (vd_path (fst l)) \<noteq> fs_resolve fs1 out"
    and name: "length (inner_archive_name out) \<le> 100" "0 \<notin> set (ascii (inner_archive_name out))"
  shows "\<exists>fs' rep wrote f hdr img. flatten E Z ntfs mtime g1 g2 capacity fs leaf out opts =
      Inr (fs', rep, zst_events (lay_count p) (disk_block_size ld) wrote) \<and>
    length wrote = unat (lay_count p) \<and>
    fr_blocks_written rep = word_of_nat (length (filter id wrote)) \<and>
    fr_blocks_zero rep = word_of_nat (length (filter Not wrote)) \<and>
    (\<forall>q. fs_open fs' q = (if fs_resolve fs1 q = fs_resolve fs1 out then Some f else fs_open fs1 q)) \<and>
    decompress f = hdr @ img @ replicate 1024 0 \<and> length hdr = 512 \<and>
    tar_name hdr = ascii (inner_archive_name out) \<and> tar_number (bslice hdr 124 136) = length img \<and>
    tar_checksum_ok hdr \<and> 512 dvd length img \<and> delivers_chain E p ((ld, lf) # parents) (file_of img) \<and>
    fr_blocks_total rep = lay_count p \<and>
    unat (fr_bytes_uncompressed rep) = length (decompress f)"
  using flatten_zst_ok [OF E Z zp opts chain refl p [unfolded p_def] agrees own name] unfolding p_def .

section \<open>A concrete chain\<close>

definition flat_parent_params :: writer_params where
  "flat_parent_params = small_params\<lparr>wp_virtual_disk_size := 2097152, wp_data_write_guid := nil_uuid\<rparr>"

lemma flat_parent_file:
  obtains f where "\<And>q ro. \<exists>d. VhdxDisk_open ref_externs q (Some f) ro = Inr (d, f) \<and>
    vd_metadata d = writer_metadata flat_parent_params \<and> data_write_guid (active_header d) = nil_uuid \<and>
    disk_block_count d = Inr 2 \<and> read_block d f 0 = Inr (Full (replicate 1048576 7)) \<and> read_block d f 1 = Inr Absent"
proof -
  let ?p = flat_parent_params
  have ok: "params_ok ref_externs ?p" by (simp add: params_ok_def flat_parent_params_def small_params_def)
  have lay: "lay_count ?p = 2" "unat (lay_payload_start ?p) = 4194304" "wp_block_size ?p = 1048576" "\<not> wp_fixed ?p"
      "wp_data_write_guid ?p = nil_uuid"
    by (simp_all add: flat_parent_params_def lay_count_def lay_payload_start_def lay_bat_offset_def
        lay_metadata_offset_def lay_bat_length_def lay_total_def lay_ratio_def small_params_def div_ceil_def
        align_up_def offset_defs nat_payload_index_def push_bit_eq_mult Let_def max_def word_le_nat_alt)
  let ?ws = "[(0 :: u64, SrcBuf (replicate 1048576 7))]"
  obtain f where f: "\<And>q ro. \<exists>d. VhdxDisk_open ref_externs q (Some f) ro = Inr (d, f) \<and> vd_metadata d = writer_metadata ?p \<and>
      data_write_guid (active_header d) = wp_data_write_guid ?p \<and> disk_block_count d = Inr (lay_count ?p) \<and>
      (\<forall>b. unat b < unat (lay_count ?p) \<longrightarrow> read_block d f b = Inr (expected_block ?p (last_sources ?ws (unat b))))"
    using session_file [OF ok lay(4), of ?ws] lay by (auto simp: source_ok_def)
  show ?thesis
  proof (rule that [of f])
    fix q ro
    obtain d where d: "VhdxDisk_open ref_externs q (Some f) ro = Inr (d, f)" "vd_metadata d = writer_metadata ?p"
        "data_write_guid (active_header d) = wp_data_write_guid ?p" "disk_block_count d = Inr (lay_count ?p)"
        "\<forall>b. unat b < unat (lay_count ?p) \<longrightarrow> read_block d f b = Inr (expected_block ?p (last_sources ?ws (unat b)))"
      using f by blast
    have "read_block d f 0 = Inr (Full (replicate 1048576 7))" "read_block d f 1 = Inr Absent"
      using d(5) [rule_format, of 0] d(5) [rule_format, of 1] by (simp_all add: lay last_sources_def expected_block_def)
    with d show "\<exists>d. VhdxDisk_open ref_externs q (Some f) ro = Inr (d, f) \<and>
        vd_metadata d = writer_metadata ?p \<and> data_write_guid (active_header d) = nil_uuid \<and> disk_block_count d = Inr 2 \<and>
        read_block d f 0 = Inr (Full (replicate 1048576 7)) \<and> read_block d f 1 = Inr Absent"
      by (intro exI [of _ d]) (simp add: lay)
  qed
qed

lemma flat_directory:
  obtains fs cd cf pd pf where "open_chain ref_externs True fs ''/d/leaf.avhdx'' = Inr (fs, [(cd, cf), (pd, pf)])"
    and "fs_resolve fs = id" and "\<forall>l\<in>set [(cd, cf), (pd, pf)]. link_agrees cd l"
    and "vd_path cd = ''/d/leaf.avhdx''" and "vd_path pd = ''/d/base.vhdx''"
    and "disk_virtual_size cd = 2097152" "disk_block_size cd = 1048576" "logical_sector_size (vd_metadata cd) = 512"
      "physical_sector_size (vd_metadata cd) = 4096" "page_83_data (vd_metadata cd) = 13"
    and "chain_sector [(cd, cf), (pd, pf)] 512 0 = replicate 512 7"
    and "chain_sector [(cd, cf), (pd, pf)] 512 1048576 = replicate 512 9"
proof -
  let ?pl = "new_vhdx_relative ref_externs (str ''base.vhdx'') nil_uuid"
  let ?child = "''/d/leaf.avhdx''" and ?parent = "''/d/base.vhdx''"
  obtain pf where pf: "\<And>q ro. \<exists>d. VhdxDisk_open ref_externs q (Some pf) ro = Inr (d, pf) \<and>
    vd_metadata d = writer_metadata flat_parent_params \<and> data_write_guid (active_header d) = nil_uuid \<and>
    disk_block_count d = Inr 2 \<and> read_block d pf 0 = Inr (Full (replicate 1048576 7)) \<and> read_block d pf 1 = Inr Absent"
    using flat_parent_file by blast
  obtain cf where cf: "\<And>q ro. \<exists>d. VhdxDisk_open ref_externs q (Some cf) ro = Inr (d, cf) \<and>
    vd_metadata d = writer_metadata merge_child_params \<and> disk_block_count d = Inr 2 \<and>
    read_block d cf 0 = Inr Absent \<and> read_block d cf 1 = Inr (Full (replicate 1048576 9))"
    using merge_child_file by blast
  define fs where "fs = \<lparr>fs_files = fmupd ?child cf (fmupd ?parent pf fmempty), fs_resolve = id\<rparr>"
  have fs: "fs_open fs ?child = Some cf" "fs_open fs ?parent = Some pf" "fs_resolve fs = id"
    by (simp_all add: fs_def fs_open_def)
  obtain pd where pd: "VhdxDisk_open ref_externs ?parent (fs_open fs ?parent) True = Inr (pd, pf)"
      "vd_metadata pd = writer_metadata flat_parent_params" "data_write_guid (active_header pd) = nil_uuid"
      "disk_block_count pd = Inr 2" "read_block pd pf 0 = Inr (Full (replicate 1048576 7))" "read_block pd pf 1 = Inr Absent"
    using pf [of ?parent True] unfolding fs(2) by blast
  obtain cd where cd: "VhdxDisk_open ref_externs ?child (fs_open fs ?child) True = Inr (cd, cf)"
      "vd_metadata cd = writer_metadata merge_child_params" "disk_block_count cd = Inr 2"
      "read_block cd cf 0 = Inr Absent" "read_block cd cf 1 = Inr (Full (replicate 1048576 9))"
    using cf [of ?child True] unfolding fs(1) by blast
  note cm = leaf_facts [OF cd(2)]
  have pm: "\<not> disk_has_parent pd" "disk_virtual_size pd = 2097152" "disk_block_size pd = 1048576"
      "logical_sector_size (vd_metadata pd) = 512"
    by (simp_all add: pd(2) disk_has_parent_def disk_virtual_size_def disk_block_size_def writer_metadata_def
        flat_parent_params_def small_params_def block_size_def)
  have cnt: "bat_block_count (vd_bat cd) = 2" "bat_block_count (vd_bat pd) = 2"
    using disk_wf_count [OF open_wf(1) [OF cd(1)]] cd(3) disk_wf_count [OF open_wf(1) [OF pd(1)]] pd(4) by simp_all
  obtain c m n where c: "Chain_discover ref_externs fs ?child = Inr c" "ch_nodes c = [m, n]" "cn_path m = ?child" "cn_path n = ?parent"
    using discover_two [OF ref_uuid_text_laws leaf_dir(1) leaf_dir(2) [symmetric] cd(1) cm(1,2) pd(1) pm(1)]
    by (auto simp: pd(3) fs(3) node_of_def)
  have run: "open_chain ref_externs True fs ?child = Inr (fs, [(cd, cf), (pd, pf)])"
    by (simp add: open_chain_def repair_nodes_skip repair_unless_def c cd(1) pd(1))
  have reads: "\<exists>r. link_read l b = Inr r" if "l \<in> {(cd, cf), (pd, pf)}" "unat b < link_count l" for l b
    using that two_blocks_read [OF cnt(1) cd(4,5), of b] two_blocks_read [OF cnt(2) pd(5,6), of b]
    by (auto simp: link_read_def link_count_def)
  have agrees: "\<forall>l\<in>set [(cd, cf), (pd, pf)]. link_agrees cd l"
    using reads open_wf(1) [OF cd(1)] open_wf(1) [OF pd(1)]
    by (auto simp: link_agrees_def disk_ok_def link_size_def cm pm)
  have paths: "vd_path cd = ?child" "vd_path pd = ?parent"
    using cd(1) pd(1) by (auto simp: VhdxDisk_open_def res_simps split: if_splits)
  have s: "link_size (cd, cf) = 1048576" "link_size (pd, pf) = 1048576" "link_count (cd, cf) = 2" "link_count (pd, pf) = 2"
    by (simp_all add: link_size_def link_count_def cm pm cnt)
  have l: "link_content (cd, cf) 512 0 = None" "link_content (pd, pf) 512 0 = Some (replicate 512 7)"
      "link_content (cd, cf) 512 1048576 = Some (replicate 512 9)"
    using link_content_block [of 0 "(cd, cf)" Absent 0 512] link_content_block [of 1 "(cd, cf)" _ 0 512]
      link_content_block [of 0 "(pd, pf)" _ 0 512] cd(4,5) pd(5)
    by (simp_all add: s link_read_def bslice_replicate)
  show ?thesis
    by (rule that [OF run fs(3) agrees paths cm(3,4,5,6,7)]) (use l in simp_all)
qed

lemma flat_params:
  assumes "disk_virtual_size cd = 2097152" "disk_block_size cd = 1048576" "logical_sector_size (vd_metadata cd) = 512"
      "physical_sector_size (vd_metadata cd) = 4096" "page_83_data (vd_metadata cd) = 13" "fo_subformat opts = Dynamic"
  shows "params_ok E (flatten_params 1 2 opts cd)" "lay_count (flatten_params 1 2 opts cd) = 2"
    "unat (lay_payload_start (flatten_params 1 2 opts cd)) = 4194304"
    "wp_logical_sector_size (flatten_params 1 2 opts cd) = 512" "wp_block_size (flatten_params 1 2 opts cd) = 1048576"
proof -
  have p: "flatten_params 1 2 opts cd = small_params\<lparr>wp_virtual_disk_size := 2097152, wp_data_write_guid := 1,
      wp_file_write_guid := 2\<rparr>"
    using assms by (simp add: flatten_params_def small_params_def)
  show "params_ok E (flatten_params 1 2 opts cd)" "lay_count (flatten_params 1 2 opts cd) = 2"
    "unat (lay_payload_start (flatten_params 1 2 opts cd)) = 4194304"
    "wp_logical_sector_size (flatten_params 1 2 opts cd) = 512" "wp_block_size (flatten_params 1 2 opts cd) = 1048576"
    unfolding p by (simp_all add: params_ok_def lay_count_def lay_payload_start_def lay_bat_offset_def lay_metadata_offset_def
      lay_bat_length_def lay_total_def lay_ratio_def small_params_def div_ceil_def align_up_def offset_defs
      nat_payload_index_def push_bit_eq_mult Let_def max_def word_le_nat_alt)
qed

lemma delivers_chainD:
  assumes "delivers_chain E p links f" and "unat b < unat (lay_count p)"
    and "wp_logical_sector_size p = 512" "wp_block_size p = 1048576"
  shows "\<exists>d buf. VhdxDisk_open E q (Some f) ro = Inr (d, f) \<and> read_block d f b = Inr (Full buf) \<and>
    bslice buf 0 512 = chain_sector links 512 (unat b * 1048576)"
proof -
  obtain d where d: "VhdxDisk_open E q (Some f) ro = Inr (d, f)"
      "\<forall>b. unat b < unat (lay_count p) \<longrightarrow> (\<exists>buf. read_block d f b = Inr (Full buf) \<and>
         holds_chain links 512 1048576 (unat b) buf)"
    using assms(1) unfolding delivers_chain_def assms(3,4) by fastforce
  then obtain buf where "read_block d f b = Inr (Full buf)" "holds_chain links 512 1048576 (unat b) buf"
    using assms(2) by blast
  moreover have "bslice buf 0 512 = chain_sector links 512 (unat b * 1048576)"
    using calculation(2) unfolding holds_chain_def by (auto dest!: spec [of _ 0])
  ultimately show ?thesis using d(1) by blast
qed


text \<open>An encoder that stores: the archive is the file.\<close>

definition storing_encoder :: "bytes zstd_encoder" where
  "storing_encoder = \<lparr>ze_new = (\<lambda>_ _. Inr []), ze_multithread = (\<lambda>s _. Inr s), ze_put = vec_put, ze_finish = (\<lambda>s. Inr (file_of s)), ze_dest = file_of\<rparr>"

definition stored_bytes :: "dfile \<Rightarrow> bytes" where
  "stored_bytes f = map (f_data f) [0..<f_len f]"

lemma storing_works: "zstd_works storing_encoder id stored_bytes"
proof -
  have "stored_bytes (file_of s) = s" for s
    by (rule nth_equalityI) (simp_all add: stored_bytes_def file_of_def)
  then show ?thesis by (auto simp: zstd_works_def storing_encoder_def vec_put_def)
qed


theorem flatten_zst_archive_witness:
  "\<exists>fs fs' rep evs f img d buf. flatten ref_externs storing_encoder (\<lambda>fs _. Inr fs) 0 1 2 8388608 fs ''/d/leaf.avhdx'' ''/d/flat.tar.zst''
      (FlattenOptions_default\<lparr>fo_skip_fsck := True, fo_compress_zstd := Some (ZstdParams_new 3 0)\<rparr>) = Inr (fs', rep, evs) \<and>
    fs_open fs' ''/d/flat.tar.zst'' = Some f \<and> bslice (stored_bytes f) 512 (512 + length img) = img \<and>
    VhdxDisk_open ref_externs ''/d/flat.vhdx'' (Some (file_of img)) False = Inr (d, file_of img) \<and>
    read_block d (file_of img) 0 = Inr (Full buf) \<and> bslice buf 0 512 = replicate 512 7"
proof -
  obtain fs cd cf pd pf where F: "open_chain ref_externs True fs ''/d/leaf.avhdx'' = Inr (fs, [(cd, cf), (pd, pf)])"
      "fs_resolve fs = id" "\<forall>l\<in>set [(cd, cf), (pd, pf)]. link_agrees cd l"
      "vd_path cd = ''/d/leaf.avhdx''" "vd_path pd = ''/d/base.vhdx''"
      "disk_virtual_size cd = 2097152" "disk_block_size cd = 1048576" "logical_sector_size (vd_metadata cd) = 512"
      "physical_sector_size (vd_metadata cd) = 4096" "page_83_data (vd_metadata cd) = 13"
      "chain_sector [(cd, cf), (pd, pf)] 512 0 = replicate 512 7"
    using flat_directory by metis
  let ?opts = "FlattenOptions_default\<lparr>fo_skip_fsck := True, fo_compress_zstd := Some (ZstdParams_new 3 0)\<rparr>"
  let ?links = "[(cd, cf), (pd, pf)]" and ?p = "flatten_params 1 2 (FlattenOptions_default\<lparr>fo_skip_fsck := True, fo_compress_zstd := Some (ZstdParams_new 3 0)\<rparr>) cd"
  have opts: "fo_compress_zstd ?opts = Some (ZstdParams_new 3 0)" "fo_subformat ?opts = Dynamic" "\<not> fo_compress_ntfs ?opts"
    by (simp_all add: FlattenOptions_default_def)
  note fp = flat_params [OF F(6-10) opts(2)]
  have name: "length (inner_archive_name ''/d/flat.tar.zst'') \<le> 100" "0 \<notin> set (ascii (inner_archive_name ''/d/flat.tar.zst''))"
    by code_simp+
  have chain: "open_chain ref_externs (fo_skip_fsck ?opts) fs ''/d/leaf.avhdx'' = Inr (fs, ?links)" using F(1) by simp
  have own: "\<forall>l\<in>set ?links. fs_resolve fs (vd_path (fst l)) \<noteq> fs_resolve fs ''/d/flat.tar.zst''"
    by (simp add: F(2,4,5))
  obtain fs' rep evs f hdr img where r: "flatten ref_externs storing_encoder (\<lambda>fs _. Inr fs) 0 1 2 8388608 fs
        ''/d/leaf.avhdx'' ''/d/flat.tar.zst'' ?opts = Inr (fs', rep, evs)"
      "fs_open fs' ''/d/flat.tar.zst'' = Some f" "stored_bytes f = hdr @ img @ replicate 1024 0" "length hdr = 512"
      "delivers_chain ref_externs ?p ?links (file_of img)"
    using flatten_zst_archive [OF ref_uuid_laws storing_works opts chain fp(1) F(3) own name,
      where ntfs = "\<lambda>fs _. Inr fs" and mtime = 0 and capacity = 8388608] by auto
  obtain d buf where "VhdxDisk_open ref_externs ''/d/flat.vhdx'' (Some (file_of img)) False = Inr (d, file_of img)"
      "read_block d (file_of img) 0 = Inr (Full buf)" "bslice buf 0 512 = replicate 512 7"
    using delivers_chainD [OF r(5) _ fp(4,5), of 0 "''/d/flat.vhdx''" False] fp(2) F(11) by auto
  moreover have "bslice (stored_bytes f) 512 (512 + length img) = img" by (simp add: r(3,4) bslice_def)
  ultimately show ?thesis using r(1,2) by blast
qed

end
