(* ===== verification/Starweld_Cli.thy ===== *)
theory Starweld_Cli
  imports Vhdx_Flatten_Chain Vhdx_Compact
begin

text \<open>
  \<open>main.rs\<close> of the command line: the commands with their arguments, the options each passes to
  the engine, and what the progress bar is told.  The bar itself is the crate \<open>indicatif\<close>: the
  model records the calls made on it.  Parsing the arguments (the crate \<open>clap\<close>) and the set-up of
  the log output are left out; a command gives the values printed, and \<open>Starweld_Print\<close> their text.
\<close>

section \<open>The commands\<close>

datatype subformat_arg = ArgDynamic | ArgFixed

datatype cmd =
    Info path bool
  | ChainCmd path
  | Fsck (fsck_path: path) (fsck_fix: bool) (fsck_dry_run: bool) (fsck_no_log_discard: bool)
  | MergeCmd (merge_child: path) (merge_keep: bool) (merge_no_fsck: bool) (merge_no_progress: bool)
  | FlattenCmd (flatten_leaf: path) (flatten_out: path) (flatten_ty: subformat_arg) (flatten_no_fsck: bool)
      (flatten_keep_zero_blocks: bool) (flatten_compress_ntfs: bool) (flatten_zstd: bool) (flatten_zstd_level: "32 word")
      (flatten_zstd_threads: u32) (flatten_no_progress: bool)
  | CompactCmd (compact_path: path) (compact_sparse_size: u64) (compact_in_place: bool) (compact_no_fsck: bool)

section \<open>The progress bar\<close>

text \<open>The calls on the bar that matter for what it shows.\<close>

datatype bar_call =
    SetLength u64
  | SetPosition u64
  | SetMessage string
  | Tick
  | Inc u64
  | FinishAndClear

text \<open>Numbers in decimal, as \<open>Display\<close> prints them.\<close>

function show_nat :: "nat \<Rightarrow> string" where
  "show_nat n = (if n < 10 then [char_of (48 + n)] else show_nat (n div 10) @ [char_of (48 + n mod 10)])"
  by pat_completeness auto
termination by (relation "measure id") auto

declare show_nat.simps [simp del]

definition show_int :: "int \<Rightarrow> string" where
  "show_int i = (if i < 0 then ''-'' @ show_nat (nat (- i)) else show_nat (nat i))"

text \<open>\<open>enabled\<close> is the flag of the guard.\<close>

definition start_scan :: "bool \<Rightarrow> u64 \<Rightarrow> bar_call list" where
  "start_scan enabled total_bytes =
    (if \<not> enabled then []
     else [SetLength total_bytes, SetPosition 0, SetMessage ''scanning chain for zero blocks'', Tick])"

definition set_scan_position :: "bool \<Rightarrow> u64 \<Rightarrow> bar_call list" where
  "set_scan_position enabled bytes_scanned = (if \<not> enabled then [] else [SetPosition bytes_scanned])"

definition start_write :: "bool \<Rightarrow> u64 \<Rightarrow> u64 \<Rightarrow> bool \<Rightarrow> 32 word \<Rightarrow> u32 \<Rightarrow> bar_call list" where
  "start_write enabled total_blocks total_bytes zstd zstd_level zstd_threads =
    (if \<not> enabled then []
     else [SetLength total_bytes, SetPosition 0,
       SetMessage
         (if zstd then ''flattening + zstd L'' @ show_int (sint zstd_level) @ '' x'' @ show_nat (unat zstd_threads) @
            '' ('' @ show_nat (unat total_blocks) @ '' blocks)''
          else ''flattening '' @ show_nat (unat total_blocks) @ '' blocks''),
       Tick])"

definition bar_advance :: "bool \<Rightarrow> u64 \<Rightarrow> bool \<Rightarrow> bar_call list" where
  "bar_advance enabled bs wrote_bytes =
    (if \<not> enabled then []
     else [Inc bs, SetMessage (if \<not> wrote_bytes then ''flattening (sparse)'' else ''flattening'')])"

definition start_merge :: "bool \<Rightarrow> u64 \<Rightarrow> u64 \<Rightarrow> bar_call list" where
  "start_merge enabled total_blocks total_bytes =
    (if \<not> enabled then []
     else [SetLength total_bytes, SetPosition 0,
       SetMessage (''merging '' @ show_nat (unat total_blocks) @ '' blocks''), Tick])"

definition advance_merge :: "bool \<Rightarrow> u64 \<Rightarrow> bool \<Rightarrow> bar_call list" where
  "advance_merge enabled bs wrote_bytes =
    (if \<not> enabled then []
     else [Inc bs, SetMessage (if \<not> wrote_bytes then ''merging (absent)'' else ''merging'')])"

definition bar_finish :: "bool \<Rightarrow> bar_call list" where
  "bar_finish enabled = (if \<not> enabled then [] else [FinishAndClear])"

text \<open>When the guard is dropped.\<close>

definition bar_drop :: "bar_call list" where
  "bar_drop = [FinishAndClear]"

text \<open>The callbacks.\<close>

definition on_flatten_event :: "bool \<Rightarrow> bool \<Rightarrow> 32 word \<Rightarrow> u32 \<Rightarrow> flatten_event \<Rightarrow> bar_call list" where
  "on_flatten_event enabled zstd zstd_level zstd_threads ev = (case ev of
     ScanStarted total_bytes \<Rightarrow> start_scan enabled total_bytes
   | ScanProgress bytes_scanned \<Rightarrow> set_scan_position enabled bytes_scanned
   | ScanFinished _ _ \<Rightarrow> []
   | Started total_blocks bs total_bytes \<Rightarrow> start_write enabled total_blocks total_bytes zstd zstd_level zstd_threads
   | BlockDone index bs wrote_bytes \<Rightarrow> bar_advance enabled bs wrote_bytes
   | Finished \<Rightarrow> bar_finish enabled)"

definition on_merge_event :: "bool \<Rightarrow> merge_event \<Rightarrow> bar_call list" where
  "on_merge_event enabled ev = (case ev of
     MergeStarted total_blocks bs total_bytes \<Rightarrow> start_merge enabled total_blocks total_bytes
   | MergeBlockDone index bs wrote_bytes \<Rightarrow> advance_merge enabled bs wrote_bytes
   | MergeFinished \<Rightarrow> bar_finish enabled)"

section \<open>Running a command\<close>

text \<open>The outside of a command: the values of the machine and of the crates.\<close>

record 's host =
  h_externs :: externs
  h_zstd :: "'s zstd_encoder"
  h_ntfs :: "fsys \<Rightarrow> path \<Rightarrow> fsys res"
  h_tempfile :: "path \<Rightarrow> path res"
  h_cpus :: nat
  h_time :: u64
  h_guid1 :: uuid
  h_guid2 :: uuid
  h_capacity :: nat

text \<open>What \<open>info\<close> shows of a disk.\<close>

record disk_info =
  di_header :: header
  di_virtual_disk_size :: u64
  di_block_size :: u32
  di_block_count :: u64
  di_logical_sector_size :: u32
  di_physical_sector_size :: u32
  di_page_83_data :: uuid
  di_has_parent :: bool
  di_chain :: "chain option"

definition cmd_info :: "'s host \<Rightarrow> fsys \<Rightarrow> path \<Rightarrow> bool \<Rightarrow> disk_info res" where
  "cmd_info H fs p no_follow =
    bindR (VhdxDisk_open (h_externs H) p (fs_open fs p) True) (\<lambda>(disk, _).
    bindR (if no_follow then Inr None
      else bindR (Chain_discover (h_externs H) fs p) (\<lambda>chain. Inr (Some chain))) (\<lambda>chain.
    bindR (disk_block_count disk) (\<lambda>bcount.
    Inr \<lparr>di_header = active_header disk, di_virtual_disk_size = disk_virtual_size disk,
      di_block_size = disk_block_size disk, di_block_count = bcount,
      di_logical_sector_size = logical_sector_size (vd_metadata disk),
      di_physical_sector_size = physical_sector_size (vd_metadata disk),
      di_page_83_data = page_83_data (vd_metadata disk), di_has_parent = disk_has_parent disk,
      di_chain = chain\<rparr>)))"

definition cmd_fsck :: "'s host \<Rightarrow> fsys \<Rightarrow> path \<Rightarrow> bool \<Rightarrow> bool \<Rightarrow> bool \<Rightarrow> (fsys \<times> fsck_report) res" where
  "cmd_fsck H fs p fix dry_run allow_log_discard =
    on_file fs p (fsck (h_externs H) p
      \<lparr>fk_fix = fix, fk_dry_run = dry_run, fk_allow_log_discard = allow_log_discard\<rparr>)"

definition cmd_merge :: "'s host \<Rightarrow> fsys \<Rightarrow> path \<Rightarrow> bool \<Rightarrow> bool \<Rightarrow> bool \<Rightarrow> bool
    \<Rightarrow> (fsys \<times> merge_report \<times> bar_call list) res" where
  "cmd_merge H fs child keep no_fsck no_progress json =
    (let enabled = (\<not> no_progress \<and> \<not> json) in
     bindR (merge (h_externs H) (h_guid1 H) (h_guid2 H) fs child
       \<lparr>mo_keep_child = keep, mo_skip_fsck = no_fsck\<rparr>) (\<lambda>(fs, report, evs).
     Inr (fs, report, concat (map (on_merge_event enabled) evs) @ bar_drop)))"

definition flatten_args :: "subformat_arg \<Rightarrow> bool \<Rightarrow> bool \<Rightarrow> bool \<Rightarrow> bool \<Rightarrow> 32 word \<Rightarrow> u32 \<Rightarrow> flatten_options" where
  "flatten_args ty no_fsck keep_zero_blocks compress_ntfs zstd zstd_level resolved_threads =
     \<lparr>fo_subformat = (case ty of ArgDynamic \<Rightarrow> Dynamic | ArgFixed \<Rightarrow> Fixed), fo_skip_fsck = no_fsck,
      fo_elide_zero_blocks = (\<not> keep_zero_blocks), fo_compress_ntfs = compress_ntfs,
      fo_compress_zstd = (if zstd then Some (ZstdParams_new zstd_level resolved_threads) else None)\<rparr>"

definition cmd_flatten :: "'s host \<Rightarrow> fsys \<Rightarrow> path \<Rightarrow> path \<Rightarrow> subformat_arg \<Rightarrow> bool \<Rightarrow> bool \<Rightarrow> bool \<Rightarrow> bool \<Rightarrow> 32 word
    \<Rightarrow> u32 \<Rightarrow> bool \<Rightarrow> bool \<Rightarrow> (fsys \<times> flatten_report \<times> bar_call list) res" where
  "cmd_flatten H fs leaf out ty no_fsck keep_zero_blocks compress_ntfs zstd zstd_level zstd_threads no_progress json =
    (let final_out = (if zstd then rewrite_to_tar_zst out else out);
         resolved_threads = (if zstd_threads = 0 then word_of_nat (h_cpus H) else zstd_threads);
         opts = flatten_args ty no_fsck keep_zero_blocks compress_ntfs zstd zstd_level resolved_threads;
         enabled = (\<not> no_progress \<and> \<not> json) in
     bindR (flatten (h_externs H) (h_zstd H) (h_ntfs H) (h_time H) (h_guid1 H) (h_guid2 H) (h_capacity H)
       fs leaf final_out opts) (\<lambda>(fs, report, evs).
     Inr (fs, report, concat (map (on_flatten_event enabled zstd zstd_level resolved_threads) evs) @ bar_drop)))"

definition cmd_compact :: "'s host \<Rightarrow> fsys \<Rightarrow> path \<Rightarrow> u64 \<Rightarrow> bool \<Rightarrow> bool \<Rightarrow> (fsys \<times> compact_report) res" where
  "cmd_compact H fs p sparse_size in_place no_fsck =
    compact (h_externs H) (h_tempfile H) (h_guid1 H) (h_guid2 H) (h_capacity H) fs p
      \<lparr>co_sparse_size = sparse_size, co_in_place = in_place, co_skip_fsck = no_fsck\<rparr>"

text \<open>The values a command prints.\<close>

datatype cmd_output =
    InfoOutput disk_info
  | ChainOutput chain
  | FsckOutput fsck_report
  | MergeOutput merge_report "bar_call list"
  | FlattenOutput flatten_report "bar_call list"
  | CompactOutput compact_report

definition run_command :: "'s host \<Rightarrow> fsys \<Rightarrow> bool \<Rightarrow> cmd \<Rightarrow> (fsys \<times> cmd_output) res" where
  "run_command H fs json c = (case c of
     Info p no_follow \<Rightarrow>
       bindR (cmd_info H fs p no_follow) (\<lambda>info. Inr (fs, InfoOutput info))
   | ChainCmd p \<Rightarrow>
       bindR (Chain_discover (h_externs H) fs p) (\<lambda>chain. Inr (fs, ChainOutput chain))
   | Fsck p fix dry_run no_log_discard \<Rightarrow>
       bindR (cmd_fsck H fs p fix dry_run (\<not> no_log_discard)) (\<lambda>(fs, report). Inr (fs, FsckOutput report))
   | MergeCmd child keep no_fsck no_progress \<Rightarrow>
       bindR (cmd_merge H fs child keep no_fsck no_progress json) (\<lambda>(fs, report, calls).
       Inr (fs, MergeOutput report calls))
   | FlattenCmd leaf out ty no_fsck keep_zero compress_ntfs zstd zstd_level zstd_threads no_progress \<Rightarrow>
       bindR (cmd_flatten H fs leaf out ty no_fsck keep_zero compress_ntfs zstd zstd_level zstd_threads no_progress json)
         (\<lambda>(fs, report, calls). Inr (fs, FlattenOutput report calls))
   | CompactCmd p sparse_size in_place no_fsck \<Rightarrow>
       bindR (cmd_compact H fs p sparse_size in_place no_fsck) (\<lambda>(fs, report). Inr (fs, CompactOutput report)))"

section \<open>The events of a run\<close>

text \<open>Whatever the files hold, a run that succeeds has sent the events of its blocks.\<close>

lemma flatten_blocks_events:
  assumes "flatten_blocks opts own links bs ss spb blk n (w, k, z, evs) = Inr (w', k', z', evs')"
  shows "\<exists>wrote. length wrote = n \<and> evs' = evs @ block_events BlockDone bs blk wrote \<and>
    k' = k + word_of_nat (length (filter id wrote)) \<and> z' = z + word_of_nat (length (filter Not wrote))"
  using assms
proof (induction n arbitrary: blk w k z evs)
  case (Suc n)
  let ?elide = "\<lambda>c. fo_elide_zero_blocks opts \<and> fo_subformat opts \<noteq> Fixed \<and> is_all_zero c"
  obtain c w1 where "flatten_blocks opts own links bs ss spb (blk + 1) n
      (w1, if ?elide c then k else k + 1, if ?elide c then z + 1 else z, evs @ [BlockDone blk bs (\<not> ?elide c)]) =
      Inr (w', k', z', evs')"
    using Suc.prems by (auto simp: res_simps Let_def)
  then obtain elide where r: "flatten_blocks opts own links bs ss spb (blk + 1) n
      (w1, if elide then k else k + 1, if elide then z + 1 else z, evs @ [BlockDone blk bs (\<not> elide)]) = Inr (w', k', z', evs')"
    by blast
  from Suc.IH [OF r] obtain wrote where "length wrote = n"
      "evs' = (evs @ [BlockDone blk bs (\<not> elide)]) @ block_events BlockDone bs (blk + 1) wrote"
      "k' = (if elide then k else k + 1) + word_of_nat (length (filter id wrote))"
      "z' = (if elide then z + 1 else z) + word_of_nat (length (filter Not wrote))"
    by blast
  then show ?case by (intro exI [of _ "(\<not> elide) # wrote"]) (auto simp: id_def)
qed simp

lemma analyze_events:
  assumes "analyze_chain_zero_blocks links bs ss spb blk n scanned = Inr (flags, evs)"
  shows "length flags = n \<and> evs = scan_events bs scanned n"
  using assms
  by (induction n arbitrary: blk scanned flags evs) (fastforce simp: res_simps Let_def)+

lemma stream_blocks_events:
  assumes "stream_blocks Z own links bs ss spb blk flags (w, k, evs) = Inr (w', k', evs')"
  shows "evs' = evs @ block_events BlockDone bs blk (map Not flags) \<and> k' = k + word_of_nat (length (filter Not flags))"
  using assms
proof (induction flags arbitrary: blk w k evs)
  case (Cons z flags)
  obtain w1 where "stream_blocks Z own links bs ss spb (blk + 1) flags
      (w1, if z then k else k + 1, evs @ [BlockDone blk bs (\<not> z)]) = Inr (w', k', evs')"
    using Cons.prems by (auto simp: res_simps split: if_splits)
  from Cons.IH [OF this] show ?case by auto
qed simp

lemma flatten_zst_events:
  assumes "flatten_to_zst E Z mtime g1 g2 capacity fs leaf out opts zp = Inr (fs', rep, evs)"
    and "open_chain E (fo_skip_fsck opts) fs leaf = Inr (fs1, (ld, lf) # parents)"
  shows "\<exists>wrote. evs = zst_events (fr_blocks_total rep) (disk_block_size ld) wrote \<and>
    length wrote = unat (fr_blocks_total rep) \<and>
    fr_blocks_written rep = word_of_nat (length (filter id wrote)) \<and>
    fr_blocks_zero rep = word_of_nat (length (filter Not wrote))"
proof -
  let ?bs = "ucast (disk_block_size ld) :: u64"
  obtain n ss spb flags scan p L b enc w w' own k total evs' where
    r: "analyze_chain_zero_blocks ((ld, lf) # parents) ?bs ss spb 0 (unat n) 0 = Inr (flags, scan)"
      "stream_blocks Z own ((ld, lf) # parents) ?bs ss spb 0 flags (w, 0, ScanStarted total # scan @
        [ScanFinished (n - word_of_nat (length (filter (\<lambda>z. z) flags))) (word_of_nat (length (filter (\<lambda>z. z) flags))),
         Started n (disk_block_size ld) total]) = Inr (w', k, evs')"
      "total = saturating_mul n ?bs" "evs = evs' @ [Finished]"
      "fr_blocks_total rep = n" "fr_blocks_written rep = k" "fr_blocks_zero rep = word_of_nat (length (filter (\<lambda>z. z) flags))"
    using assms by (auto simp: flatten_to_zst_def res_simps Let_def split: if_splits)
  have flags: "length flags = unat n" "scan = scan_events ?bs 0 (unat n)"
    using analyze_events [OF r(1)] by simp_all
  have c: "length (filter id (map Not flags)) = length (filter Not flags)"
      "length (filter Not (map Not flags)) = length (filter (\<lambda>z. z) flags)"
    by (simp_all add: filter_map comp_def)
  have "n - word_of_nat (length (filter (\<lambda>z. z) flags)) = word_of_nat (length (filter Not flags))"
    using wrote_counts [of "map Not flags" n] flags(1) unfolding c by (metis add_diff_cancel_right' length_map)
  then show ?thesis
    using stream_blocks_events [OF r(2)] r(3-) flags
    by (intro exI [of _ "map Not flags"]) (simp add: zst_events_def write_events_def c comp_def)
qed

lemma flatten_events:
  assumes "flatten E Z ntfs mtime g1 g2 capacity fs leaf out opts = Inr (fs', rep, evs)"
    and "open_chain E (fo_skip_fsck opts) fs leaf = Inr (fs1, (ld, lf) # parents)"
  shows "\<exists>wrote. evs = (if fo_compress_zstd opts = None then write_events else zst_events)
      (fr_blocks_total rep) (disk_block_size ld) wrote \<and>
    length wrote = unat (fr_blocks_total rep) \<and>
    fr_blocks_written rep = word_of_nat (length (filter id wrote)) \<and>
    fr_blocks_zero rep = word_of_nat (length (filter Not wrote))"
proof (cases "fo_compress_zstd opts")
  case (Some zp)
  then show ?thesis using flatten_zst_events [OF _ assms(2)] assms(1) by (simp add: flatten_def)
next
  case None
  let ?bs = "ucast (disk_block_size ld) :: u64"
  obtain n ss spb w w' own k z evs' where
    r: "flatten_blocks opts own ((ld, lf) # parents) ?bs ss spb 0 (unat n)
        (w, 0, 0, [Started n (disk_block_size ld) (saturating_mul n ?bs)]) = Inr (w', k, z, evs')"
      "evs = evs' @ [Finished]" "fr_blocks_total rep = n" "fr_blocks_written rep = k" "fr_blocks_zero rep = z"
    using assms None by (auto simp: flatten_def flatten_links_def res_simps Let_def split: if_splits)
  show ?thesis
    using flatten_blocks_events [OF r(1)] r(2-) None by (auto simp: write_events_def)
qed

lemma merge_loop_events:
  assumes "merge_loop cd child parent bs lss spb blk n (fs, st) = Inr (fs', st')"
  shows "\<exists>wrote. length wrote = n \<and> mg_events st' = mg_events st @ block_events MergeBlockDone bs blk wrote"
  using assms
proof (induction n arbitrary: blk fs st)
  case (Suc n)
  obtain fs1 st1 w where "merge_loop cd child parent bs lss spb (blk + 1) n
      (fs1, st1\<lparr>mg_events := mg_events st1 @ [MergeBlockDone blk bs w]\<rparr>) = Inr (fs', st')" "mg_events st1 = mg_events st"
    using Suc.prems merge_step_events by (fastforce simp: res_simps)
  moreover from Suc.IH [OF this(1)] obtain wrote where "length wrote = n"
      "mg_events st' = (mg_events st1 @ [MergeBlockDone blk bs w]) @ block_events MergeBlockDone bs (blk + 1) wrote"
    by auto
  ultimately show ?case by (intro exI [of _ "w # wrote"]) simp
qed simp

lemma merge_run_events:
  assumes "merge E g1 g2 fs child opts = Inr (fs', rep, evs)"
    and "repair_unless E (mo_skip_fsck opts) fs child = Inr fs0"
    and "VhdxDisk_open E child (fs_open fs0 child) True = Inr (cd, cf)" and "disk_block_count cd = Inr n"
  shows "\<exists>wrote. evs = merge_events n (disk_block_size cd) wrote \<and> length wrote = unat n"
proof -
  let ?bs = "ucast (disk_block_size cd) :: u64"
  have bs32: "ucast ?bs = disk_block_size cd" by (rule bit_word_eqI) (simp add: bit_ucast_iff)
  obtain parent lss spb fs1 st fs2 st2 where
    "merge_loop cd child parent ?bs lss spb 0 (unat n) (fs1, st) = Inr (fs2, st2)"
    "mg_events st = [MergeStarted n (disk_block_size cd) (saturating_mul n ?bs)]" "evs = mg_events st2 @ [MergeFinished]"
    using assms by (auto simp: merge_def res_simps Let_def bs32 split: if_splits)
  with merge_loop_events [OF this(1)] show ?thesis by (auto simp: merge_events_def)
qed

section \<open>What the bar shows\<close>

text \<open>Length and position of the bar after a call, and the bars that never show more than all.\<close>

fun bar_after :: "nat \<times> nat \<Rightarrow> bar_call \<Rightarrow> nat \<times> nat" where
  "bar_after (len, pos) (SetLength l) = (unat l, pos)"
| "bar_after (len, pos) (SetPosition p) = (len, unat p)"
| "bar_after (len, pos) (Inc d) = (len, pos + unat d)"
| "bar_after (len, pos) c = (len, pos)"

abbreviation bar_replay :: "nat \<times> nat \<Rightarrow> bar_call list \<Rightarrow> nat \<times> nat" where
  "bar_replay \<equiv> foldl bar_after"

fun bar_ok :: "nat \<times> nat \<Rightarrow> bar_call list \<Rightarrow> bool" where
  "bar_ok b [] = (snd b \<le> fst b)"
| "bar_ok b (c # cs) = (snd b \<le> fst b \<and> bar_ok (bar_after b c) cs)"

lemma bar_ok_append: "bar_ok b (cs @ ds) \<longleftrightarrow> bar_ok b cs \<and> bar_ok (bar_replay b cs) ds"
  by (induction cs arbitrary: b) (cases ds; auto)+

lemma bar_ok_prefix: "bar_ok b cs \<longleftrightarrow> (\<forall>k. snd (bar_replay b (take k cs)) \<le> fst (bar_replay b (take k cs)))"
proof (induction cs arbitrary: b)
  case (Cons c cs)
  have "(\<forall>k. P (take k (c # cs))) \<longleftrightarrow> P [] \<and> (\<forall>k. P (c # take k cs))" for P
    by (metis take0 take_Suc_Cons list.exhaust_sel not0_implies_Suc)
  from this [of "\<lambda>cs. snd (bar_replay b cs) \<le> fst (bar_replay b cs)"] show ?case using Cons.IH by simp
qed simp

lemma bar_blocks:
  assumes "\<And>i w. \<exists>m. f (mk i bs w) = [Inc bs, SetMessage m]" and "pos + length wrote * unat bs \<le> len"
  shows "bar_replay (len, pos) (concat (map f (block_events mk bs blk wrote))) = (len, pos + length wrote * unat bs) \<and>
    bar_ok (len, pos) (concat (map f (block_events mk bs blk wrote)))"
  using assms(2)
proof (induction wrote arbitrary: blk pos)
  case (Cons w wrote)
  obtain m where "f (mk blk bs w) = [Inc bs, SetMessage m]" using assms(1) by blast
  moreover have "pos + unat bs + length wrote * unat bs \<le> len" using Cons.prems by simp
  ultimately show ?case using Cons.IH [of "pos + unat bs" "blk + 1"] by (simp add: ac_simps)
qed simp

lemma bar_scan:
  assumes "pos \<le> len" and "unat scanned + n * unat bs \<le> len" and "len < 18446744073709551616"
  shows "fst (bar_replay (len, pos) (concat (map (on_flatten_event True z l t) (scan_events bs scanned n)))) = len \<and>
    bar_ok (len, pos) (concat (map (on_flatten_event True z l t) (scan_events bs scanned n)))"
  using assms(1,2)
proof (induction n arbitrary: scanned pos)
  case (Suc n)
  have s: "unat (saturating_add scanned bs) = unat scanned + unat bs"
    using Suc.prems(2) assms(3) by (simp add: saturating_add_nat)
  have "unat (saturating_add scanned bs) \<le> len" "unat (saturating_add scanned bs) + n * unat bs \<le> len"
    using Suc.prems(2) unfolding s by simp_all
  from Suc.IH [OF this] show ?case
    using Suc.prems(1) by (simp add: Let_def on_flatten_event_def set_scan_position_def)
qed simp

lemma bar_of_write:
  assumes "length wrote = unat n" and "unat n * unat bs < 2 ^ 64" and "pos \<le> len"
  shows "bar_replay (len, pos) (concat (map (on_flatten_event True z l t) (write_events n bs wrote))) =
      (unat n * unat bs, unat n * unat bs) \<and>
    (pos \<le> unat n * unat bs \<longrightarrow> bar_ok (len, pos) (concat (map (on_flatten_event True z l t) (write_events n bs wrote))))"
proof -
  have total: "unat (saturating_mul n (ucast bs)) = unat n * unat bs"
    using assms(2) by (simp add: saturating_mul_nat)
  have "\<exists>m. on_flatten_event True z l t (BlockDone i (ucast bs) w) = [Inc (ucast bs), SetMessage m]" for i w
    by (simp add: on_flatten_event_def bar_advance_def)
  from bar_blocks [where f = "on_flatten_event True z l t" and mk = BlockDone, OF this, of 0 wrote "unat n * unat bs" 0] show ?thesis
    using assms(1,3) by (simp add: write_events_def on_flatten_event_def start_write_def bar_finish_def total bar_ok_append)
qed

lemma bar_of_zst:
  assumes "length wrote = unat n" and "unat n * unat bs < 2 ^ 64"
  shows "bar_replay (0, 0) (concat (map (on_flatten_event True z l t) (zst_events n bs wrote))) =
      (unat n * unat bs, unat n * unat bs) \<and>
    bar_ok (0, 0) (concat (map (on_flatten_event True z l t) (zst_events n bs wrote)))"
proof -
  let ?f = "on_flatten_event True z l t" and ?T = "unat n * unat bs"
  have total: "unat (saturating_mul n (ucast bs)) = ?T"
    using assms(2) by (simp add: saturating_mul_nat)
  let ?scan = "concat (map ?f (scan_events (ucast bs) 0 (length wrote)))"
  have s: "fst (bar_replay (?T, 0) ?scan) = ?T" "bar_ok (?T, 0) ?scan"
    using bar_scan [of 0 ?T 0 "length wrote" "ucast bs" z l t] assms by simp_all
  obtain pos where pos: "bar_replay (?T, 0) ?scan = (?T, pos)" using s(1) by (cases "bar_replay (?T, 0) ?scan") simp
  have "pos \<le> ?T" using s(2) [unfolded bar_ok_prefix, rule_format, of "length ?scan"] pos by simp
  note w = bar_of_write [OF assms this, of z l t]
  show ?thesis
    using s pos w \<open>pos \<le> ?T\<close>
    by (simp add: zst_events_def bar_ok_append total on_flatten_event_def [of _ _ _ _ "ScanStarted _"]
      on_flatten_event_def [of _ _ _ _ "ScanFinished _ _"] start_scan_def)
qed

lemma bar_of_merge:
  assumes "length wrote = unat n" and "unat n * unat bs < 2 ^ 64"
  shows "bar_replay (0, 0) (concat (map (on_merge_event True) (merge_events n bs wrote))) =
      (unat n * unat bs, unat n * unat bs) \<and>
    bar_ok (0, 0) (concat (map (on_merge_event True) (merge_events n bs wrote)))"
proof -
  have total: "unat (saturating_mul n (ucast bs)) = unat n * unat bs"
    using assms(2) by (simp add: saturating_mul_nat)
  have "\<exists>m. on_merge_event True (MergeBlockDone i (ucast bs) w) = [Inc (ucast bs), SetMessage m]" for i w
    by (simp add: on_merge_event_def advance_merge_def)
  from bar_blocks [where f = "on_merge_event True" and mk = MergeBlockDone, OF this, of 0 wrote "unat n * unat bs" 0] show ?thesis
    using assms(1) by (simp add: merge_events_def on_merge_event_def start_merge_def bar_finish_def total bar_ok_append)
qed

lemma quiet_flatten: "concat (map (on_flatten_event False z l t) evs) = []"
  by (induction evs) (simp_all add: on_flatten_event_def start_scan_def set_scan_position_def start_write_def
      bar_advance_def bar_finish_def split: flatten_event.split)

lemma quiet_merge: "concat (map (on_merge_event False) evs) = []"
  by (induction evs) (simp_all add: on_merge_event_def start_merge_def advance_merge_def bar_finish_def split: merge_event.split)

lemma bar_ok_drop: "bar_ok b cs \<Longrightarrow> bar_ok b (cs @ bar_drop) \<and> bar_replay b (cs @ bar_drop) = bar_replay b cs"
  using bar_ok_append [of b cs "[]"] by (cases "bar_replay b cs") (auto simp: bar_ok_append bar_drop_def)

text \<open>
  C37 (the bar of a flatten): on every run that succeeds, with the bar on, what it shows never
  exceeds its length, through the scan and the writing pass, and it ends with the whole disk,
  all blocks times the block size of the leaf, as length and position; with \<open>--json\<close> or
  \<open>--no-progress\<close> nothing but the final clearing reaches it.
\<close>

theorem flatten_progress_exact:
  assumes "open_chain (h_externs H) no_fsck fs leaf = Inr (fs1, (ld, lf) # parents)"
    and "cmd_flatten H fs leaf out ty no_fsck keep_zero ntfs zstd level threads no_progress json = Inr (fs', rep, calls)"
    and "unat (fr_blocks_total rep) * unat (disk_block_size ld) < 2 ^ 64"
  shows "if no_progress \<or> json then calls = [FinishAndClear]
    else (\<forall>k. snd (bar_replay (0, 0) (take k calls)) \<le> fst (bar_replay (0, 0) (take k calls))) \<and>
      bar_replay (0, 0) calls = (unat (fr_blocks_total rep) * unat (disk_block_size ld),
        unat (fr_blocks_total rep) * unat (disk_block_size ld))"
proof -
  let ?T = "unat (fr_blocks_total rep) * unat (disk_block_size ld)"
  obtain evs tt where run: "flatten (h_externs H) (h_zstd H) (h_ntfs H) (h_time H) (h_guid1 H) (h_guid2 H) (h_capacity H) fs leaf
        (if zstd then rewrite_to_tar_zst out else out) (flatten_args ty no_fsck keep_zero ntfs zstd level tt) = Inr (fs', rep, evs)"
      "calls = concat (map (on_flatten_event (\<not> no_progress \<and> \<not> json) zstd level tt) evs) @ bar_drop"
    using assms(2) by (auto simp: cmd_flatten_def Let_def res_simps)
  let ?opts = "flatten_args ty no_fsck keep_zero ntfs zstd level tt"
  have opts: "fo_skip_fsck ?opts = no_fsck" "(fo_compress_zstd ?opts = None) = (\<not> zstd)" by (simp_all add: flatten_args_def)
  obtain wrote where evs: "evs = (if \<not> zstd then write_events else zst_events) (fr_blocks_total rep) (disk_block_size ld) wrote"
      "length wrote = unat (fr_blocks_total rep)"
    using flatten_events [OF run(1), unfolded opts, OF assms(1)] by blast
  show ?thesis
  proof (cases "no_progress \<or> json")
    case True
    then show ?thesis using run(2) quiet_flatten by (auto simp: bar_drop_def)
  next
    case False
    then have calls: "calls = concat (map (on_flatten_event True zstd level tt) evs) @ bar_drop" using run(2) by simp
    have "bar_replay (0, 0) (concat (map (on_flatten_event True zstd level tt) evs)) = (?T, ?T) \<and>
        bar_ok (0, 0) (concat (map (on_flatten_event True zstd level tt) evs))"
      using bar_of_write [OF evs(2) assms(3), of 0 0 zstd level tt] bar_of_zst [OF evs(2) assms(3), of zstd level tt]
      unfolding evs(1) by (cases zstd) simp_all
    from bar_ok_drop [OF conjunct2 [OF this]] this show ?thesis using False unfolding calls bar_ok_prefix by simp
  qed
qed

text \<open>
  Likewise the bar of a merge: all blocks of the child are counted, those that it does not
  have included.
\<close>

lemma merge_progress_exact:
  assumes "repair_unless (h_externs H) no_fsck fs child = Inr fs0"
    and "VhdxDisk_open (h_externs H) child (fs_open fs0 child) True = Inr (cd, cf)" and "disk_block_count cd = Inr n"
    and "cmd_merge H fs child keep no_fsck no_progress json = Inr (fs', rep, calls)"
    and "unat n * unat (disk_block_size cd) < 2 ^ 64"
  shows "if no_progress \<or> json then calls = [FinishAndClear]
    else (\<forall>k. snd (bar_replay (0, 0) (take k calls)) \<le> fst (bar_replay (0, 0) (take k calls))) \<and>
      bar_replay (0, 0) calls = (unat n * unat (disk_block_size cd), unat n * unat (disk_block_size cd))"
proof -
  let ?opts = "\<lparr>mo_keep_child = keep, mo_skip_fsck = no_fsck\<rparr>"
  obtain evs where run: "merge (h_externs H) (h_guid1 H) (h_guid2 H) fs child ?opts = Inr (fs', rep, evs)"
      "calls = concat (map (on_merge_event (\<not> no_progress \<and> \<not> json)) evs) @ bar_drop"
    using assms(4) by (auto simp: cmd_merge_def Let_def res_simps)
  have "repair_unless (h_externs H) (mo_skip_fsck ?opts) fs child = Inr fs0" using assms(1) by simp
  from merge_run_events [OF run(1) this assms(2,3)]
  obtain wrote where evs: "evs = merge_events n (disk_block_size cd) wrote" "length wrote = unat n" by blast
  show ?thesis
  proof (cases "no_progress \<or> json")
    case True
    then show ?thesis using run(2) quiet_merge by (auto simp: bar_drop_def)
  next
    case False
    then have calls: "calls = concat (map (on_merge_event True) evs) @ bar_drop" using run(2) by simp
    note b = bar_of_merge [OF evs(2) assms(5), folded evs(1)]
    from bar_ok_drop [OF conjunct2 [OF b]] b show ?thesis using False unfolding calls bar_ok_prefix by simp
  qed
qed

section \<open>What the commands leave alone\<close>

text \<open>
  C38 (commands that only look): \<open>info\<close>, \<open>chain\<close> and \<open>fsck\<close> without \<open>--fix\<close>, or with
  \<open>--dry-run\<close>, leave every file as it was.
\<close>

theorem looking_changes_nothing:
  assumes "run_command H fs json c = Inr (fs', out)"
    and "case c of Info _ _ \<Rightarrow> True | ChainCmd _ \<Rightarrow> True | Fsck _ fix dry_run _ \<Rightarrow> \<not> fix \<or> dry_run | _ \<Rightarrow> False"
  shows "fs_open fs' q = fs_open fs q"
proof -
  have "fs_open fs' q = fs_open fs q" if c: "c = Fsck p fx dry nl" and "\<not> fx \<or> dry" for p fx dry nl
  proof -
    obtain f f' rep where f: "fs_open fs p = Some f" "fs' = fs_store fs p f'"
        "fsck (h_externs H) p \<lparr>fk_fix = fx, fk_dry_run = dry, fk_allow_log_discard = \<not> nl\<rparr> f = Inr (f', rep)"
      using assms(1) unfolding c by (auto simp: run_command_def cmd_fsck_def res_simps)
    have "f' = f" using fsck_unchanged [OF _ f(3)] that(2) by auto
    then show ?thesis using f(1,2) by (simp add: fs_open_store) (auto simp: fs_open_def)
  qed
  then show ?thesis using assms by (cases c) (auto simp: run_command_def res_simps)
qed

lemma flatten_zst_report:
  assumes "flatten_to_zst E Z mtime g1 g2 capacity fs leaf out opts zp = Inr (fs', rep, evs)"
  shows "fo_subformat opts \<noteq> Fixed \<and> \<not> fo_compress_ntfs opts \<and> fr_output rep = out \<and> fr_compressed_output rep = Some out \<and>
    (\<exists>f. fs_open fs' out = Some f \<and> fr_bytes_compressed rep = word_of_nat (f_len f))"
proof -
  have o: "fo_subformat opts \<noteq> Fixed" "\<not> fo_compress_ntfs opts"
    using assms by (auto simp: flatten_to_zst_def split: if_splits)
  obtain fs1 links where chain: "open_chain E (fo_skip_fsck opts) fs leaf = Inr (fs1, links)"
    using assms o by (auto simp: flatten_to_zst_def res_simps)
  have "links \<noteq> []" using assms o chain by (auto simp: flatten_to_zst_def)
  then obtain ld lf parents where links: "links = (ld, lf) # parents" by (cases links) auto
  have "\<exists>f. fs' = fs_store fs1 out f \<and> fr_output rep = out \<and> fr_compressed_output rep = Some out \<and>
      fr_bytes_compressed rep = word_of_nat (f_len f)"
    using assms o chain unfolding links
    by (auto simp: flatten_to_zst_def res_simps Let_def split: if_splits)
  then show ?thesis using o by (auto simp: fs_open_store)
qed

text \<open>
  C40 (\<open>--zstd\<close>): a flatten with \<open>--zstd\<close> that succeeds was given neither \<open>--ty fixed\<close> nor
  \<open>--compress-ntfs\<close>; its report names, as the output and as the archive, a path that ends
  in \<open>.tar.zst\<close>, where the archive is, with the size the report gives.
\<close>

theorem zstd_command_output:
  assumes "cmd_flatten H fs leaf out ty no_fsck keep_zero ntfs True level threads no_progress json = Inr (fs', rep, calls)"
  shows "ty = ArgDynamic \<and> \<not> ntfs \<and> fr_output rep = rewrite_to_tar_zst out \<and>
    ends_with (to_ascii_lowercase (fr_output rep)) ''.tar.zst'' \<and> fr_compressed_output rep = Some (fr_output rep) \<and>
    (\<exists>f. fs_open fs' (fr_output rep) = Some f \<and> fr_bytes_compressed rep = word_of_nat (f_len f))"
proof -
  obtain tt evs where run: "flatten_to_zst (h_externs H) (h_zstd H) (h_time H) (h_guid1 H) (h_guid2 H) (h_capacity H) fs leaf
      (rewrite_to_tar_zst out) (flatten_args ty no_fsck keep_zero ntfs True level tt) (ZstdParams_new level tt) = Inr (fs', rep, evs)"
    using assms by (auto simp: cmd_flatten_def flatten_def res_simps Let_def flatten_args_def)
  show ?thesis
    using flatten_zst_report [OF run] rewrite_ends [of out] by (cases ty) (auto simp: flatten_args_def)
qed

section \<open>Concrete runs\<close>

definition sample_host :: "bytes host" where
  "sample_host = \<lparr>h_externs = ref_externs, h_zstd = storing_encoder, h_ntfs = set_ntfs_compression_other,
     h_tempfile = (\<lambda>d. Inr (path_join d ''tmp.vhdx'')), h_cpus = 4, h_time = 0, h_guid1 = 1, h_guid2 = 2,
     h_capacity = 8388608\<rparr>"

lemma sample_host_simps [simp]:
  "h_externs sample_host = ref_externs" "h_zstd sample_host = storing_encoder" "h_ntfs sample_host = set_ntfs_compression_other"
  "h_cpus sample_host = 4" "h_time sample_host = 0" "h_guid1 sample_host = 1" "h_guid2 sample_host = 2"
  "h_capacity sample_host = 8388608"
  by (simp_all add: sample_host_def)

lemma sample_flatten:
  obtains fs ld lf parents fs' rep calls where
    "open_chain (h_externs sample_host) True fs ''/d/leaf.avhdx'' = Inr (fs, (ld, lf) # parents)"
    and "cmd_flatten sample_host fs ''/d/leaf.avhdx'' ''/d/flat.vhdx'' ArgDynamic True False False False 3 0 False False =
      Inr (fs', rep, calls)"
    and "fr_blocks_total rep = 2" and "disk_block_size ld = 1048576"
proof -
  obtain fs cd cf pd pf where F: "open_chain ref_externs True fs ''/d/leaf.avhdx'' = Inr (fs, [(cd, cf), (pd, pf)])"
      "fs_resolve fs = id" "\<forall>l\<in>set [(cd, cf), (pd, pf)]. link_agrees cd l"
      "vd_path cd = ''/d/leaf.avhdx''" "vd_path pd = ''/d/base.vhdx''"
      "disk_virtual_size cd = 2097152" "disk_block_size cd = 1048576" "logical_sector_size (vd_metadata cd) = 512"
      "physical_sector_size (vd_metadata cd) = 4096" "page_83_data (vd_metadata cd) = 13"
    using flat_directory by metis
  let ?opts = "flatten_args ArgDynamic True False False False 3 4"
  have opts: "fo_compress_zstd ?opts = None" "fo_subformat ?opts = Dynamic" "fo_skip_fsck ?opts" "\<not> fo_compress_ntfs ?opts"
    by (simp_all add: flatten_args_def)
  note fp = flat_params [OF F(6-10) opts(2)]
  have chain: "open_chain ref_externs (fo_skip_fsck ?opts) fs ''/d/leaf.avhdx'' = Inr (fs, [(cd, cf), (pd, pf)])"
    using F(1) opts(3) by simp
  obtain fs' rep evs where "flatten ref_externs storing_encoder set_ntfs_compression_other 0 1 2 8388608 fs
      ''/d/leaf.avhdx'' ''/d/flat.vhdx'' ?opts = Inr (fs', rep, evs)" "fr_blocks_total rep = 2"
    using flatten_plain_ok [where ntfs = set_ntfs_compression_other and out = "''/d/flat.vhdx''" and Z = storing_encoder
        and mtime = 0 and capacity = 8388608, OF ref_uuid_laws opts(1,2) _ chain fp(1) F(3)]
      fp(2,3) F(2,4,5,7) opts(4) by fastforce
  then have "cmd_flatten sample_host fs ''/d/leaf.avhdx'' ''/d/flat.vhdx'' ArgDynamic True False False False 3 0 False False =
      Inr (fs', rep, concat (map (on_flatten_event True False 3 4) evs) @ bar_drop)"
    by (simp add: cmd_flatten_def)
  then show ?thesis using that F(1,7) \<open>fr_blocks_total rep = 2\<close> by simp
qed

theorem flatten_progress_exact_witness:
  "\<exists>fs fs' rep calls. cmd_flatten sample_host fs ''/d/leaf.avhdx'' ''/d/flat.vhdx'' ArgDynamic True False False False 3 0 False False =
      Inr (fs', rep, calls) \<and> bar_replay (0, 0) calls = (2097152, 2097152)"
proof -
  obtain fs ld lf parents fs' rep calls where S:
    "open_chain (h_externs sample_host) True fs ''/d/leaf.avhdx'' = Inr (fs, (ld, lf) # parents)"
    "cmd_flatten sample_host fs ''/d/leaf.avhdx'' ''/d/flat.vhdx'' ArgDynamic True False False False 3 0 False False =
      Inr (fs', rep, calls)"
    "fr_blocks_total rep = 2" "disk_block_size ld = 1048576"
    using sample_flatten by blast
  have "bar_replay (0, 0) calls = (2097152, 2097152)"
    using flatten_progress_exact [OF S(1,2)] by (simp add: S(3,4))
  with S(2) show ?thesis by blast
qed

lemma merge_progress_sample:
  "\<exists>fs fs' rep calls. cmd_merge sample_host fs ''/d/leaf.avhdx'' False True False False = Inr (fs', rep, calls) \<and>
    bar_replay (0, 0) calls = (2097152, 2097152)"
proof -
  let ?child = "''/d/leaf.avhdx''" and ?parent = "''/d/base.vhdx''"
  obtain fs cd cf pd pf where ready: "merge_ready ref_externs \<lparr>mo_keep_child = False, mo_skip_fsck = True\<rparr> fs ?child ?parent fs
      cd cf pd pf"
    and K: "VhdxDisk_open ref_externs ?child (fs_open fs ?child) True = Inr (cd, cf)" "disk_block_count cd = Inr 2"
      "disk_block_size cd = 1048576"
    by (rule merge_directory) (rule that)
  have skip: "repair_unless (h_externs sample_host) True fs ?child = Inr fs" by (simp add: repair_unless_def)
  have opened: "VhdxDisk_open (h_externs sample_host) ?child (fs_open fs ?child) True = Inr (cd, cf)" using K(1) by simp
  obtain fs' rep evs where "merge ref_externs 1 2 fs ?child \<lparr>mo_keep_child = False, mo_skip_fsck = True\<rparr> = Inr (fs', rep, evs)"
    using merge_ok [OF ref_uuid_laws ready, of 1 2] by blast
  then obtain calls where run: "cmd_merge sample_host fs ?child False True False False = Inr (fs', rep, calls)"
    by (simp add: cmd_merge_def)
  have "bar_replay (0, 0) calls = (2097152, 2097152)"
    using merge_progress_exact [OF skip opened K(2) run] by (simp add: K(3))
  with run show ?thesis by blast
qed

theorem looking_changes_nothing_witness:
  "\<exists>fs info. run_command sample_host fs True (Info ''/d/leaf.avhdx'' True) = Inr (fs, InfoOutput info) \<and>
    di_block_count info = 2 \<and> fs_open fs ''/d/leaf.avhdx'' \<noteq> None"
proof -
  obtain fs cd cf where D: "VhdxDisk_open ref_externs ''/d/leaf.avhdx'' (fs_open fs ''/d/leaf.avhdx'') True = Inr (cd, cf)"
      "disk_block_count cd = Inr 2"
    by (rule merge_directory) (rule that)
  obtain info where i: "cmd_info sample_host fs ''/d/leaf.avhdx'' True = Inr info" "di_block_count info = 2"
    using D by (simp add: cmd_info_def)
  have run: "run_command sample_host fs True (Info ''/d/leaf.avhdx'' True) = Inr (fs, InfoOutput info)"
    using i(1) by (simp add: run_command_def)
  have "fs_open fs ''/d/leaf.avhdx'' = fs_open fs ''/d/leaf.avhdx''" by (rule looking_changes_nothing [OF run]) simp
  moreover have "fs_open fs ''/d/leaf.avhdx'' \<noteq> None" using open_wf(2) [OF D(1)] by simp
  ultimately show ?thesis using run i(2) by blast
qed

theorem zstd_command_output_witness:
  "\<exists>fs fs' rep calls f. cmd_flatten sample_host fs ''/d/leaf.avhdx'' ''/d/flat'' ArgDynamic True False False True 3 0 False False =
      Inr (fs', rep, calls) \<and> fr_output rep = ''/d/flat.tar.zst'' \<and> fs_open fs' ''/d/flat.tar.zst'' = Some f"
proof -
  obtain fs cd cf pd pf where F: "open_chain ref_externs True fs ''/d/leaf.avhdx'' = Inr (fs, [(cd, cf), (pd, pf)])"
      "fs_resolve fs = id" "\<forall>l\<in>set [(cd, cf), (pd, pf)]. link_agrees cd l"
      "vd_path cd = ''/d/leaf.avhdx''" "vd_path pd = ''/d/base.vhdx''"
      "disk_virtual_size cd = 2097152" "disk_block_size cd = 1048576" "logical_sector_size (vd_metadata cd) = 512"
      "physical_sector_size (vd_metadata cd) = 4096" "page_83_data (vd_metadata cd) = 13"
    using flat_directory by metis
  let ?opts = "flatten_args ArgDynamic True False False True 3 4" and ?out = "''/d/flat.tar.zst''"
  have opts: "fo_compress_zstd ?opts = Some (ZstdParams_new 3 4)" "fo_subformat ?opts = Dynamic" "\<not> fo_compress_ntfs ?opts"
    by (simp_all add: flatten_args_def)
  note fp = flat_params [OF F(6-10) opts(2)]
  have chain: "open_chain ref_externs (fo_skip_fsck ?opts) fs ''/d/leaf.avhdx'' = Inr (fs, [(cd, cf), (pd, pf)])"
    using F(1) by (simp add: flatten_args_def)
  have name: "length (inner_archive_name ?out) \<le> 100" "0 \<notin> set (ascii (inner_archive_name ?out))"
    by code_simp+
  have own: "\<forall>l\<in>set [(cd, cf), (pd, pf)]. fs_resolve fs (vd_path (fst l)) \<noteq> fs_resolve fs ?out"
    by (simp add: F(2,4,5))
  have rw: "rewrite_to_tar_zst ''/d/flat'' = ?out" by code_simp
  obtain fs' rep evs where "flatten ref_externs storing_encoder set_ntfs_compression_other 0 1 2 8388608 fs
      ''/d/leaf.avhdx'' ?out ?opts = Inr (fs', rep, evs)"
    using flatten_zst_ok [OF ref_uuid_laws storing_works opts chain refl fp(1) F(3) own name,
        where ntfs = set_ntfs_compression_other and mtime = 0 and capacity = 8388608] by blast
  then obtain calls where run: "cmd_flatten sample_host fs ''/d/leaf.avhdx'' ''/d/flat'' ArgDynamic True False False True 3 0
      False False = Inr (fs', rep, calls)"
    by (simp add: cmd_flatten_def rw)
  have "fr_output rep = ?out" "\<exists>f. fs_open fs' ?out = Some f"
    using zstd_command_output [OF run] unfolding rw by auto
  then show ?thesis using run by blast
qed

end
