(* ===== verification/Starweld_Print.thy ===== *)
theory Starweld_Print
  imports Starweld_Cli
begin

text \<open>
  The text the commands print without \<open>--json\<close>: the formatting of \<open>main.rs\<close>, \<open>Chain::pretty\<close> of
  \<open>chain.rs\<close> and the banner of \<open>lib.rs\<close>.  The output is a string of UTF-8 bytes, as paths are.
  The JSON of \<open>serde_json\<close> and the derived \<open>Debug\<close> text of a check report are not modelled.
\<close>

section \<open>Floating point\<close>

text \<open>
  The code prints sizes through \<open>f64\<close>.  The values are never negative and far from the ends of the
  range, so a value is a fraction of natural numbers, and an operation rounds its exact result to
  53 significant bits, to the even neighbour when two are equally near.  Printing with a fixed number
  of decimals rounds the exact value in the same way.
\<close>

definition half_even :: "nat \<Rightarrow> nat \<Rightarrow> nat" where
  "half_even p q =
    (let d = p div q; r = p mod q in if 2 * r > q \<or> (2 * r = q \<and> odd d) then d + 1 else d)"

fun bit_len :: "nat \<Rightarrow> nat" where
  "bit_len n = (if n = 0 then 0 else Suc (bit_len (n div 2)))"

declare bit_len.simps [simp del]

text \<open>The double nearest to \<open>p / q\<close>, with the power of two that makes the quotient an integer of 53 bits.\<close>

definition f64_round :: "nat \<Rightarrow> nat \<Rightarrow> nat \<times> nat" where
  "f64_round p q =
    (if p = 0 then (0, 1)
     else
       let k = int (bit_len p) - int (bit_len q);
           l = (if q * 2 ^ nat k \<le> p * 2 ^ nat (- k) then k else k - 1);
           s = 52 - l in
       if 0 \<le> s then (half_even (p * 2 ^ nat s) q, 2 ^ nat s)
       else (half_even p (q * 2 ^ nat (- s)) * 2 ^ nat (- s), 1))"

text \<open>\<open>as f64\<close> of an integer, division and multiplication.\<close>

definition f64_of_nat :: "nat \<Rightarrow> nat \<times> nat" where
  "f64_of_nat n = (if n < 2 ^ 53 then (n, 1) else f64_round n 1)"

definition f64_div :: "nat \<times> nat \<Rightarrow> nat \<times> nat \<Rightarrow> nat \<times> nat" where
  "f64_div x y = f64_round (fst x * snd y) (snd x * fst y)"

definition f64_mul :: "nat \<times> nat \<Rightarrow> nat \<times> nat \<Rightarrow> nat \<times> nat" where
  "f64_mul x y = f64_round (fst x * fst y) (snd x * snd y)"

text \<open>\<open>{:.n}\<close>: \<open>n\<close> decimals, from the value in units of the last one.\<close>

definition show_fixed :: "nat \<Rightarrow> nat \<times> nat \<Rightarrow> string" where
  "show_fixed n x =
    (let v = half_even (fst x * 10 ^ n) (snd x); frac = show_nat (v mod 10 ^ n) in
     show_nat (v div 10 ^ n) @ ''.'' @ replicate (n - length frac) (CHR ''0'') @ frac)"

definition gib_text :: "u64 \<Rightarrow> string" where
  "gib_text n = show_fixed 2 (f64_div (f64_of_nat (unat n)) (1073741824, 1))"

definition ratio_text :: "u64 \<Rightarrow> u64 \<Rightarrow> string" where
  "ratio_text compressed uncompressed =
    (if uncompressed > 0
     then show_fixed 1 (f64_mul (f64_div (f64_of_nat (unat compressed)) (f64_of_nat (unat uncompressed))) (100, 1))
     else show_fixed 1 (0, 1))"

section \<open>Lines\<close>

definition println :: "string \<Rightarrow> string" where
  "println s = s @ [CHR 0x0A]"

definition dec :: "'a::len word \<Rightarrow> string" where
  "dec w = show_nat (unat w)"

definition show_bool :: "bool \<Rightarrow> string" where
  "show_bool b = (if b then ''true'' else ''false'')"

text \<open>\<open>{:#x}\<close>.\<close>

function hex_digits :: "nat \<Rightarrow> string" where
  "hex_digits n =
    (let c = char_of (if n mod 16 < 10 then 48 + n mod 16 else 87 + n mod 16) in
     if n < 16 then [c] else hex_digits (n div 16) @ [c])"
  by pat_completeness auto
termination by (relation "measure id") auto

declare hex_digits.simps [simp del]

definition pad_right :: "nat \<Rightarrow> string \<Rightarrow> string" where
  "pad_right n s = s @ replicate (n - length s) (CHR '' '')"

definition uuid_display :: "externs \<Rightarrow> uuid \<Rightarrow> string" where
  "uuid_display E u = path_of (uuid_to_string E u)"

definition AUTHOR :: string where "AUTHOR = ''Asuka Zenko <contact@gungnirnet.eu>''"
definition VERSION :: string where "VERSION = ''1.0.0''"
definition TAGLINE :: string where "TAGLINE = ''Made with love using Cursor.''"

section \<open>The chain\<close>

definition opt_line :: "string \<Rightarrow> string option \<Rightarrow> string" where
  "opt_line label v = (case v of None \<Rightarrow> [] | Some s \<Rightarrow> println (label @ s))"

definition link_text :: "parent_link \<Rightarrow> string" where
  "link_text l =
    println ''       parent'' @
    opt_line ''         relative_path       = '' (map_option path_of (pk_relative_path l)) @
    opt_line ''         volume_path         = '' (map_option path_of (pk_volume_path l)) @
    opt_line ''         absolute_win32_path = '' (map_option path_of (pk_absolute_win32_path l)) @
    opt_line ''         resolved            = '' (pk_resolved_path l)"

definition node_prefix :: "nat \<Rightarrow> nat \<Rightarrow> string" where
  "node_prefix len i =
    (if i = 0 then ''leaf'' else if i = len - 1 then ''root'' else ''link '' @ show_nat i)"

definition node_text :: "externs \<Rightarrow> nat \<Rightarrow> nat \<Rightarrow> chain_node \<Rightarrow> string" where
  "node_text E len i n =
    println (pad_right 6 (node_prefix len i) @ '' '' @ cn_path n) @
    println (''       data_write_guid = '' @ uuid_display E (cn_data_write_guid n)) @
    println (''       virtual_size    = '' @ dec (cn_virtual_disk_size n) @ '' bytes ('' @
      gib_text (cn_virtual_disk_size n) @ '' GiB)'') @
    (case cn_parent_link n of None \<Rightarrow> [] | Some l \<Rightarrow> link_text l)"

definition chain_pretty :: "externs \<Rightarrow> chain \<Rightarrow> string" where
  "chain_pretty E c =
    concat (map (\<lambda>(i, n). node_text E (length (ch_nodes c)) i n) (enumerate 0 (ch_nodes c)))"

section \<open>The commands\<close>

definition info_text :: "externs \<Rightarrow> path \<Rightarrow> disk_info \<Rightarrow> string" where
  "info_text E p i =
    (let h = di_header i in
     println (''starweld '' @ VERSION @ '' by '' @ AUTHOR @ '' ('' @ TAGLINE @ '')'') @
     println [] @
     println (''file:                '' @ p) @
     println (''virtual disk size:   '' @ dec (di_virtual_disk_size i) @ '' bytes ('' @
       gib_text (di_virtual_disk_size i) @ '' GiB)'') @
     println (''block size:          '' @ dec (di_block_size i) @ '' bytes'') @
     println (''block count:         '' @ dec (di_block_count i)) @
     println (''logical sector size: '' @ dec (di_logical_sector_size i)) @
     println (''physical sector size:'' @ dec (di_physical_sector_size i)) @
     println (''page 83 data:        '' @ uuid_display E (di_page_83_data i)) @
     println (''has parent:          '' @ show_bool (di_has_parent i)) @
     println (''data write guid:     '' @ uuid_display E (data_write_guid h)) @
     println (''file write guid:     '' @ uuid_display E (file_write_guid h)) @
     println (''log guid:            '' @ uuid_display E (log_guid h)) @
     println (''sequence number:     '' @ dec (sequence_number h)) @
     println (''log offset/length:   0x'' @ hex_digits (unat (log_offset h)) @ '' / '' @ dec (log_length h) @ '' bytes'') @
     (case di_chain i of None \<Rightarrow> []
      | Some c \<Rightarrow> println [] @ println ''chain:'' @ chain_pretty E c))"

definition merge_text :: "merge_report \<Rightarrow> string" where
  "merge_text r = println (''merged '' @ mr_child r @ '' -> '' @ mr_parent r @ '' ('' @ dec (mr_blocks_copied r) @
    '' blocks, '' @ dec (mr_partial_sectors_copied r) @ '' partial sectors, child '' @
    (if mr_deleted_child r then ''deleted'' else ''kept'') @ '')'')"

definition blocks_text :: "u64 \<Rightarrow> u64 \<Rightarrow> u64 \<Rightarrow> string" where
  "blocks_text blocks wrote zero =
    '' ('' @ dec blocks @ '' blocks: '' @ dec wrote @ '' written, '' @ dec zero @ '' zero)''"

definition flatten_text :: "bool \<Rightarrow> bool \<Rightarrow> 32 word \<Rightarrow> u32 \<Rightarrow> flatten_report \<Rightarrow> string" where
  "flatten_text compress_ntfs zstd zstd_level resolved_threads r =
    (if zstd then
       println (''flattened '' @ fr_leaf r @ '' -> '' @
         (case fr_compressed_output r of Some p \<Rightarrow> p | None \<Rightarrow> fr_output r) @
         blocks_text (fr_blocks_total r) (fr_blocks_written r) (fr_blocks_zero r) @
         '' [zstd L'' @ show_int (sint zstd_level) @ '' x'' @ dec resolved_threads @
         '', inner '' @ gib_text (fr_bytes_uncompressed r) @ '' GiB -> .tar.zst '' @
         gib_text (fr_bytes_compressed r) @ '' GiB, '' @
         ratio_text (fr_bytes_compressed r) (fr_bytes_uncompressed r) @ ''%]'')
     else
       println (''flattened '' @ fr_leaf r @ '' -> '' @ fr_output r @
         blocks_text (fr_blocks_total r) (fr_blocks_written r) (fr_blocks_zero r) @
         (if compress_ntfs then '' [ntfs-compressed]'' else [])))"

definition compact_text :: "compact_report \<Rightarrow> string" where
  "compact_text r = println (''compacted '' @ cr_input r @ '' -> '' @ cr_output r @
    blocks_text (cr_blocks_total r) (cr_blocks_written r) (cr_blocks_zero r) @ '' '' @
    show_nat (cr_bytes_in r) @ '' -> '' @ show_nat (cr_bytes_out r) @ '' bytes'')"

text \<open>What a command prints without \<open>--json\<close>, where the text is modelled.\<close>

definition command_text :: "'s host \<Rightarrow> cmd \<Rightarrow> cmd_output \<Rightarrow> string option" where
  "command_text H c r = (case r of
     InfoOutput i \<Rightarrow> (case c of Info p _ \<Rightarrow> Some (info_text (h_externs H) p i) | _ \<Rightarrow> None)
   | ChainOutput chain \<Rightarrow> Some (chain_pretty (h_externs H) chain)
   | FsckOutput _ \<Rightarrow> None
   | MergeOutput rep _ \<Rightarrow> Some (merge_text rep)
   | FlattenOutput rep _ \<Rightarrow> (case c of
       FlattenCmd _ _ _ _ _ ntfs zstd level threads _ \<Rightarrow>
         Some (flatten_text ntfs zstd level (if threads = 0 then word_of_nat (h_cpus H) else threads) rep)
     | _ \<Rightarrow> None)
   | CompactOutput rep \<Rightarrow> Some (compact_text rep))"

section \<open>What the figures say\<close>

text \<open>Decimal text is read back.\<close>

definition read_nat :: "string \<Rightarrow> nat" where
  "read_nat s = foldl (\<lambda>n c. n * 10 + (of_char c - 48)) 0 s"

lemma read_nat_snoc: "read_nat (s @ [c]) = read_nat s * 10 + (of_char c - 48)"
  by (simp add: read_nat_def)

lemma read_show_nat: "read_nat (show_nat n) = n"
proof (induction n rule: show_nat.induct)
  case (1 n)
  have "(of_char (char_of (48 + n mod 10)) :: nat) = 48 + n mod 10"
    by (simp add: take_bit_eq_mod)
  then show ?case
    using 1 by (subst show_nat.simps) (auto simp: read_nat_snoc, simp add: read_nat_def)
qed

lemma show_nat_inj: "show_nat m = show_nat n \<longleftrightarrow> m = n"
  by (metis read_show_nat)

text \<open>Rounding is to the nearest.\<close>

lemma half_even_near:
  assumes "0 < q"
  shows "2 * p \<le> 2 * (q * half_even p q) + q" and "2 * (q * half_even p q) \<le> 2 * p + q"
proof -
  have p: "p = q * (p div q) + p mod q" "p mod q < q" using assms by simp_all
  consider "half_even p q = p div q" "2 * (p mod q) \<le> q" | "half_even p q = p div q + 1" "q \<le> 2 * (p mod q)"
    by (cases "q < 2 * (p mod q) \<or> (2 * (p mod q) = q \<and> odd (p div q))") (auto simp: half_even_def Let_def)
  then have "2 * p \<le> 2 * (q * half_even p q) + q \<and> 2 * (q * half_even p q) \<le> 2 * p + q"
  proof cases
    case 1
    show ?thesis using p 1(2) unfolding 1(1) by linarith
  next
    case 2
    then have "q * half_even p q = q * (p div q) + q" by simp
    then show ?thesis using p 2(2) by linarith
  qed
  then show "2 * p \<le> 2 * (q * half_even p q) + q" "2 * (q * half_even p q) \<le> 2 * p + q" by simp_all
qed

lemma half_even_exact: "0 < q \<Longrightarrow> half_even (m * q) q = m"
  by (simp add: half_even_def)

lemma bit_len_le: "n < 2 ^ k \<Longrightarrow> bit_len n \<le> k"
proof (induction k arbitrary: n)
  case (Suc k)
  then show ?case by (subst bit_len.simps) simp
qed (simp add: bit_len.simps)

lemma bit_len_GiB: "bit_len 1073741824 = 31"
  by (simp add: bit_len.simps)

text \<open>A size below \<open>2^53\<close> divided by a power of two needs no rounding.\<close>

lemma gib_quotient:
  assumes "0 < n" and "n < 2 ^ 53"
  obtains s where "f64_div (f64_of_nat n) (1073741824, 1) = (n * 2 ^ s, 1073741824 * 2 ^ s)"
proof -
  let ?k = "int (bit_len n) - int 31"
  let ?l = "if 1073741824 * 2 ^ nat ?k \<le> n * 2 ^ nat (- ?k) then ?k else ?k - 1"
  have "?l \<le> 22" using bit_len_le [OF assms(2)] by simp
  define s where "s = nat (22 - ?l)"
  have s: "52 - ?l = 30 + int s" using \<open>?l \<le> 22\<close> unfolding s_def by linarith
  have "nat (30 + int s) = 30 + s" by simp
  then have "f64_round n 1073741824 = (half_even (n * 2 ^ (30 + s)) 1073741824, 2 ^ (30 + s))"
    using assms(1) unfolding f64_round_def Let_def bit_len_GiB s by simp
  also have "\<dots> = (n * 2 ^ s, 1073741824 * 2 ^ s)"
    using half_even_exact [of 1073741824 "n * 2 ^ s"] by (simp add: power_add mult.assoc mult.commute [of 1073741824])
  finally show ?thesis using assms by (intro that) (simp add: f64_div_def f64_of_nat_def)
qed

text \<open>
  The figure in GiB is the size rounded to a hundredth: with \<open>v\<close> the hundredths printed, \<open>v / 100\<close> is
  within \<open>1 / 200\<close> of the size divided by \<open>2^30\<close>.
\<close>

lemma gib_text_accurate:
  assumes "unat n < 2 ^ 53"
  obtains v frac where "gib_text n = show_nat (v div 100) @ ''.'' @ frac" "length frac = 2" "read_nat frac = v mod 100"
    "200 * unat n \<le> 2147483648 * v + 1073741824" "2147483648 * v \<le> 200 * unat n + 1073741824"
proof -
  obtain p q where pq: "f64_div (f64_of_nat (unat n)) (1073741824, 1) = (p, q)" "0 < q" "p * 1073741824 = unat n * q"
  proof (cases "unat n = 0")
    case True
    then show ?thesis by (intro that [of 0 1]) (simp_all add: f64_div_def f64_of_nat_def f64_round_def)
  next
    case False
    with assms obtain s where "f64_div (f64_of_nat (unat n)) (1073741824, 1) = (unat n * 2 ^ s, 1073741824 * 2 ^ s)"
      using gib_quotient [of "unat n"] by auto
    then show ?thesis by (rule that) simp_all
  qed
  define v where "v = half_even (p * 100) q"
  define frac where "frac = replicate (2 - length (show_nat (v mod 100))) (CHR ''0'') @ show_nat (v mod 100)"
  have "v mod 100 < 100" by simp
  then have "length (show_nat (v mod 100)) \<le> 2" and "0 < length (show_nat (v mod 100))"
    by (subst show_nat.simps; subst show_nat.simps; simp)+
  moreover have "read_nat (replicate k (CHR ''0'') @ s) = read_nat s" for k s
    by (induction k) (simp_all add: read_nat_def)
  ultimately have frac: "length frac = 2" "read_nat frac = v mod 100"
    by (simp_all add: frac_def read_show_nat)
  have near: "2 * (p * 100) \<le> 2 * (q * v) + q" "2 * (q * v) \<le> 2 * (p * 100) + q"
    using half_even_near [OF pq(2), of "p * 100"] by (simp_all add: v_def)
  have "q * (200 * unat n) \<le> q * (2147483648 * v + 1073741824)"
    using mult_le_mono2 [OF near(1), of 1073741824] pq(3) by (simp add: algebra_simps)
  moreover have "q * (2147483648 * v) \<le> q * (200 * unat n + 1073741824)"
    using mult_le_mono2 [OF near(2), of 1073741824] pq(3) by (simp add: algebra_simps)
  moreover have "gib_text n = show_nat (v div 100) @ ''.'' @ frac"
    unfolding gib_text_def show_fixed_def pq(1) by (simp add: Let_def v_def frac_def)
  ultimately show ?thesis using frac pq(2) by (intro that) simp_all
qed

lemma gib_text_sample: "gib_text 134217728 = ''0.12''" "gib_text 137438953472 = ''128.00''" "ratio_text 1 3 = ''33.3''"
  by (simp_all add: gib_text_def ratio_text_def show_fixed_def f64_div_def f64_mul_def f64_of_nat_def f64_round_def
      bit_len.simps show_nat.simps half_even_def Let_def char_of_def bit_0)

end
