(* ===== verification/Xtask.thy ===== *)
theory Xtask
  imports Starweld_Print
begin

text \<open>
  \<open>src/xtask/src/main.rs\<close>: the build of the release binaries.  Starting a process is a parameter:
  \<open>spawn prog args w\<close> gives the world after the run and whether it succeeded, or \<open>None\<close> when the
  program cannot be started; \<open>stat w p\<close> is the length of a file, if it is there.
\<close>

type_synonym 'w spawner = "string \<Rightarrow> string list \<Rightarrow> 'w \<Rightarrow> ('w \<times> bool) option"

datatype xtask_error = FailedToInvoke string | BuildFailed string string

definition build :: "'w spawner \<Rightarrow> string \<Rightarrow> bool \<Rightarrow> 'w \<Rightarrow> xtask_error + 'w" where
  "build spawn target use_cross w =
    (let cmd_name = (if use_cross then ''cross'' else ''cargo'') in
     case spawn cmd_name [''build'', ''--release'', ''--bin'', ''starweld'', ''--target'', target] w of
       None \<Rightarrow> Inl (FailedToInvoke cmd_name)
     | Some (w, success) \<Rightarrow> if \<not> success then Inl (BuildFailed cmd_name target) else Inr w)"

definition print_artifact :: "('w \<Rightarrow> path \<Rightarrow> u64 option) \<Rightarrow> 'w \<Rightarrow> path \<Rightarrow> string" where
  "print_artifact stat w p =
    println (''  '' @ p @ '' ('' @ (case stat w p of Some n \<Rightarrow> dec n @ '' bytes'' | None \<Rightarrow> ''missing'') @ '')'')"

definition dist :: "'w spawner \<Rightarrow> ('w \<Rightarrow> path \<Rightarrow> u64 option) \<Rightarrow> string \<Rightarrow> string \<Rightarrow> bool \<Rightarrow> 'w
    \<Rightarrow> xtask_error + ('w \<times> string)" where
  "dist spawn stat linux_target windows_target use_cross w =
    (case build spawn linux_target use_cross w of
       Inl e \<Rightarrow> Inl e
     | Inr w \<Rightarrow> (case build spawn windows_target use_cross w of
         Inl e \<Rightarrow> Inl e
       | Inr w \<Rightarrow> Inr (w, println ''Artifacts:'' @
           print_artifact stat w (''target/'' @ linux_target @ ''/release/starweld'') @
           print_artifact stat w (''target/'' @ windows_target @ ''/release/starweld.exe''))))"

datatype xtask_cmd = Dist (dist_linux: string) (dist_windows: string) (dist_cross: bool)

definition xtask_default :: xtask_cmd where
  "xtask_default = Dist ''x86_64-unknown-linux-musl'' ''x86_64-pc-windows-gnu'' False"

definition xtask_main :: "'w spawner \<Rightarrow> ('w \<Rightarrow> path \<Rightarrow> u64 option) \<Rightarrow> xtask_cmd \<Rightarrow> 'w \<Rightarrow> xtask_error + ('w \<times> string)" where
  "xtask_main spawn stat c w = (case c of
     Dist linux_target windows_target cross \<Rightarrow> dist spawn stat linux_target windows_target cross w)"

text \<open>Both targets are built, in this order, when the run succeeds; a failed build stops it.\<close>

lemma build_ok:
  "build spawn target use_cross w = Inr w' \<longleftrightarrow>
    spawn (if use_cross then ''cross'' else ''cargo'') [''build'', ''--release'', ''--bin'', ''starweld'', ''--target'', target] w =
      Some (w', True)"
  by (auto simp: build_def Let_def split: option.splits prod.splits if_splits)

lemma dist_builds_both:
  "(\<exists>out. dist spawn stat t1 t2 use_cross w = Inr (w', out)) \<longleftrightarrow>
    (\<exists>w1. build spawn t1 use_cross w = Inr w1 \<and> build spawn t2 use_cross w1 = Inr w')"
  by (auto simp: dist_def split: sum.splits)

lemma dist_stops:
  "build spawn t1 use_cross w = Inl e \<Longrightarrow> dist spawn stat t1 t2 use_cross w = Inl e"
  by (simp add: dist_def)

end
