(* ===== verification/Vhdx_Merge_Crash.thy ===== *)
theory Vhdx_Merge_Crash
  imports Vhdx_Merge_View
begin

text \<open>
  A merge that is interrupted.  While the blocks are copied, the parent on disk keeps its table and
  its headers, and of its bytes only sectors that the child has are overwritten.  The child over
  such a parent shows what it showed before, whichever of the writes have reached the disk.
\<close>

section \<open>What the loop overwrites\<close>

text \<open>Byte \<open>j\<close> of a block lies in a sector that the read of the child's block delivers.\<close>

definition covered :: "nat \<Rightarrow> block_read \<Rightarrow> nat \<Rightarrow> bool" where
  "covered lss r j \<longleftrightarrow> sector_in lss r (j div lss * lss) \<noteq> None"

text \<open>Byte \<open>i\<close> of the file belongs to such a sector of a present block of the table.\<close>

definition overwritable :: "nat \<Rightarrow> nat \<Rightarrow> nat \<Rightarrow> bat \<Rightarrow> (nat \<Rightarrow> block_read) \<Rightarrow> nat \<Rightarrow> bool" where
  "overwritable bs lss n t r i \<longleftrightarrow> (\<exists>k<n. is_present (entry_of t k) \<and> off_of (entry_of t k) \<le> i \<and>
     i < off_of (entry_of t k) + bs \<and> covered lss (r k) (i - off_of (entry_of t k)))"

definition only_covered :: "nat \<Rightarrow> nat \<Rightarrow> nat \<Rightarrow> bat \<Rightarrow> (nat \<Rightarrow> block_read) \<Rightarrow> dfile \<Rightarrow> dfile \<Rightarrow> bool" where
  "only_covered bs lss n t r f0 f \<longleftrightarrow> f_len f0 \<le> f_len f \<and>
     (\<forall>i<f_len f0. f_data f i = f_data f0 i \<or> overwritable bs lss n t r i)"

text \<open>A file whose bytes are partly those before and partly those after some writes.\<close>

definition mixed :: "dfile \<Rightarrow> dfile \<Rightarrow> dfile \<Rightarrow> bool" where
  "mixed f g h \<longleftrightarrow> f_len f \<le> f_len h \<and> f_len h < 2 ^ 63 \<and> (\<forall>i<f_len f. f_data h i = f_data f i \<or> f_data h i = f_data g i)"

lemma only_covered_mixed:
  "only_covered bs lss n t r f0 g \<Longrightarrow> mixed f0 g h \<Longrightarrow> only_covered bs lss n t r f0 h"
  unfolding only_covered_def mixed_def by metis

lemma copy_present_bytes:
  assumes "length payload = length block" and "(s + n) * lss \<le> length block" and "0 < lss" and "j < length block"
  shows "fst (copy_present payload bm lss s n (block, k)) ! j = block ! j \<or> bit_is_set bm (j div lss)"
  using assms(1,2,4)
proof (induction n arbitrary: s block k)
  case (Suc n)
  let ?x = "bslice payload (s * lss) (s * lss + lss)"
  let ?block = "if bit_is_set bm s then bput (s * lss) ?x block else block"
  have fit: "s * lss + lss \<le> length block" using Suc.prems(2) by (simp add: add_mult_distrib)
  then have len: "length ?block = length block" "length ?x = lss"
    using Suc.prems(1) by (simp_all add: length_put length_slice)
  have step: "copy_present payload bm lss s (Suc n) (block, k) =
      copy_present payload bm lss (Suc s) n (?block, if bit_is_set bm s then k + 1 else k)"
    by simp
  have "?block ! j = block ! j \<or> bit_is_set bm (j div lss)"
  proof (cases "s * lss \<le> j \<and> j < s * lss + lss")
    case True
    then have "j div lss = s" by (intro div_nat_eqI) (simp_all add: mult.commute)
    then show ?thesis by auto
  next
    case False
    then show ?thesis using fit len(2) Suc.prems(3) by (auto simp: nth_put)
  qed
  moreover have "(Suc s + n) * lss \<le> length ?block" using Suc.prems(2) len(1) by simp
  ultimately show ?case
    unfolding step using Suc.IH [of ?block "Suc s" "if bit_is_set bm s then k + 1 else k"] len(1) Suc.prems(1,3) by metis
qed simp

lemma covered_simps [simp]:
  "covered lss (Full data) j" "covered lss (Partial payload bm) j \<longleftrightarrow> 0 < lss \<and> bit_is_set bm (j div lss) \<or> lss = 0 \<and> bit_is_set bm 0"
  by (cases "lss = 0"; simp add: covered_def)+

text \<open>Where the target of a block is, for a block whose entry is that of the table on disk.\<close>

lemma merge_target_where:
  assumes inv: "merge_inv cr n len bs spb reserved maps f0 c f st" and b: "unat b < unat n" and bs: "unat bsw = bs"
    and room: "unat (mg_cursor st) + bs \<le> f_max f" and run: "merge_target bsw b f st = Inr (off, g, st')"
  shows "mg_bat st' = mg_bat st" and "f_len f \<le> f_len g" and "i < f_len f \<Longrightarrow> f_data g i = f_data f i"
    and "f_len f \<le> unat off \<or> g = f \<and> is_present (entry_of (mg_bat st) (unat b)) \<and>
      off = entry_file_offset (entry_of (mg_bat st) (unat b))"
proof -
  note I = merge_invD [OF inv]
  have e: "payload_entry (mg_bat st) b = Inr (Some (entry_of (mg_bat st) (unat b)))" using entry_of_payload(1) [OF I(1) b] .
  have cur: "unat (mg_cursor st + bsw) = unat (mg_cursor st) + bs"
    using room I(7) bs by (subst unat_add_u64) simp_all
  show "mg_bat st' = mg_bat st" "f_len f \<le> f_len g" "i < f_len f \<Longrightarrow> f_data g i = f_data f i"
    "f_len f \<le> unat off \<or> g = f \<and> is_present (entry_of (mg_bat st) (unat b)) \<and>
      off = entry_file_offset (entry_of (mg_bat st) (unat b))"
    using run I(2) by (auto simp: merge_target_def e set_len_def seek_def cur split: if_splits)
qed

lemma store_present_file:
  assumes "store_present b off data f st = Inr (g, st')" and t: "table_ok cr n len (mg_bat st)" "unat b < unat n"
  shows "g = patch f (unat off) data" and "\<And>k. k \<noteq> unat b \<Longrightarrow> entry_of (mg_bat st') k = entry_of (mg_bat st) k"
  using assms(1) entry_of_payload(2) [OF t, of "BatEntry_new PAYLOAD_BLOCK_FULLY_PRESENT off"]
  by (auto simp: store_present_def res_simps)

text \<open>A step that has something to store: the target, and the data for it.\<close>

lemma merge_step_stores:
  assumes "merge_step bsw lss spb b r f st = Inr (g, st')" and "r \<noteq> Absent"
  obtains off f2 st2 data x where "merge_target bsw b f st = Inr (off, f2, st2)"
    and "store_present b off data f2 (st2\<lparr>mg_sectors := x\<rparr>) = Inr (g, st')"
    and "r = Full data \<or> (\<exists>payload bm base m. r = Partial payload bm \<and>
      parent_data bsw b off f2 (mg_bat st2) = Inr base \<and> data = fst (copy_present payload bm lss 0 spb (base, m)))"
proof (cases r)
  case (Full data)
  obtain off f2 st2 where "merge_target bsw b f st = Inr (off, f2, st2)" "store_present b off data f2 st2 = Inr (g, st')"
    using assms(1) Full by (auto simp: merge_step_def res_simps)
  then show ?thesis using that [of off f2 st2 data "mg_sectors st2"] Full by simp
next
  case (Partial payload bm)
  obtain off f2 st2 base where "merge_target bsw b f st = Inr (off, f2, st2)"
      "parent_data bsw b off f2 (mg_bat st2) = Inr base"
      "store_present b off (fst (copy_present payload bm lss 0 spb (base, mg_sectors st2))) f2
        (st2\<lparr>mg_sectors := snd (copy_present payload bm lss 0 spb (base, mg_sectors st2))\<rparr>) = Inr (g, st')"
    using assms(1) Partial by (auto simp: merge_step_def res_simps case_prod_unfold Let_def)
  then show ?thesis using that Partial by blast
qed (use assms(2) in simp)

text \<open>Of a block the parent has, only sectors of the child change.\<close>

lemma stored_over_present:
  assumes t: "table_ok cr n len (mg_bat st)" and b: "unat b < unat n" and bs: "unat bsw = bs" and lss: "0 < lss" "spb * lss \<le> bs"
    and e: "e = entry_of (mg_bat st) (unat b)" "is_present e"
    and payload: "length (payload_of bs r) = bs"
    and data: "r = Full data \<or> (\<exists>payload bm base m. r = Partial payload bm \<and>
      parent_data bsw b (entry_file_offset e) f (mg_bat st) = Inr base \<and>
      data = fst (copy_present payload bm lss 0 spb (base, m)))"
    and j: "j < length data"
  shows "j < bs" and "covered lss r j \<or> data ! j = f_data f (off_of e + j)"
proof -
  have "j < bs \<and> (covered lss r j \<or> data ! j = f_data f (off_of e + j))"
    using data
  proof (elim disjE exE conjE)
    assume "r = Full data"
    then show ?thesis using payload j by (simp add: payload_of_def)
  next
    fix pl bm base m
    assume D: "r = Partial pl bm" "parent_data bsw b (entry_file_offset e) f (mg_bat st) = Inr base"
      "data = fst (copy_present pl bm lss 0 spb (base, m))"
    have "payload_entry (mg_bat st) b = Inr (Some e)" using entry_of_payload(1) [OF t b] by (simp add: e(1))
    then have base: "base = file_bytes f (off_of e) bs"
      using D(2) e(2) bs by (simp add: parent_data_def res_simps)
    have len: "length pl = bs" "length base = bs" using payload by (simp_all add: D(1) payload_of_def base)
    have "length data = bs"
      using copy_present_sectors [of base bs pl 0 spb lss bm m] len lss D(3) by simp
    then have "j < bs" using j by simp
    then show ?thesis
      using copy_present_bytes [of pl base 0 spb lss j bm m] len lss by (auto simp: D(1,3) base nth_file_bytes)
  qed
  then show "j < bs" "covered lss r j \<or> data ! j = f_data f (off_of e + j)" by blast+
qed

lemma merge_step_covered:
  assumes inv: "merge_inv cr n len bs spb reserved maps f0 c f st" and b: "unat b < unat n" and bs: "unat bsw = bs"
    and room: "unat (mg_cursor st) + bs \<le> f_max f" and lss: "0 < lss" "spb * lss \<le> bs"
    and old: "only_covered bs lss (unat n) t r f1 f" and entry: "entry_of (mg_bat st) (unat b) = entry_of t (unat b)"
    and payload: "length (payload_of bs (r (unat b))) = bs"
    and run: "merge_step bsw lss spb b (r (unat b)) f st = Inr (g, st')"
  shows "only_covered bs lss (unat n) t r f1 g" and "\<And>k. k \<noteq> unat b \<Longrightarrow> entry_of (mg_bat st') k = entry_of (mg_bat st) k"
proof -
  let ?e = "entry_of t (unat b)"
  have "only_covered bs lss (unat n) t r f1 g \<and> (\<forall>k. k \<noteq> unat b \<longrightarrow> entry_of (mg_bat st') k = entry_of (mg_bat st) k)"
  proof (cases "r (unat b) = Absent")
    case True
    then show ?thesis using run old by (simp add: merge_step_def)
  next
    case False
    obtain off f2 st2 data x where t: "merge_target bsw b f st = Inr (off, f2, st2)"
      and s: "store_present b off data f2 (st2\<lparr>mg_sectors := x\<rparr>) = Inr (g, st')"
      and data: "r (unat b) = Full data \<or> (\<exists>payload bm base m. r (unat b) = Partial payload bm \<and>
        parent_data bsw b off f2 (mg_bat st2) = Inr base \<and> data = fst (copy_present payload bm lss 0 spb (base, m)))"
      by (rule merge_step_stores [OF run False])
    note T = merge_target_where [OF inv b bs room t] and I = merge_invD [OF inv]
    have "table_ok cr n len (mg_bat (st2\<lparr>mg_sectors := x\<rparr>))" using I(1) T(1) by simp
    note S = store_present_file [OF s this b]
    have same: "f_data f2 i = f_data f i" if "i < f_len f1" for i
      using T(3) [of i] old that by (simp add: only_covered_def)
    have "f_data g i = f_data f1 i \<or> overwritable bs lss (unat n) t r i" if i: "i < f_len f1" for i
    proof (cases "unat off \<le> i \<and> i < unat off + length data")
      case False
      then have "f_data g i = f_data f i"
        using S(1) same [OF i] i T(2) old by (auto simp: f_data_patch only_covered_def)
      then show ?thesis using old i by (simp add: only_covered_def)
    next
      case True
      then have P: "f2 = f" "is_present ?e" "off = entry_file_offset ?e"
        using T(4) i old entry by (auto simp: only_covered_def)
      let ?j = "i - unat off"
      have less: "?j < length data" using conjunct1 [OF True] conjunct2 [OF True] by linarith
      have gi: "f_data g i = data ! ?j" using True by (simp add: S(1) f_data_patch)
      note W = stored_over_present [where e = ?e, OF I(1) b bs lss entry [symmetric] P(2) payload data [unfolded P(1,3) T(1)] less]
      show ?thesis
      proof (cases "covered lss (r (unat b)) ?j")
        case covered: True
        have "overwritable bs lss (unat n) t r i"
          unfolding overwritable_def using W(1) covered b P True by (intro exI [of _ "unat b"]) auto
        then show ?thesis ..
      next
        case False
        then have "f_data g i = f_data f i" using W(2) gi True P(3) by simp
        then show ?thesis using old i by (simp add: only_covered_def)
      qed
    qed
    then show ?thesis using S T(1,2) old by (auto simp: only_covered_def)
  qed
  then show "only_covered bs lss (unat n) t r f1 g" "\<And>k. k \<noteq> unat b \<Longrightarrow> entry_of (mg_bat st') k = entry_of (mg_bat st) k"
    by blast+
qed

section \<open>The loop up to an interruption\<close>

lemma merge_loop_covered:
  assumes "merge_inv cr n len bs spb reserved maps f0 c f st" and "fs_open fs parent = Some f"
    and "fs_open fs child = Some cf" and "fs_resolve fs child \<noteq> fs_resolve fs parent"
    and "unat b + k \<le> unat n" and bs: "unat bsw = bs" and "unat (mg_cursor st) + k * bs \<le> f_max f"
    and zero: "(0, m) \<in> set reserved" "0 < m" and lss: "0 < lss" "spb * lss \<le> bs"
    and reads: "\<And>b. unat b < unat n \<Longrightarrow> read_block cd cf b = Inr (r (unat b)) \<and> length (payload_of bs (r (unat b))) = bs"
    and "only_covered bs lss (unat n) t r f1 f" and "\<And>j. unat b \<le> j \<Longrightarrow> entry_of (mg_bat st) j = entry_of t j"
  shows "\<exists>fs' st' g. merge_loop cd child parent bsw lss spb b k (fs, st) = Inr (fs', st') \<and>
    only_covered bs lss (unat n) t r f1 g \<and> fs_resolve fs' = fs_resolve fs \<and>
    (\<forall>q. fs_open fs' q = (if fs_resolve fs q = fs_resolve fs parent then Some g else fs_open fs q))"
  using assms(1-5,7,13,14)
proof (induction k arbitrary: b fs st c f)
  case 0
  then show ?case by (auto simp: fs_open_def)
next
  case (Suc k)
  have b: "unat b < unat n" using Suc.prems(5) by simp
  have "unat b + 1 < 18446744073709551616" using b unat_u64_lt [of n] by linarith
  then have b1: "unat (b + 1) = unat b + 1" by (simp add: unat_add_u64)
  have room: "unat (mg_cursor st) + bs \<le> f_max f" using Suc.prems(6) by simp
  obtain g st0 where g: "merge_step bsw lss spb b (r (unat b)) f st = Inr (g, st0)"
      "merge_inv cr n len bs spb reserved maps f0 (c(unat b := merged bs lss spb (r (unat b)) (c (unat b)))) g st0"
      "unat (mg_cursor st0) \<le> unat (mg_cursor st) + bs"
    using merge_step_ok [OF Suc.prems(1) b bs room zero _ lss(2), of "r (unat b)"] reads [OF b] by auto
  have "length (payload_of bs (r (unat b))) = bs" using reads [OF b] by simp
  note C = merge_step_covered [OF Suc.prems(1) b bs room lss Suc.prems(7) Suc.prems(8) [OF order_refl] this g(1)]
  define st1 where "st1 = st0\<lparr>mg_events := mg_events st0 @ [MergeBlockDone b bsw (r (unat b) \<noteq> Absent)]\<rparr>"
  have inv: "merge_inv cr n len bs spb reserved maps f0 (c(unat b := merged bs lss spb (r (unat b)) (c (unat b)))) g st1"
    using g(2) by (simp add: st1_def merge_inv_events)
  have "f_max g = f_max f" using merge_invD(8) [OF inv] merge_invD(8) [OF Suc.prems(1)] by simp
  then have room': "unat (mg_cursor st1) + k * bs \<le> f_max g" using g(3) Suc.prems(6) by (simp add: st1_def)
  let ?fs = "fs_store fs parent g"
  have "\<exists>fs' st' h. merge_loop cd child parent bsw lss spb (b + 1) k (?fs, st1) = Inr (fs', st') \<and>
    only_covered bs lss (unat n) t r f1 h \<and> fs_resolve fs' = fs_resolve ?fs \<and>
    (\<forall>q. fs_open fs' q = (if fs_resolve ?fs q = fs_resolve ?fs parent then Some h else fs_open ?fs q))"
    using Suc.prems(3-5,8) b1 C
    by (intro Suc.IH [OF inv _ _ _ _ room']) (simp_all add: fs_open_store st1_def)
  moreover have "merge_loop cd child parent bsw lss spb b (Suc k) (fs, st) =
      merge_loop cd child parent bsw lss spb (b + 1) k (?fs, st1)"
    using Suc.prems(2,3) reads [OF b] g(1) by (simp add: st1_def)
  ultimately show ?case by (auto simp: fs_open_store)
qed

section \<open>The interrupted parent\<close>

lemma overwritable_apart:
  assumes "payload_ok bs n reserved t len" and "overwritable bs lss n t r i"
  shows "(a, m) \<in> set reserved \<Longrightarrow> i < a \<or> a + m \<le> i"
    and "k < n \<Longrightarrow> holds_data (entry_of t k) \<Longrightarrow> off_of (entry_of t k) \<le> i \<Longrightarrow> i < off_of (entry_of t k) + bs \<Longrightarrow>
      is_present (entry_of t k) \<and> covered lss (r k) (i - off_of (entry_of t k))"
proof -
  obtain j where j: "j < n" "is_present (entry_of t j)" "off_of (entry_of t j) \<le> i" "i < off_of (entry_of t j) + bs"
      "covered lss (r j) (i - off_of (entry_of t j))"
    using assms(2) unfolding overwritable_def by blast
  note P = payload_okD [OF assms(1) j(1)]
  show "i < a \<or> a + m \<le> i" if "(a, m) \<in> set reserved"
    using P(2) [OF _ that] j(2-4) by (auto simp: apart_def)
  show "is_present (entry_of t k) \<and> covered lss (r k) (i - off_of (entry_of t k))"
    if "k < n" "holds_data (entry_of t k)" "off_of (entry_of t k) \<le> i" "i < off_of (entry_of t k) + bs"
  proof (cases "k = j")
    case False
    then show ?thesis using P(3) [OF _ that(1) False that(2)] j(2-4) that(3,4) by (auto simp: apart_def)
  qed (use j in simp)
qed

lemma interrupted_parent:
  assumes o: "VhdxDisk_open E q (Some f) ro = Inr (d, f)" and img: "image_ok d f"
    and h: "only_covered (unat (disk_block_size d)) lss (unat (bat_block_count (vd_bat d))) (vd_bat d) r f h" "f_len h < 2 ^ 63"
  shows "VhdxDisk_open E q' (Some h) True = Inr (d\<lparr>vd_path := q', vd_read_only := True, vd_file_len := f_len h\<rparr>, h)"
    and "unat b < unat (bat_block_count (vd_bat d)) \<Longrightarrow> read_block (d\<lparr>vd_path := q', vd_read_only := True, vd_file_len := f_len h\<rparr>) h b =
      Inr (initial_content d h (unat b))"
proof -
  note I = image_okD [OF img] and S = open_steps [OF o] and P = open_parts [OF o]
  have same: "file_bytes h a m = file_bytes f a m" if "(a, m) \<in> set (reserved_of d)" for a m
  proof (rule file_bytes_eqI)
    fix i assume i: "a \<le> i" "i < a + m"
    then have "i < f_len f" using I(6) [OF that] by simp
    then show "f_data h i = f_data f i"
      using h(1) overwritable_apart(1) [OF I(5) _ that, of lss r i] i by (auto simp: only_covered_def)
  qed
  have len: "f_len f \<le> f_len h" using h(1) by (simp add: only_covered_def)
  have read: "read_exact_at h a (unat m) = read_exact_at f a (unat m)" if "(unat a, unat m) \<in> set (reserved_of d)" for a m
    using same [OF that] I(6) [OF that] len by (auto simp: read_exact_at_def seek_def)
  have start: "327680 \<le> f_len f" using I(6) [OF reserved_members(1)] by simp
  note S0 = same_start [OF same [OF reserved_members(1)] start order_trans [OF start len]]
  obtain buf where buf: "read_exact_at f (re_file_offset (vd_bat_region d)) (unat (re_length (vd_bat_region d))) = Inr buf"
      "Bat_parse buf (bat_block_count (vd_bat d)) (bat_chunk_ratio (vd_bat d)) (disk_has_parent d) = Inr (vd_bat d)"
    using P(4) by blast
  let ?d = "d\<lparr>vd_path := q', vd_read_only := True, vd_file_len := f_len h\<rparr>"
  show o': "VhdxDisk_open E q' (Some h) True = Inr (?d, h)"
    using open_changed [OF o S0(1) _ S0(3), of "vd_header_pair d" buf "vd_bat d" True q'] S(2) S0(2) buf
      read [of "re_file_offset (vd_metadata_region d)" "re_length (vd_metadata_region d)"]
      read [of "re_file_offset (vd_bat_region d)" "re_length (vd_bat_region d)"]
      reserved_members(2,3) [of d]
    by (simp add: metadata_range_def table_range_def del: reserved_members)
  show "read_block ?d h b = Inr (initial_content d h (unat b))" if b: "unat b < unat (bat_block_count (vd_bat d))"
  proof (rule read_block_at [where len = "length (bat_entries (vd_bat d))" and spb = "sectors_of d"])
    show "disk_wf ?d" by (rule open_wf(1) [OF o'])
    have "content_at (unat (disk_block_size d)) (sectors_of d) h (vd_bat d) (unat b) \<noteq> None"
      using I(9) [OF b] by (auto simp: content_at_def block_content_def split: payload_state.splits if_splits)
    then show "content_at (unat (disk_block_size ?d)) (sectors_of d) h (vd_bat ?d) (unat b) = Some (initial_content d h (unat b))"
      by (auto simp: initial_content_def disk_block_size_def)
    show "off_of (entry_of (vd_bat ?d) (unat b)) + unat (disk_block_size ?d) \<le> f_len h"
      if "holds_data (entry_of (vd_bat ?d) (unat b))"
      using payload_okD(1) [OF I(5) b] that len by (simp add: disk_block_size_def)
    show "fst (bitmap_range (vd_bat ?d) (sectors_of d) (unat b)) + snd (bitmap_range (vd_bat ?d) (sectors_of d) (unat b)) \<le> f_len h"
      if "is_partial (entry_of (vd_bat ?d) (unat b))"
    proof -
      have "bitmap_range (vd_bat d) (sectors_of d) (unat b) \<in> set (reserved_of d)"
        using that by (intro reserved_members(4) partial_reserved b) simp
      then show ?thesis
        using I(6) [of "fst (bitmap_range (vd_bat d) (sectors_of d) (unat b))" "snd (bitmap_range (vd_bat d) (sectors_of d) (unat b))"] len
        by simp
    qed
    show "f_len h < 2 ^ 63" by (rule h(2))
  qed (use I(2) b in \<open>simp_all add: sectors_of_def disk_block_size_def\<close>)
qed

text \<open>A sector the child does not have is the same in the interrupted parent.\<close>

lemma interrupted_sector:
  assumes img: "image_ok d f" and k: "k < unat (bat_block_count (vd_bat d))"
    and h: "only_covered (unat (disk_block_size d)) lss (unat (bat_block_count (vd_bat d))) (vd_bat d) r f h"
    and s: "s < unat (disk_block_size d) div lss" and none: "sector_in lss (r k) (s * lss) = None"
  shows "sector_in lss (initial_content d h k) (s * lss) = sector_in lss (initial_content d f k) (s * lss)"
proof -
  let ?e = "entry_of (vd_bat d) k" and ?bs = "unat (disk_block_size d)"
  note I = image_okD [OF img]
  have lss: "0 < lss" using s by (cases "lss = 0") simp_all
  have fit: "s * lss + lss \<le> ?bs"
    using s mult_le_mono1 [of "Suc s" "?bs div lss" lss] div_times_less_eq_dividend [of ?bs lss] unfolding mult_Suc by linarith
  have data: "file_bytes h (off_of ?e + s * lss) lss = file_bytes f (off_of ?e + s * lss) lss" if e: "holds_data ?e"
  proof (rule file_bytes_eqI)
    fix i assume i: "off_of ?e + s * lss \<le> i" "i < off_of ?e + s * lss + lss"
    then have "(i - off_of ?e) div lss = s" by (intro div_nat_eqI) (simp_all add: mult.commute)
    then have "\<not> covered lss (r k) (i - off_of ?e)" using none by (simp add: covered_def)
    then have "\<not> overwritable ?bs lss (unat (bat_block_count (vd_bat d))) (vd_bat d) r i"
      using overwritable_apart(2) [OF I(5) _ k e, of lss r i] i fit by auto
    moreover have "i < f_len f" using payload_okD(1) [OF I(5) k e] i fit by simp
    ultimately show "f_data h i = f_data f i" using h by (auto simp: only_covered_def)
  qed
  have maps: "file_bytes h a m = file_bytes f a m" if "(a, m) \<in> set (reserved_of d)" for a m
  proof (rule file_bytes_eqI)
    fix i assume i: "a \<le> i" "i < a + m"
    then have "i < f_len f" using I(6) [OF that] by simp
    then show "f_data h i = f_data f i"
      using h overwritable_apart(1) [OF I(5) _ that, of lss r i] i by (auto simp: only_covered_def)
  qed
  have bitmap: "file_bytes h (fst (bitmap_range (vd_bat d) (sectors_of d) k)) (snd (bitmap_range (vd_bat d) (sectors_of d) k)) =
      file_bytes f (fst (bitmap_range (vd_bat d) (sectors_of d) k)) (snd (bitmap_range (vd_bat d) (sectors_of d) k))"
    if "is_partial ?e"
    using maps reserved_members(4) [OF partial_reserved [OF k that]] by simp
  show ?thesis
    using initial_content_at [OF img k] data bitmap fit lss
    by (auto simp: initial_content_def content_at_def block_content_def file_bytes_slice min_def
        split: if_splits payload_state.splits)
qed

section \<open>The child over an interrupted merge\<close>

lemma interrupted_view:
  fixes cd :: vhdx_disk
  defines "n \<equiv> unat (bat_block_count (vd_bat cd))" and "bs \<equiv> unat (disk_block_size cd)"
    and "sz \<equiv> unat (logical_sector_size (vd_metadata cd))"
  assumes ready: "merge_ready E opts fs child parent fs1 cd cf pd pf"
    and h: "only_covered bs sz n (vd_bat pd) (child_read cd cf) pf h" "f_len h < 2 ^ 63"
  shows "\<exists>d. VhdxDisk_open E q (Some h) True = Inr (d, h) \<and> active_header d = active_header pd \<and>
    vd_metadata d = vd_metadata pd \<and> vd_bat d = vd_bat pd \<and>
    (\<forall>k < n. \<forall>s < bs div sz. \<forall>rest. chain_sector ((cd, cf) # (d, h) # rest) sz (k * bs + s * sz) =
      chain_sector ((cd, cf) # (pd, pf) # rest) sz (k * bs + s * sz))"
proof -
  note R = merge_readyD [OF ready] and F = merge_ready_files [OF ready] and N = merge_ready_count(1) [OF ready]
  let ?d = "pd\<lparr>vd_path := q, vd_read_only := True, vd_file_len := f_len h\<rparr>"
  have h': "only_covered (unat (disk_block_size pd)) sz (unat (bat_block_count (vd_bat pd))) (vd_bat pd) (child_read cd cf) pf h"
    using h(1) R(3) N by (simp add: n_def bs_def)
  note P = interrupted_parent [OF F(5) R(7) h' h(2)]
  have "chain_sector ((cd, cf) # (?d, h) # rest) sz (k * bs + s * sz) = chain_sector ((cd, cf) # (pd, pf) # rest) sz (k * bs + s * sz)"
    if k: "k < n" and s: "s < bs div sz" for k s rest
  proof -
    have b: "unat (word_of_nat k :: u64) = k"
      using k unat_u64_lt [of "bat_block_count (vd_bat cd)"] unfolding n_def by (intro unat_of_nat_u64) linarith
    have kp: "k < unat (bat_block_count (vd_bat pd))" using k N by (simp add: n_def)
    have "s * sz < bs div sz * sz" using s by (cases "sz = 0") simp_all
    then have lo: "s * sz < bs" using div_times_less_eq_dividend [of bs sz] by linarith
    have geo: "link_count l = n \<and> link_size l = bs" if "l \<in> {(cd, cf), (pd, pf), (?d, h)}" for l
      using that N R(3) by (auto simp: link_count_def link_size_def n_def bs_def disk_block_size_def)
    have content: "link_content l sz (k * bs + s * sz) = sector_in sz y (s * sz)"
      if "l \<in> {(cd, cf), (pd, pf), (?d, h)}" "link_read l (word_of_nat k) = Inr y" for l y
      using link_content_block [of "word_of_nat k" l y "s * sz" sz] that geo [OF that(1)] k b lo by simp
    have reads: "link_read (cd, cf) (word_of_nat k) = Inr (child_read cd cf k)"
        "link_read (pd, pf) (word_of_nat k) = Inr (initial_content pd pf k)"
        "link_read (?d, h) (word_of_nat k) = Inr (initial_content pd h k)"
      using child_reads [OF ready, of "word_of_nat k"] image_reads [OF R(7) open_wf(1) [OF F(5)], of "word_of_nat k"]
        P(2) [of "word_of_nat k"] k kp b R(8,9)
      by (simp_all add: link_read_def n_def)
    show ?thesis
    proof (cases "sector_in sz (child_read cd cf k) (s * sz)")
      case None
      have "s < unat (disk_block_size pd) div sz" using s R(3) by (simp add: bs_def)
      note interrupted_sector [OF R(7) kp h' this None]
      then have "link_content (?d, h) sz (k * bs + s * sz) = link_content (pd, pf) sz (k * bs + s * sz)"
        using content [OF _ reads(2)] content [OF _ reads(3)] by simp
      then show ?thesis unfolding chain_sector.simps by (rule arg_cong)
    qed (use content [OF _ reads(1)] in simp)
  qed
  then show ?thesis using P(1) by (intro exI [of _ ?d]) (simp add: active_header_def)
qed

lemma merge_loop_prefix:
  assumes ready: "merge_ready E opts fs child parent fs1 cd cf pd pf" and k: "k \<le> unat (bat_block_count (vd_bat cd))"
  shows "\<exists>pf1 cur fs2 st g. aligned_end pf = Inr (pf1, cur) \<and>
    merge_loop cd child parent (ucast (disk_block_size cd)) (unat (logical_sector_size (vd_metadata cd))) (sectors_of cd) 0 k
      (fs_store fs1 parent pf1, \<lparr>mg_bat = vd_bat pd, mg_cursor = cur, mg_blocks = 0, mg_sectors = 0, mg_events = es\<rparr>) =
      Inr (fs2, st) \<and>
    only_covered (unat (disk_block_size cd)) (unat (logical_sector_size (vd_metadata cd)))
      (unat (bat_block_count (vd_bat cd))) (vd_bat pd) (child_read cd cf) pf g \<and>
    (\<forall>q. fs_open fs2 q = (if fs_resolve fs q = fs_resolve fs parent then Some g else fs_open fs1 q))"
proof -
  let ?bs = "unat (disk_block_size cd)" and ?lss = "unat (logical_sector_size (vd_metadata cd))"
    and ?n = "bat_block_count (vd_bat pd)"
  note R = merge_readyD [OF ready] and F = merge_ready_files [OF ready] and N = merge_ready_count(1) [OF ready]
  have spb: "sectors_of pd = sectors_of cd" using R(3,4) by (simp add: sectors_of_def)
  have room: "f_len pf + 1048576 \<le> f_max pf" using R(8) by linarith
  let ?st = "\<lambda>cur. \<lparr>mg_bat = vd_bat pd, mg_cursor = cur, mg_blocks = 0, mg_sectors = 0, mg_events = es\<rparr>"
  obtain pf1 cur where st: "aligned_end pf = Inr (pf1, cur)" "unat cur < f_len pf + 1048576" "f_max pf1 = f_max pf"
      and inv: "parent_inv pd pf (initial_content pd pf) pf1 (?st cur)"
    using merge_start [OF R(7) open_wf(1) [OF F(5)] room R(9)] by blast
  obtain "f_len pf \<le> f_len pf1" and same: "file_bytes pf1 0 (f_len pf) = file_bytes pf 0 (f_len pf)"
    by (rule aligned_end_ok [OF room R(9)]) (use st(1) in auto)
  moreover have "f_data pf1 i = f_data pf i" if "i < f_len pf" for i
    using arg_cong [OF same, of "\<lambda>x. x ! i"] that by (simp add: nth_file_bytes)
  ultimately have start: "only_covered ?bs ?lss (unat ?n) (vd_bat pd) (child_read cd cf) pf pf1" by (simp add: only_covered_def)
  have "k * ?bs \<le> unat (bat_block_count (vd_bat cd)) * ?bs" using k by (rule mult_le_mono1)
  then have fit: "unat (mg_cursor (?st cur)) + k * ?bs \<le> f_max pf1"
    using st(2) R(8) unfolding st(3) merge_state.simps by linarith
  have lss: "0 < ?lss" "sectors_of cd * ?lss \<le> ?bs" using R(5) by (simp_all add: sectors_of_def word_less_nat_alt)
  have reads: "read_block cd cf b = Inr (child_read cd cf (unat b)) \<and> length (payload_of ?bs (child_read cd cf (unat b))) = ?bs"
    if "unat b < unat ?n" for b
    using child_reads [OF ready, of b] that N by simp
  let ?fs = "fs_store fs1 parent pf1"
  have o: "fs_open ?fs parent = Some pf1" "fs_open ?fs child = Some cf" "fs_resolve ?fs child \<noteq> fs_resolve ?fs parent"
    using F(2,3) R(1) by (simp_all add: fs_open_store)
  have "\<exists>fs2 st g. merge_loop cd child parent (ucast (disk_block_size cd)) ?lss (sectors_of cd) 0 k (?fs, ?st cur) = Inr (fs2, st) \<and>
    only_covered ?bs ?lss (unat ?n) (vd_bat pd) (child_read cd cf) pf g \<and> fs_resolve fs2 = fs_resolve ?fs \<and>
    (\<forall>q. fs_open fs2 q = (if fs_resolve ?fs q = fs_resolve ?fs parent then Some g else fs_open ?fs q))"
    using k N
    by (intro merge_loop_covered [where b = 0 and m = 327680 and t = "vd_bat pd",
        OF inv [unfolded R(3) spb] o _ _ fit _ _ lss reads start]) simp_all
  then show ?thesis using st(1) F(3) N by (auto simp: fs_open_store)
qed

text \<open>
  C5 (an interrupted merge loses nothing): whenever a merge that is ready stops after any number
  of blocks, with the table and the headers of the parent not yet written, the child's file is as
  it was.  Whichever bytes of the writes so far have reached the parent's disk, the parent opens
  with the headers, the metadata and the table it had, and the child over it, and over any links
  below, shows in every sector what it showed before the merge.
\<close>

theorem interrupted_merge_keeps_view:
  fixes cd :: vhdx_disk
  defines "n \<equiv> unat (bat_block_count (vd_bat cd))" and "bs \<equiv> unat (disk_block_size cd)"
    and "sz \<equiv> unat (logical_sector_size (vd_metadata cd))"
  assumes "merge_ready E opts fs child parent fs1 cd cf pd pf" and "done_blocks \<le> n"
  shows "\<exists>pf1 cur fs2 st g. aligned_end pf = Inr (pf1, cur) \<and>
    merge_loop cd child parent (ucast (disk_block_size cd)) sz (sectors_of cd) 0 done_blocks
      (fs_store fs1 parent pf1, \<lparr>mg_bat = vd_bat pd, mg_cursor = cur, mg_blocks = 0, mg_sectors = 0, mg_events = es\<rparr>) =
      Inr (fs2, st) \<and>
    fs_open fs2 child = Some cf \<and> fs_open fs2 parent = Some g \<and>
    (\<forall>h q. mixed pf g h \<longrightarrow> (\<exists>d. VhdxDisk_open E q (Some h) True = Inr (d, h) \<and>
      active_header d = active_header pd \<and> vd_metadata d = vd_metadata pd \<and> vd_bat d = vd_bat pd \<and>
      (\<forall>k < n. \<forall>s < bs div sz. \<forall>rest. chain_sector ((cd, cf) # (d, h) # rest) sz (k * bs + s * sz) =
        chain_sector ((cd, cf) # (pd, pf) # rest) sz (k * bs + s * sz))))"
proof -
  note F = merge_ready_files [OF assms(4)]
  obtain pf1 cur fs2 st g where L: "aligned_end pf = Inr (pf1, cur)"
      "merge_loop cd child parent (ucast (disk_block_size cd)) sz (sectors_of cd) 0 done_blocks
        (fs_store fs1 parent pf1, \<lparr>mg_bat = vd_bat pd, mg_cursor = cur, mg_blocks = 0, mg_sectors = 0, mg_events = es\<rparr>) =
        Inr (fs2, st)"
      "only_covered bs sz n (vd_bat pd) (child_read cd cf) pf g"
      "\<forall>q. fs_open fs2 q = (if fs_resolve fs q = fs_resolve fs parent then Some g else fs_open fs1 q)"
    using merge_loop_prefix [OF assms(4), of done_blocks es] assms(5) unfolding n_def bs_def sz_def by blast
  have open2: "fs_open fs2 child = Some cf" "fs_open fs2 parent = Some g"
    using L(4) F(2) merge_readyD(1) [OF assms(4)] by simp_all
  have "\<exists>d. VhdxDisk_open E q (Some h) True = Inr (d, h) \<and> active_header d = active_header pd \<and>
      vd_metadata d = vd_metadata pd \<and> vd_bat d = vd_bat pd \<and>
      (\<forall>k < n. \<forall>s < bs div sz. \<forall>rest. chain_sector ((cd, cf) # (d, h) # rest) sz (k * bs + s * sz) =
        chain_sector ((cd, cf) # (pd, pf) # rest) sz (k * bs + s * sz))" if h: "mixed pf g h" for h q
    unfolding n_def bs_def sz_def
    using only_covered_mixed [OF L(3) h] h
    by (intro interrupted_view [OF assms(4)]) (simp_all add: n_def bs_def sz_def mixed_def)
  then show ?thesis using L(1,2) open2 by blast
qed

theorem interrupted_merge_keeps_view_witness:
  "\<exists>fs cd cf pd pf pf1 cur fs2 st g d. VhdxDisk_open ref_externs ''/d/base.vhdx'' (Some pf) True = Inr (pd, pf) \<and>
    aligned_end pf = Inr (pf1, cur) \<and>
    merge_loop cd ''/d/leaf.avhdx'' ''/d/base.vhdx'' 1048576 512 2048 0 2
      (fs_store fs ''/d/base.vhdx'' pf1, \<lparr>mg_bat = vd_bat pd, mg_cursor = cur, mg_blocks = 0, mg_sectors = 0, mg_events = []\<rparr>) =
      Inr (fs2, st) \<and>
    fs_open fs2 ''/d/base.vhdx'' = Some g \<and>
    VhdxDisk_open ref_externs ''/d/base.vhdx'' (Some (pf\<lparr>f_data := \<lambda>i. if even i then f_data g i else f_data pf i\<rparr>)) True =
      Inr (d, pf\<lparr>f_data := \<lambda>i. if even i then f_data g i else f_data pf i\<rparr>) \<and>
    chain_sector [(cd, cf), (d, pf\<lparr>f_data := \<lambda>i. if even i then f_data g i else f_data pf i\<rparr>)] 512 0 = replicate 512 7 \<and>
    chain_sector [(cd, cf), (d, pf\<lparr>f_data := \<lambda>i. if even i then f_data g i else f_data pf i\<rparr>)] 512 1048576 = replicate 512 9"
proof -
  let ?child = "''/d/leaf.avhdx''" and ?parent = "''/d/base.vhdx''"
  obtain fs cd cf pd pf where ready: "\<And>keep. merge_ready ref_externs \<lparr>mo_keep_child = keep, mo_skip_fsck = True\<rparr>
      fs ?child ?parent fs cd cf pd pf"
    and K: "disk_block_size cd = 1048576" "logical_sector_size (vd_metadata cd) = 512"
      "read_block cd cf 0 = Inr Absent" "read_block cd cf 1 = Inr (Full (replicate 1048576 9))"
      "read_block pd pf 0 = Inr (Full (replicate 1048576 7))" "bat_block_count (vd_bat pd) = 2" "disk_block_size pd = 1048576"
    by (rule merge_directory) (rule that)
  have n: "bat_block_count (vd_bat cd) = 2" using merge_ready_count(1) [OF ready] K(6) by simp
  have u: "unat (bat_block_count (vd_bat cd)) = 2" "unat (disk_block_size cd) = 1048576"
      "unat (logical_sector_size (vd_metadata cd)) = 512" "(1048576 :: nat) div 512 = 2048" "sectors_of cd = 2048"
      "(ucast (disk_block_size cd) :: u64) = 1048576"
    by (simp_all add: n K sectors_of_def)
  obtain pf1 cur fs2 st g where L: "aligned_end pf = Inr (pf1, cur)"
      "merge_loop cd ?child ?parent 1048576 512 2048 0 2
        (fs_store fs ?parent pf1, \<lparr>mg_bat = vd_bat pd, mg_cursor = cur, mg_blocks = 0, mg_sectors = 0, mg_events = []\<rparr>) =
        Inr (fs2, st)" "fs_open fs2 ?parent = Some g"
    and V: "\<forall>h q. mixed pf g h \<longrightarrow> (\<exists>d. VhdxDisk_open ref_externs q (Some h) True = Inr (d, h) \<and>
      active_header d = active_header pd \<and> vd_metadata d = vd_metadata pd \<and> vd_bat d = vd_bat pd \<and>
      (\<forall>k < 2. \<forall>s < 2048. \<forall>rest. chain_sector ((cd, cf) # (d, h) # rest) 512 (k * 1048576 + s * 512) =
        chain_sector ((cd, cf) # (pd, pf) # rest) 512 (k * 1048576 + s * 512)))"
    using interrupted_merge_keeps_view [where done_blocks = 2 and es = "[]", OF ready [of False], unfolded u] by blast
  let ?h = "pf\<lparr>f_data := \<lambda>i. if even i then f_data g i else f_data pf i\<rparr>"
  have "f_len pf < 2 ^ 63" using merge_readyD(8,9) [OF ready] by linarith
  then have "mixed pf g ?h" by (simp add: mixed_def)
  then obtain d where d: "VhdxDisk_open ref_externs ?parent (Some ?h) True = Inr (d, ?h)"
      "\<forall>k < 2. \<forall>s < 2048. \<forall>rest. chain_sector ((cd, cf) # (d, ?h) # rest) 512 (k * 1048576 + s * 512) =
        chain_sector ((cd, cf) # (pd, pf) # rest) 512 (k * 1048576 + s * 512)"
    using V by blast
  have size: "link_size (cd, cf) = 1048576" "link_size (pd, pf) = 1048576" "link_count (cd, cf) = 2" "link_count (pd, pf) = 2"
    by (simp_all add: link_size_def link_count_def K n)
  have "link_content (cd, cf) 512 0 = None" "link_content (pd, pf) 512 0 = Some (replicate 512 7)"
      "link_content (cd, cf) 512 1048576 = Some (replicate 512 9)"
    using link_content_block [of 0 "(cd, cf)" Absent 0 512] link_content_block [of 1 "(cd, cf)" _ 0 512]
      link_content_block [of 0 "(pd, pf)" _ 0 512]
    by (simp_all add: K size link_read_def bslice_replicate)
  then have "chain_sector [(cd, cf), (d, ?h)] 512 0 = replicate 512 7"
      "chain_sector [(cd, cf), (d, ?h)] 512 1048576 = replicate 512 9"
    using d(2) [rule_format, of 0 0 "[]"] d(2) [rule_format, of 1 0 "[]"] by simp_all
  then show ?thesis using L d(1) merge_ready_files(5) [OF ready] by blast
qed

end
