(* ===== verification/Spec2Isabelle.thy ===== *)
theory Spec2Isabelle
  imports Xtask Vhdx_Log Vhdx_Merge_Crash
begin

text \<open>
  starweld: a verification library.

  The program.  starweld works on chains of differencing VHDX disks, the format of Hyper-V.  It
  shows and checks them (\<open>info\<close>, \<open>chain\<close>, \<open>fsck\<close>), flattens a chain into one disk or into a
  compressed archive (\<open>flatten\<close>, \<open>flatten --zstd\<close>), merges a leaf into its parent (\<open>merge\<close>)
  and repacks a disk (\<open>compact\<close>).  The crate \<open>starweld-core\<close> is the engine, \<open>starweld-cli\<close> the
  commands.  The library models both from the bytes of the files up: a command of the model
  takes a file system whose files are byte sequences and returns the file system it leaves.

  Paths below are relative to \<open>src/crates/starweld-core/src\<close>, but for \<open>main.rs\<close>, which is in
  \<open>src/crates/starweld-cli/src\<close>.  Definitions carry the name of the function they model,
  methods with the name of the type in front (\<open>HeaderPair_read\<close> for \<open>HeaderPair::read\<close>).
\<close>

section \<open>The theories\<close>

text \<open>
  The file format and its regions.

  \<^item> \<open>Prelude\<close>: machine integers, results, byte buffers, little-endian codecs (locale
    \<open>fixed_codec\<close>).
  \<^item> \<open>Vhdx_Format\<close>: \<open>error.rs\<close>, \<open>format.rs\<close>, \<open>guid.rs\<close>, \<open>crc32c.rs\<close>.
  \<^item> \<open>Vhdx_IO\<close>: \<open>io_util.rs\<close>, the file as a value (locale \<open>byte_store\<close>).
  \<^item> \<open>Vhdx_Header\<close>: \<open>header.rs\<close>; the step relation \<open>header_step\<close> of updates and crashes.
  \<^item> \<open>Vhdx_Bat\<close>: \<open>bat.rs\<close> (locale \<open>entry_table\<close>).
  \<^item> \<open>Vhdx_Region\<close>: \<open>region.rs\<close>.
  \<^item> \<open>Vhdx_Parent_Locator\<close>: \<open>parent_locator.rs\<close>, with UTF-16.
  \<^item> \<open>Vhdx_Metadata\<close>: \<open>metadata.rs\<close>.
  \<^item> \<open>Vhdx_Log\<close>: \<open>log.rs\<close>.

  Whole files.

  \<^item> \<open>Vhdx_Writer\<close>: \<open>writer.rs\<close>.
  \<^item> \<open>Vhdx_Disk\<close>: \<open>disk.rs\<close> (locale \<open>block_device\<close>); that a written file reads back.
  \<^item> \<open>Vhdx_Contents\<close>: what a table and the bytes of a file say a block holds.
  \<^item> \<open>Vhdx_Repair\<close>: \<open>repair.rs\<close>.

  Streams and archives.

  \<^item> \<open>Vhdx_Sink\<close>: output streams (locale \<open>byte_sink\<close>) and the parameters of \<open>zst_compress.rs\<close>.
  \<^item> \<open>Vhdx_Tar\<close>: \<open>tar_header.rs\<close>.
  \<^item> \<open>Vhdx_Path\<close>: \<open>std::path\<close>, the names derived from the output path.
  \<^item> \<open>Vhdx_Zst_Writer\<close>: \<open>zst_writer.rs\<close>.

  Operations on several files, and the commands.

  \<^item> \<open>Vhdx_FS\<close>: the file system.
  \<^item> \<open>Vhdx_Chain\<close>: \<open>chain.rs\<close>.
  \<^item> \<open>Vhdx_Events\<close>: the progress events.
  \<^item> \<open>Vhdx_Flatten\<close>: \<open>flatten.rs\<close>, the merge of one block from the links of a chain.
  \<^item> \<open>Vhdx_Flatten_Output\<close>: \<open>flatten.rs\<close>, the output file and the loop over the blocks.
  \<^item> \<open>Vhdx_Flatten_Chain\<close>: \<open>flatten.rs\<close> on the file system, \<open>flatten_to_zst\<close> included.
  \<^item> \<open>Vhdx_Ntfs\<close>: \<open>compress.rs\<close>.
  \<^item> \<open>Vhdx_Compact\<close>: \<open>compact.rs\<close>.
  \<^item> \<open>Vhdx_Merge\<close>: \<open>merge.rs\<close>, the copy of the blocks and its loop invariant.
  \<^item> \<open>Vhdx_Merge_View\<close>: what a merge does to the chain of the child.
  \<^item> \<open>Vhdx_Merge_Crash\<close>: the parent's file while the blocks are copied.
  \<^item> \<open>Starweld_Cli\<close>: \<open>main.rs\<close>.
  \<^item> \<open>Starweld_Print\<close>: the text the commands print, with the \<open>f64\<close> arithmetic of its figures.
  \<^item> \<open>Xtask\<close>: \<open>xtask/src/main.rs\<close>, the build of the release binaries.
\<close>

section \<open>How the model relates to the code\<close>

text \<open>
  \<^item> Values.  u8 to u64 are words of their width, with the wrap-around of a release build;
    usize is \<open>nat\<close>.  A struct is a record, an enum a datatype with the constructors of the
    source.  A \<open>Result\<close> is a sum: \<open>Inl\<close> an error, \<open>Inr\<close> a value.  Every \<open>?\<close>, early return and
    panic (index or slice out of range, division by zero, \<open>unwrap\<close>) is a branch; a panic is
    the error \<open>Panic\<close>.  An error discards what a failed operation had already written, and the
    events it had sent: the model says which error it is, not what the file holds then.
    Messages are kept up to the parts they interpolate.
  \<^item> Files.  A file (\<open>dfile\<close>) is a length, its bytes, and a bound on the length it can grow to;
    reading past the end and growing past the bound fail as the calls of the system do.  An
    operation that has a file open takes the file and returns it.  Operations on several files
    take and return a file system (\<open>fsys\<close>), finitely many files by canonical name and a
    resolution of paths; a handle is the canonical name, so that two handles on one file see
    each other's writes.  A last component that is a symbolic link is not renamed or removed
    apart from its target.  Paths follow the rules of Unix and are UTF-8.
  \<^item> Loops are recursive functions that end on every input; where the recursion is not
    structural the measure is what is left of the buffer, the ring or the file, or, for the
    discovery of a chain, the number of files not yet visited.  There is no fuel, so a theorem
    that a run gives a result needs no bound on steps.
  \<^item> Bounds.  The writers are proved for the parameters \<open>params_ok\<close> admits: block sizes that are
    multiples of 1 MiB up to 256 MiB, sectors of at most 64 KiB, a disk of at most 2^46 bytes (64 TiB,
    the limit of the format), a log below 4 GiB and a parent locator that fits the metadata region.
    With them every u64 sum of the layout is exact.  Volumes are below 2^63 bytes, where the
    offsets of the system calls end.  The properties of \<open>open\<close>, of the checks and of the log
    hold for all files.
\<close>

section \<open>What is a parameter\<close>

text \<open>
  Code that is not part of the repository is an argument.  \<open>externs\<close> holds the checksum of the
  crate \<open>crc32c\<close> and the functions of \<open>uuid\<close>; the named hypotheses \<open>uuid_laws\<close> and
  \<open>uuid_text_laws\<close> state that the encodings have the right length and decode to what was encoded.
  Nothing is assumed of the checksum.  The encoder of the crate \<open>zstd\<close>, with the writer and the file
  behind it, is the record \<open>zstd_encoder\<close>; the hypothesis \<open>zstd_works\<close> of the archive property
  says that it keeps every byte put in and that some function decompresses what it leaves.
  Fresh identifiers, the names of temporary files, the time, the number of processors and the end of
  a run of \<open>compact.exe\<close> are arguments too.  The witnesses use concrete ones: the bitwise
  CRC-32C and the byte layout of \<open>guid.rs\<close> (\<open>ref_externs\<close>), an encoder that stores.
\<close>

section \<open>What is proved\<close>

text \<open>
  Headers, table and regions.  A read picks the newest valid header, an update becomes active and
  leaves the other copy alone, and no history of updates and crashes makes the headers unreadable
  or older (\<open>headers_survive_history\<close>).  The index arithmetic of the table is injective and stays
  in range; an update of an entry is local.  The layout check accepts exactly the aligned disjoint
  layouts; tables, metadata and parent locators are parsed back from their encoding.

  Log.  The scan picks a longest run of valid entries; a replay leaves each byte as the last
  descriptor that covers it says, fails only with an I/O error, and gives the same file when it is started
  again after an interruption.  A cleaned log is empty on the next open.

  Disks.  Every file that \<open>open\<close> accepts is a well-formed disk (\<open>disk_wf\<close>), reading a block of it
  never panics and delivers blocks of the promised sizes (locale \<open>block_device\<close>).  A session of the writer
  gives a file that opens and whose blocks are those last written; the streaming writer gives such a
  file on any stream.  A clean check means that every present block is inside the file; a repair and
  a forced removal of the log leave no log.

  Operations.  The abstract specification of a chain is the composite disk \<open>chain_sector\<close>:
  each sector is that of the first link, from the leaf, that holds it.  Merging a block refines it
  (\<open>merge_block_correct\<close>), and so do the operations as a whole: flattening into a disk and into
  an archive, the merge into the parent, and compacting, where the result is opened again and
  compared with the composite of the chain before.  Other files do not change.  A merge that stops
  between its blocks, with any part of its writes on the disk, leaves the child with the view it had
  (\<open>interrupted_merge_keeps_view\<close>).  Discovery finds the
  chain the locators describe and ends with an error on a cycle.

  Commands.  The commands that only look change no file; the progress bar never passes its end and
  arrives there; the archive command reports the file it wrote.

  Where the code departs from what it means to do, the theorem describes the code: an entry longer
  than the log ring makes the scan panic (\<open>scan_panics_on_oversized_entry\<close>), and the merge fills
  a block with zeros when the parent's block is not fully present, so that what the disks above
  the parent hold in that block is hidden afterwards (\<open>block_hides\<close>).
  \<open>merge_keeps_child_view\<close> states the view after a merge with these sectors told apart, for
  any parent; \<open>merge_shortens_chain\<close>, below, composes it with the flattening of the chain.
\<close>

section \<open>What is not modelled\<close>

text \<open>
  \<^item> \<open>sync_all\<close>, \<open>sync_data\<close>, \<open>flush\<close> and the page-cache hints: they do not change the bytes.
    Crashes are modelled where the code has a protocol for them: the headers, the log, and the
    copy of the blocks in a merge.
  \<^item> What a failed operation leaves behind, see above.
  \<^item> The parsing of arguments by \<open>clap\<close>, the JSON of \<open>serde_json\<close>, the derived \<open>Debug\<close> text of a
    check report and the set-up of the log output.
  \<^item> Changes to files from outside while an operation runs.
\<close>

section \<open>Merging and flattening\<close>

text \<open>
  The merge and the flattening meet in the chain.  Before a merge the chain of the child is the
  child on top of the chain of the parent; after it the chain of the parent has the merged disk
  in the place of the two, over the same links.
\<close>

lemma open_nodes_opened:
  assumes "list_all (opens_as E fs) nodes"
  obtains links where "open_nodes E fs nodes = Inr links"
  using assms
proof (induction nodes arbitrary: thesis)
  case (Cons n ns)
  obtain d f where "VhdxDisk_open E (cn_path n) (fs_open fs (cn_path n)) True = Inr (d, f)"
    using Cons.prems(2) by (auto simp: opens_as_def)
  moreover obtain links where "open_nodes E fs ns = Inr links" using Cons.IH Cons.prems(2) by auto
  ultimately show ?case using Cons.prems(1) [of "(d, f) # links"] by simp
qed simp

lemma open_nodes_same:
  "(\<And>n. n \<in> set nodes \<Longrightarrow> fs_open fs' (cn_path n) = fs_open fs (cn_path n)) \<Longrightarrow>
    open_nodes E fs' nodes = open_nodes E fs nodes"
  by (induction nodes) simp_all

lemma open_chain_skip:
  "Chain_discover E fs p = Inr c \<Longrightarrow> open_nodes E fs (ch_nodes c) = Inr links \<Longrightarrow>
    open_chain E True fs p = Inr (fs, links)"
  by (simp add: open_chain_def repair_unless_def repair_nodes_skip)

lemma open_chain_root:
  assumes "open_chain E True fs p = Inr (fs', (d, f) # rest)" and "\<not> disk_has_parent d"
  shows "rest = []"
proof -
  obtain c where c: "Chain_discover E fs p = Inr c" "open_nodes E fs (ch_nodes c) = Inr ((d, f) # rest)"
    using assms(1) by (auto simp: open_chain_def repair_unless_def repair_nodes_skip res_simps)
  obtain n ns where n: "ch_nodes c = n # ns" "cn_path n = p" using discovered_nodes [OF c(1)] by (cases "ch_nodes c") auto
  have "VhdxDisk_open E p (fs_open fs p) True = Inr (d, f)" using c(2) n by (auto simp: res_simps)
  then have "ns = []" using discover_root [of E p fs d f] assms(2) c(1) n by simp
  then show ?thesis using c(2) n by (auto simp: res_simps)
qed

text \<open>The chain of the parent, before the merge.\<close>

lemma merge_parent_chain:
  assumes ready: "merge_ready E opts fs child parent fs1 cd cf pd pf"
  obtains n ns rest where "discover_loop E fs1 {} parent = Inr (n # ns)" and "check_guids (n # ns) = Inr ()"
    and "Chain_discover E fs1 parent = Inr \<lparr>ch_leaf_path = parent, ch_nodes = n # ns\<rparr>"
    and "open_nodes E fs1 (n # ns) = Inr ((pd, pf) # rest)" and "cn_path n = parent"
    and "cn_data_write_guid n = data_write_guid (active_header pd)"
    and "\<And>m. m \<in> set ns \<Longrightarrow> fs_resolve fs (cn_path m) \<notin> {fs_resolve fs child, fs_resolve fs parent}"
    and "list_all (opens_as E fs1) (n # ns)"
proof -
  note F = merge_ready_files [OF ready]
  obtain c where c: "Chain_discover E fs1 parent = Inr c"
      "\<forall>n\<in>set (tl (ch_nodes c)). fs_resolve fs (cn_path n) \<noteq> fs_resolve fs child"
    using ready unfolding merge_ready_def by blast
  note D = discovered [OF c(1)]
  obtain n ns where n: "ch_nodes c = n # ns" using D by (cases "ch_nodes c") auto
  have run: "discover_loop E fs1 {} parent = Inr (n # ns)" "check_guids (n # ns) = Inr ()" "ch_leaf_path c = parent"
    using c(1) n by (auto simp: Chain_discover_def res_simps)
  have path: "cn_path n = parent" using D n by simp
  have opened: "list_all (opens_as E fs1) (n # ns)" using D n by simp
  obtain links where links: "open_nodes E fs1 ns = Inr links"
    using open_nodes_opened [of E fs1 ns] opened by auto
  have po: "VhdxDisk_open E parent (fs_open fs1 parent) True = Inr (pd, pf)" using F(1,5) by simp
  show ?thesis
  proof (rule that [OF run(1,2) _ _ path _ _ opened])
    show "Chain_discover E fs1 parent = Inr \<lparr>ch_leaf_path = parent, ch_nodes = n # ns\<rparr>"
      using c(1) n run(3) by (cases c) simp
    show "open_nodes E fs1 (n # ns) = Inr ((pd, pf) # links)" using links po path by simp
    show "cn_data_write_guid n = data_write_guid (active_header pd)"
      using opened path po by (auto simp: opens_as_def)
    show "fs_resolve fs (cn_path m) \<notin> {fs_resolve fs child, fs_resolve fs parent}" if "m \<in> set ns" for m
      using c(2) D that n path by (auto simp: F(3) image_iff)
  qed
qed

text \<open>The chain of the child, before the merge.\<close>

lemma merge_child_chain:
  assumes ready: "merge_ready E opts fs child parent fs1 cd cf pd pf"
    and chain: "discover_loop E fs1 {} parent = Inr (n # ns)" "check_guids (n # ns) = Inr ()" "cn_path n = parent"
      "cn_data_write_guid n = data_write_guid (active_header pd)"
      "\<And>m. m \<in> set ns \<Longrightarrow> fs_resolve fs (cn_path m) \<notin> {fs_resolve fs child, fs_resolve fs parent}"
      "list_all (opens_as E fs1) (n # ns)"
    and links: "open_nodes E fs1 (n # ns) = Inr ((pd, pf) # rest)"
  shows "open_chain E True fs1 child = Inr (fs1, (cd, cf) # (pd, pf) # rest)"
proof -
  note F = merge_ready_files [OF ready]
  obtain fs0 pl where P: "repair_unless E (mo_skip_fsck opts) fs child = Inr fs0"
      "VhdxDisk_open E child (fs_open fs0 child) True = Inr (cd, cf)" "disk_has_parent cd"
      "md_parent_locator (vd_metadata cd) = Some pl" "resolve_parent fs0 child pl = Some parent"
      "repair_unless E (mo_skip_fsck opts) fs0 parent = Inr fs1"
      "parent_linkage E pl \<in> {None, Some (data_write_guid (active_header pd))}"
    using ready unfolding merge_ready_def merge_found_def by blast
  have co: "VhdxDisk_open E child (fs_open fs1 child) True = Inr (cd, cf)"
    using P(2) F(2) open_wf(2) [OF P(2)] by simp
  have "path_exists fs1 q = path_exists fs0 q" for q using repair_keeps_existence [OF P(6)] .
  then have rp: "resolve_parent fs1 child pl = Some parent" using resolve_parent_cong [of fs1 fs0] P(5) by simp
  have can: "canonical_path fs1 q = fs_resolve fs q" if "fs_open fs1 q \<noteq> None" for q
    using canonical_path_open [OF that] F(3) by simp
  have "canonical_path fs1 (cn_path m) \<notin> {canonical_path fs1 child}" if "m \<in> set (n # ns)" for m
  proof -
    have "fs_open fs1 (cn_path m) \<noteq> None"
      using chain(6) that VhdxDisk_open_some by (auto simp: list_all_iff opens_as_def)
    then show ?thesis using can [of "cn_path m"] can [of child] F(2) that chain(3,5) merge_readyD(1) [OF ready] by auto
  qed
  then have "discover_loop E fs1 {canonical_path fs1 child} parent = Inr (n # ns)"
    by (rule discover_loop_visited [OF chain(1)])
  then have run: "discover_loop E fs1 {} child =
      Inr ((node_of child cd)\<lparr>cn_parent_link := Some (link_of E fs1 child pl)\<rparr> # n # ns)" (is "_ = Inr (?m # _)")
    by (intro discover_loop_enter(2) [OF _ co P(3,4) rp]) simp_all
  have "check_guids (?m # n # ns) = Inr ()"
    using chain(2,4) P(7) by (auto simp: link_of_def Let_def simp del: check_guids.simps(2) split: option.split
        intro: trans [OF check_guids.simps(2)])
  then have disc: "Chain_discover E fs1 child = Inr \<lparr>ch_leaf_path = child, ch_nodes = ?m # n # ns\<rparr>"
    using run by (simp add: Chain_discover_def)
  have "open_nodes E fs1 (?m # n # ns) = Inr ((cd, cf) # (pd, pf) # rest)"
    using co links by (simp add: node_of_def)
  then show ?thesis by (intro open_chain_skip [OF disc]) simp
qed

text \<open>The chain of the parent, after the merge.\<close>

lemma merged_parent_chain:
  assumes ready: "merge_ready E opts fs child parent fs1 cd cf pd pf"
    and chain: "Chain_discover E fs1 parent = Inr \<lparr>ch_leaf_path = parent, ch_nodes = n # ns\<rparr>"
      "\<And>m. m \<in> set ns \<Longrightarrow> fs_resolve fs (cn_path m) \<notin> {fs_resolve fs child, fs_resolve fs parent}"
    and links: "open_nodes E fs1 (n # ns) = Inr ((pd, pf) # rest)" "cn_path n = parent"
    and res: "fs_resolve fs' = fs_resolve fs"
    and o': "\<And>q. fs_open fs' q = (if fs_resolve fs q = fs_resolve fs parent then Some g
      else if fs_resolve fs q = fs_resolve fs child \<and> \<not> mo_keep_child opts then None else fs_open fs1 q)"
    and g: "VhdxDisk_open E parent (Some g) True = Inr (d, g)" "vd_metadata d = vd_metadata pd"
  shows "open_chain E True fs' parent = Inr (fs', (d, g) # rest)"
proof -
  note F = merge_ready_files [OF ready]
  have same: "fs_open fs' (cn_path m) = fs_open fs1 (cn_path m)" if "m \<in> set ns" for m
    using chain(2) [OF that] by (simp add: o')
  obtain n' where n': "Chain_discover E fs' parent = Inr \<lparr>ch_leaf_path = parent, ch_nodes = n' # ns\<rparr>"
    using discover_first_changed [OF chain(1), of fs' pd pf d g] merge_less [OF ready o'] res F(1,3,5) same g
    by (auto simp: o')
  have "cn_path n' = parent" using discovered [OF n'] by simp
  moreover have "open_nodes E fs' ns = Inr rest"
    using links open_nodes_same [of ns fs' fs1 E] same by (auto simp: res_simps)
  ultimately have "open_nodes E fs' (n' # ns) = Inr ((d, g) # rest)" using g(1) by (simp add: o')
  then show ?thesis by (intro open_chain_skip [OF n']) simp
qed

text \<open>
  C4 (merging shortens the chain): in the circumstances of \<open>merge_ready\<close> the chain of the child
  opens, before the merge, as the child, its parent and the links below; the merge succeeds; and
  then the chain of the parent opens as the merged disk and the same links below.  The composite
  disk of the new chain, which is what flattening writes, is in every sector that of the old
  one, but for the sectors of a partial block that the child does not have and whose block the
  parent does not have in full, which are zero.
\<close>

theorem merge_shortens_chain:
  fixes g1 g2 :: uuid and cd :: vhdx_disk
  defines "n \<equiv> unat (bat_block_count (vd_bat cd))" and "bs \<equiv> unat (disk_block_size cd)"
    and "sz \<equiv> unat (logical_sector_size (vd_metadata cd))"
  assumes "uuid_laws E" and "merge_ready E opts fs child parent fs1 cd cf pd pf"
  shows "\<exists>rest fs' rep evs d g. open_chain E True fs1 child = Inr (fs1, (cd, cf) # (pd, pf) # rest) \<and>
    merge E g1 g2 fs child opts = Inr (fs', rep, evs) \<and>
    open_chain E True fs' parent = Inr (fs', (d, g) # rest) \<and> vd_metadata d = vd_metadata pd \<and>
    (\<forall>k < n. \<forall>s < bs div sz. chain_sector ((d, g) # rest) sz (k * bs + s * sz) =
      (if link_content (cd, cf) sz (k * bs + s * sz) = None \<and> block_hides (cd, cf) (pd, pf) k then replicate sz 0
       else chain_sector ((cd, cf) # (pd, pf) # rest) sz (k * bs + s * sz)))"
proof -
  obtain m ns rest where M: "discover_loop E fs1 {} parent = Inr (m # ns)" "check_guids (m # ns) = Inr ()"
      "Chain_discover E fs1 parent = Inr \<lparr>ch_leaf_path = parent, ch_nodes = m # ns\<rparr>"
      "open_nodes E fs1 (m # ns) = Inr ((pd, pf) # rest)" "cn_path m = parent"
      "cn_data_write_guid m = data_write_guid (active_header pd)"
      "\<And>m. m \<in> set ns \<Longrightarrow> fs_resolve fs (cn_path m) \<notin> {fs_resolve fs child, fs_resolve fs parent}"
      "list_all (opens_as E fs1) (m # ns)"
    by (rule merge_parent_chain [OF assms(5)]) (rule that)
  obtain fs' rep evs g where run: "merge E g1 g2 fs child opts = Inr (fs', rep, evs)" "fs_resolve fs' = fs_resolve fs"
      "\<forall>q. fs_open fs' q = (if fs_resolve fs q = fs_resolve fs parent then Some g
        else if fs_resolve fs q = fs_resolve fs child \<and> \<not> mo_keep_child opts then None else fs_open fs1 q)"
    and g: "\<forall>q ro. \<exists>d. VhdxDisk_open E q (Some g) ro = Inr (d, g) \<and> vd_metadata d = vd_metadata pd \<and>
      data_write_guid (active_header d) = g1 \<and>
      (\<forall>k < n. \<forall>s < bs div sz. \<forall>rest. chain_sector ((d, g) # rest) sz (k * bs + s * sz) =
        (if link_content (cd, cf) sz (k * bs + s * sz) = None \<and> block_hides (cd, cf) (pd, pf) k then replicate sz 0
         else chain_sector ((cd, cf) # (pd, pf) # rest) sz (k * bs + s * sz)))"
    using merge_view [OF assms(4,5), of g1 g2] unfolding n_def bs_def sz_def by blast
  obtain d where d: "VhdxDisk_open E parent (Some g) True = Inr (d, g)" "vd_metadata d = vd_metadata pd"
      "\<forall>k < n. \<forall>s < bs div sz. \<forall>rest. chain_sector ((d, g) # rest) sz (k * bs + s * sz) =
        (if link_content (cd, cf) sz (k * bs + s * sz) = None \<and> block_hides (cd, cf) (pd, pf) k then replicate sz 0
         else chain_sector ((cd, cf) # (pd, pf) # rest) sz (k * bs + s * sz))"
    using g by blast
  have "open_chain E True fs1 child = Inr (fs1, (cd, cf) # (pd, pf) # rest)"
    by (rule merge_child_chain [OF assms(5) M(1,2,5-8,4)])
  moreover have "open_chain E True fs' parent = Inr (fs', (d, g) # rest)"
    using run(3) by (intro merged_parent_chain [OF assms(5) M(3,7,4,5) run(2) _ d(1,2)]) auto
  ultimately show ?thesis using run(1) d(2,3) by blast
qed

theorem merge_shortens_chain_witness:
  "\<exists>fs fs' rep evs cd cf pd pf d g. open_chain ref_externs True fs ''/d/leaf.avhdx'' = Inr (fs, [(cd, cf), (pd, pf)]) \<and>
    merge ref_externs 5 6 fs ''/d/leaf.avhdx'' \<lparr>mo_keep_child = False, mo_skip_fsck = True\<rparr> = Inr (fs', rep, evs) \<and>
    open_chain ref_externs True fs' ''/d/base.vhdx'' = Inr (fs', [(d, g)]) \<and>
    chain_sector [(d, g)] 512 1048576 = chain_sector [(cd, cf), (pd, pf)] 512 1048576"
proof -
  let ?child = "''/d/leaf.avhdx''" and ?parent = "''/d/base.vhdx''"
  obtain fs cd cf pd pf where ready: "merge_ready ref_externs \<lparr>mo_keep_child = False, mo_skip_fsck = True\<rparr> fs ?child ?parent fs
      cd cf pd pf"
    and K: "disk_block_size cd = 1048576" "logical_sector_size (vd_metadata cd) = 512" "bat_block_count (vd_bat pd) = 2"
      "read_block cd cf 1 = Inr (Full (replicate 1048576 9))" "\<not> disk_has_parent pd"
    by (rule merge_directory) (rule that)
  have n: "bat_block_count (vd_bat cd) = 2" using merge_ready_count(1) [OF ready] K(3) by simp
  have u: "unat (bat_block_count (vd_bat cd)) = 2" "unat (disk_block_size cd) = 1048576"
      "unat (logical_sector_size (vd_metadata cd)) = 512" "(1048576 :: nat) div 512 = 2048"
    by (simp_all add: n K)
  obtain rest fs' rep evs d g where C: "open_chain ref_externs True fs ?child = Inr (fs, (cd, cf) # (pd, pf) # rest)"
      "merge ref_externs 5 6 fs ?child \<lparr>mo_keep_child = False, mo_skip_fsck = True\<rparr> = Inr (fs', rep, evs)"
      "open_chain ref_externs True fs' ?parent = Inr (fs', (d, g) # rest)" "vd_metadata d = vd_metadata pd"
      "\<forall>k < 2. \<forall>s < 2048. chain_sector ((d, g) # rest) 512 (k * 1048576 + s * 512) =
        (if link_content (cd, cf) 512 (k * 1048576 + s * 512) = None \<and> block_hides (cd, cf) (pd, pf) k then replicate 512 0
         else chain_sector ((cd, cf) # (pd, pf) # rest) 512 (k * 1048576 + s * 512))"
    using merge_shortens_chain [OF ref_uuid_laws ready, of 5 6, unfolded u] by blast
  have "\<not> block_hides (cd, cf) (pd, pf) 1" by (simp add: block_hides_def hides_def link_read_def K(4) split: sum.split)
  then have same: "chain_sector ((d, g) # rest) 512 1048576 = chain_sector ((cd, cf) # (pd, pf) # rest) 512 1048576"
    using C(5) [rule_format, of 1 0] by simp
  have "\<not> disk_has_parent d" using C(4) K(5) by (simp add: disk_has_parent_def)
  then have "rest = []" by (rule open_chain_root [OF C(3)])
  then show ?thesis using C(1-3) same by blast
qed

end
